(* ===== verification/Prelude.thy ===== *)
theory Prelude
  imports Complex_Main "HOL-Library.AList"
begin

text \<open>
  Shared vocabulary of the development: Python's \<open>str\<close> and \<open>bytes\<close>, the exceptions the
  server meets, the combinators in which effectful code is written (explicit state
  passing with exceptions as values of a sum), dictionaries as association lists, and two
  interfaces several components use: \<open>codec\<close> (a decoder that inverts an encoder)
  and \<open>machine\<close> (a step function with an invariant).
\<close>

section \<open>Text and bytes\<close>

text \<open>
  A Python \<open>str\<close> is a sequence of code points, a list of \<^typ>\<open>int\<close>; a Python
  \<open>bytes\<close> is a list of HOL characters, which are exactly the 256 byte values. The two
  types differ, so \<open>encode\<close> and \<open>decode\<close> stay visible in the model.
  \<open>us ''abc''\<close> is the \<open>str\<close> literal \<open>"abc"\<close>.
\<close>

type_synonym ustr = "int list"
type_synonym bytes = "char list"

named_theorems prog_simps \<open>unfolding rules of the effect combinators\<close>
named_theorems lit_simps \<open>facts that evaluate text literals\<close>

definition us :: "string \<Rightarrow> ustr" where
  "us s = map of_char s"

lemma us_Nil [simp]: "us [] = []"
  by (simp add: us_def)

lemma us_Cons [lit_simps]: "us (c # s) = of_char c # us s"
  by (simp add: us_def)

lemma us_append [simp]: "us (a @ b) = us a @ us b"
  by (simp add: us_def)

lemma us_inj [simp]: "us a = us b \<longleftrightarrow> a = b"
  unfolding us_def by (rule inj_map_eq_map) (simp add: inj_on_def)

lemma us_eq_Nil [simp]: "us a = [] \<longleftrightarrow> a = []"
  by (simp add: us_def)

lemma length_us [simp]: "length (us s) = length s"
  by (simp add: us_def)

lemma of_char_bounds: "0 \<le> (of_char c :: int)" "(of_char c :: int) < 256"
proof -
  have "(of_char c :: int) = of_char c mod 256"
    by (metis char_of_char of_char_of)
  then show "0 \<le> (of_char c :: int)" "(of_char c :: int) < 256"
    by presburger+
qed

lemma set_us: "c \<in> set (us s) \<Longrightarrow> 0 \<le> c \<and> c < 256"
  by (auto simp: us_def of_char_bounds)

text \<open>ASCII text, and bytes written as the text they spell.\<close>

definition ascii :: "ustr \<Rightarrow> bool" where
  "ascii s \<longleftrightarrow> list_all (\<lambda>c. 0 \<le> c \<and> c < 128) s"

lemma ascii_Nil [simp]: "ascii []"
  by (simp add: ascii_def)

lemma ascii_Cons [simp]: "ascii (c # s) \<longleftrightarrow> 0 \<le> c \<and> c < 128 \<and> ascii s"
  by (auto simp: ascii_def)

lemma ascii_append [simp]: "ascii (s @ t) \<longleftrightarrow> ascii s \<and> ascii t"
  by (simp add: ascii_def)

lemma ascii_iff: "ascii s \<longleftrightarrow> (\<forall>c \<in> set s. 0 \<le> c \<and> c < 128)"
  by (simp add: ascii_def list_all_iff)

definition to_bytes :: "ustr \<Rightarrow> bytes" where
  "to_bytes s = map char_of s"

lemma to_bytes_us [simp]: "to_bytes (us s) = s"
  by (simp add: to_bytes_def us_def comp_def)

lemma to_bytes_Nil [simp]: "to_bytes [] = []"
  by (simp add: to_bytes_def)

lemma to_bytes_append [simp]: "to_bytes (a @ b) = to_bytes a @ to_bytes b"
  by (simp add: to_bytes_def)

lemma length_to_bytes [simp]: "length (to_bytes s) = length s"
  by (simp add: to_bytes_def)

lemma us_to_bytes: "(\<And>c. c \<in> set s \<Longrightarrow> 0 \<le> c \<and> c < 256) \<Longrightarrow> us (to_bytes s) = s"
  by (induction s) (auto simp: us_def to_bytes_def)

lemma us_to_bytes_ascii [simp]: "ascii s \<Longrightarrow> us (to_bytes s) = s"
  by (rule us_to_bytes) (auto simp: ascii_iff)

text \<open>Printable ASCII text, which is one line.\<close>

definition printable :: "ustr \<Rightarrow> bool" where
  "printable s \<longleftrightarrow> list_all (\<lambda>c. 32 \<le> c \<and> c \<le> 126) s"

lemma printable_Nil [simp]: "printable []"
  and printable_Cons [simp]: "printable (c # s) \<longleftrightarrow> 32 \<le> c \<and> c \<le> 126 \<and> printable s"
  and printable_append [simp]: "printable (s @ t) \<longleftrightarrow> printable s \<and> printable t"
  by (auto simp: printable_def)

lemma printable_ascii: "printable s \<Longrightarrow> ascii s"
  by (auto simp: printable_def ascii_def list_all_iff)

lemma printable_no_newline: "printable s \<Longrightarrow> 10 \<notin> set s \<and> 13 \<notin> set s"
  by (auto simp: printable_def list_all_iff)

text \<open>
  The text of a float, as the interpreter writes it: printable ASCII. A JSON float is given
  by this text.
\<close>

typedef ftext = "{t. printable t}" morphisms ftext_str FText
  by (rule exI [of _ "[]"]) simp

lemma printable_ftext [simp]: "printable (ftext_str t)"
  using ftext_str [of t] by simp

lemma ftext_str_FText [simp]: "printable t \<Longrightarrow> ftext_str (FText t) = t"
  by (simp add: FText_inverse)

section \<open>Exceptions\<close>

text \<open>
  The exceptions the code raises, catches or lets escape. \<open>OSError\<close> carries the
  subclass Python raised, \<open>errno\<close> (absent when it was constructed with a message only)
  and \<open>str(err)\<close>; every other constructor but the last carries \<open>str(err)\<close>. The last, which a
  signal handler raises, is the one \<open>except Exception\<close> does not catch.
  \<open>JSONDecodeError\<close> and the Unicode errors are \<open>ValueError\<close>s; \<open>RecursionError\<close> is a
  \<open>RuntimeError\<close>.
\<close>

datatype os_class =
    PlainOSError | FileNotFoundError | PermissionError | BrokenPipeError
  | TimeoutError | ConnectionResetError

datatype exn =
    OSError os_class "int option" ustr
  | ValueError ustr
  | TypeError ustr
  | RuntimeError ustr
  | RecursionError ustr
  | KeyError ustr
  | ArgumentTypeError ustr
  | UnboundLocalError ustr
  | TimeoutExpired ustr
  | OtherException ustr
  | KeyboardInterrupt

fun exn_str :: "exn \<Rightarrow> ustr" where
  "exn_str (OSError _ _ m) = m"
| "exn_str (ValueError m) = m"
| "exn_str (TypeError m) = m"
| "exn_str (RuntimeError m) = m"
| "exn_str (RecursionError m) = m"
| "exn_str (KeyError m) = m"
| "exn_str (ArgumentTypeError m) = m"
| "exn_str (UnboundLocalError m) = m"
| "exn_str (TimeoutExpired m) = m"
| "exn_str (OtherException m) = m"
| "exn_str KeyboardInterrupt = []"

fun exn_errno :: "exn \<Rightarrow> int option" where
  "exn_errno (OSError _ n _) = n"
| "exn_errno _ = None"

fun is_OSError :: "exn \<Rightarrow> bool" where
  "is_OSError (OSError _ _ _) = True"
| "is_OSError _ = False"

fun is_os :: "os_class \<Rightarrow> exn \<Rightarrow> bool" where
  "is_os c (OSError d _ _) = (c = d)"
| "is_os _ _ = False"

fun is_ValueError :: "exn \<Rightarrow> bool" where
  "is_ValueError (ValueError _) = True"
| "is_ValueError _ = False"

fun is_TypeError :: "exn \<Rightarrow> bool" where
  "is_TypeError (TypeError _) = True"
| "is_TypeError _ = False"

fun is_RuntimeError :: "exn \<Rightarrow> bool" where
  "is_RuntimeError (RuntimeError _) = True"
| "is_RuntimeError (RecursionError _) = True"
| "is_RuntimeError _ = False"

lemma is_os_OSError: "is_os c e \<Longrightarrow> is_OSError e"
  by (cases e) auto

lemma not_OSError_not_os: "\<not> is_OSError e \<Longrightarrow> \<not> is_os c e"
  by (cases e) auto

text \<open>
  What depends on the interpreter and cannot be read in the repository: how a float is
  written, how deeply a JSON document may nest before the C decoder raises
  \<open>RecursionError\<close>, the address and normalisation checks \<open>urlsplit\<close> makes on a host, what the
  \<open>email\<close> package raises when it interprets a header block beyond its fields, and the version
  and date texts of a response header.
\<close>

record interp =
  float_repr :: "ustr \<Rightarrow> ftext"
  json_depth :: nat
  bracketed_host_ok :: "ustr \<Rightarrow> bool"
  netloc_nfkc_ok :: "ustr \<Rightarrow> bool"
  email_fault :: "ustr \<Rightarrow> exn option"
  sys_version :: ustr
  http_date :: ustr
  log_date :: ustr

section \<open>Effectful code\<close>

text \<open>
  A piece of code that reads and writes a state and may raise is a function from the
  state to a result and the new state. \<open>bind_p\<close> is sequencing, \<open>catch_p\<close> is
  \<open>try/except\<close>: as in Python, the handler runs in the state the body left behind.
\<close>

type_synonym ('s, 'a) prog = "'s \<Rightarrow> (exn + 'a) \<times> 's"

definition return_p :: "'a \<Rightarrow> ('s, 'a) prog" where
  [prog_simps]: "return_p x = (\<lambda>s. (Inr x, s))"

definition raise_p :: "exn \<Rightarrow> ('s, 'a) prog" where
  [prog_simps]: "raise_p e = (\<lambda>s. (Inl e, s))"

definition lift_p :: "exn + 'a \<Rightarrow> ('s, 'a) prog" where
  [prog_simps]: "lift_p r = (\<lambda>s. (r, s))"

definition modify_p :: "('s \<Rightarrow> 's) \<Rightarrow> ('s, unit) prog" where
  [prog_simps]: "modify_p f = (\<lambda>s. (Inr (), f s))"

definition bind_p :: "('s, 'a) prog \<Rightarrow> ('a \<Rightarrow> ('s, 'b) prog) \<Rightarrow> ('s, 'b) prog" where
  "bind_p m f = (\<lambda>s. case m s of (Inl e, s') \<Rightarrow> (Inl e, s') | (Inr x, s') \<Rightarrow> f x s')"

definition catch_p :: "('s, 'a) prog \<Rightarrow> (exn \<Rightarrow> ('s, 'a) prog) \<Rightarrow> ('s, 'a) prog" where
  "catch_p m h = (\<lambda>s. case m s of (Inl e, s') \<Rightarrow> h e s' | (Inr x, s') \<Rightarrow> (Inr x, s'))"

definition seq_p :: "('s, unit) prog \<Rightarrow> ('s, 'b) prog \<Rightarrow> ('s, 'b) prog" where
  "seq_p m n = bind_p m (\<lambda>_. n)"

lemma bind_p_Inr: "m s = (Inr x, s') \<Longrightarrow> bind_p m f s = f x s'"
  by (simp add: bind_p_def)

lemma bind_p_Inl: "m s = (Inl e, s') \<Longrightarrow> bind_p m f s = (Inl e, s')"
  by (simp add: bind_p_def)

lemma seq_p_Inr: "m s = (Inr x, s') \<Longrightarrow> seq_p m n s = n s'"
  by (simp add: seq_p_def bind_p_def)

lemma seq_p_Inl: "m s = (Inl e, s') \<Longrightarrow> seq_p m n s = (Inl e, s')"
  by (simp add: seq_p_def bind_p_def)

lemma catch_p_Inr: "m s = (Inr x, s') \<Longrightarrow> catch_p m h s = (Inr x, s')"
  by (simp add: catch_p_def)

lemma catch_p_Inl: "m s = (Inl e, s') \<Longrightarrow> catch_p m h s = h e s'"
  by (simp add: catch_p_def)

lemma bind_p_return [simp]: "bind_p (return_p x) f = f x"
  by (rule ext) (simp add: bind_p_def return_p_def)

lemma bind_p_raise [simp]: "bind_p (raise_p e) f = raise_p e"
  by (rule ext) (simp add: bind_p_def raise_p_def)

lemma bind_p_assoc: "bind_p (bind_p m f) g = bind_p m (\<lambda>x. bind_p (f x) g)"
  by (rule ext) (auto simp: bind_p_def split: prod.splits sum.splits)

lemma catch_p_return [simp]: "catch_p (return_p x) h = return_p x"
  by (rule ext) (simp add: catch_p_def return_p_def)

lemma catch_p_raise [simp]: "catch_p (raise_p e) h = h e"
  by (rule ext) (simp add: catch_p_def raise_p_def)

lemmas step_p = bind_p_Inr bind_p_Inl seq_p_Inr seq_p_Inl catch_p_Inr catch_p_Inl

text \<open>
  \<open>keeps P m\<close>: whatever \<open>m\<close> does, a state property \<open>P\<close> that held before holds
  after, whether it returned or raised.
\<close>

definition keeps :: "('s \<Rightarrow> bool) \<Rightarrow> ('s, 'a) prog \<Rightarrow> bool" where
  "keeps P m \<longleftrightarrow> (\<forall>s. P s \<longrightarrow> P (snd (m s)))"

lemma keepsD: "keeps P m \<Longrightarrow> P s \<Longrightarrow> m s = (r, s') \<Longrightarrow> P s'"
  unfolding keeps_def by (metis snd_conv)

lemma keeps_return [simp, intro]: "keeps P (return_p x)"
  and keeps_raise [simp, intro]: "keeps P (raise_p e)"
  and keeps_lift [simp, intro]: "keeps P (lift_p r)"
  by (simp_all add: keeps_def prog_simps)

lemma keeps_bind [intro]: "keeps P m \<Longrightarrow> (\<And>x. keeps P (f x)) \<Longrightarrow> keeps P (bind_p m f)"
  unfolding keeps_def bind_p_def by (fastforce split: prod.splits sum.splits dest: spec)

lemma keeps_seq [intro]: "keeps P m \<Longrightarrow> keeps P n \<Longrightarrow> keeps P (seq_p m n)"
  unfolding seq_p_def by (rule keeps_bind)

lemma keeps_if: "keeps P m \<Longrightarrow> keeps P n \<Longrightarrow> keeps P (if b then m else n)"
  by simp

lemma keeps_catch [intro]: "keeps P m \<Longrightarrow> (\<And>e. keeps P (h e)) \<Longrightarrow> keeps P (catch_p m h)"
  unfolding keeps_def catch_p_def by (fastforce split: prod.splits sum.splits dest: spec)

section \<open>Dictionaries\<close>

text \<open>
  A Python \<open>dict\<close> keeps insertion order: an association list with distinct keys.
  Assignment overwrites in place or appends, which is \<^const>\<open>AList.update\<close>;
  \<open>d.pop(k, None)\<close> is \<^const>\<open>AList.delete\<close>; \<open>d.get(k)\<close> is \<^const>\<open>map_of\<close>.
\<close>

abbreviation keys :: "('k \<times> 'v) list \<Rightarrow> 'k list" where
  "keys d \<equiv> map fst d"

definition setdefault :: "'k \<Rightarrow> 'v \<Rightarrow> ('k \<times> 'v) list \<Rightarrow> ('k \<times> 'v) list" where
  "setdefault k v d = (if map_of d k = None then d @ [(k, v)] else d)"

lemma map_of_setdefault:
  "map_of (setdefault k v d) j =
     (if j = k \<and> map_of d k = None then Some v else map_of d j)"
  by (auto simp: setdefault_def map_add_def split: option.splits)

lemma distinct_setdefault: "distinct (keys d) \<Longrightarrow> distinct (keys (setdefault k v d))"
  by (auto simp: setdefault_def map_of_eq_None_iff)

lemma map_of_filter_keys:
  "distinct (keys d) \<Longrightarrow>
   map_of (filter P d) k = (case map_of d k of None \<Rightarrow> None | Some v \<Rightarrow> if P (k, v) then Some v else None)"
  by (induction d) (auto split: option.splits dest: map_of_SomeD simp: map_of_eq_None_iff image_iff)

section \<open>Interfaces\<close>

text \<open>A decoder that gives back every admissible value its encoder wrote.\<close>

locale codec =
  fixes enc :: "'a \<Rightarrow> 'b" and dec :: "'b \<Rightarrow> 'e + 'a" and ok :: "'a \<Rightarrow> bool"
  assumes dec_enc: "ok x \<Longrightarrow> dec (enc x) = Inr x"
begin

lemma enc_inj: "ok x \<Longrightarrow> ok y \<Longrightarrow> enc x = enc y \<Longrightarrow> x = y"
  using dec_enc by (metis sum.inject(2))

lemma enc_inj_on: "inj_on enc {x. ok x}"
  by (auto intro!: inj_onI dest: enc_inj)

end

text \<open>A deterministic machine whose admissible steps keep an invariant.\<close>

fun run_with :: "('s \<Rightarrow> 'e \<Rightarrow> 's) \<Rightarrow> 's \<Rightarrow> 'e list \<Rightarrow> 's" where
  "run_with step s [] = s"
| "run_with step s (e # es) = run_with step (step s e) es"

lemma run_with_append: "run_with step s (xs @ ys) = run_with step (run_with step s xs) ys"
  by (induction xs arbitrary: s) auto

fun admissible :: "('s \<Rightarrow> 'e \<Rightarrow> 's) \<Rightarrow> ('s \<Rightarrow> 'e \<Rightarrow> bool) \<Rightarrow> 's \<Rightarrow> 'e list \<Rightarrow> bool" where
  "admissible step ok s [] = True"
| "admissible step ok s (e # es) = (ok s e \<and> admissible step ok (step s e) es)"

locale machine =
  fixes step :: "'s \<Rightarrow> 'e \<Rightarrow> 's" and ok :: "'s \<Rightarrow> 'e \<Rightarrow> bool" and inv :: "'s \<Rightarrow> bool"
  assumes step_inv: "inv s \<Longrightarrow> ok s e \<Longrightarrow> inv (step s e)"
begin

lemma run_inv: "inv s \<Longrightarrow> admissible step ok s es \<Longrightarrow> inv (run_with step s es)"
  by (induction es arbitrary: s) (auto intro: step_inv)

lemma prefix_inv:
  assumes "inv s" and "admissible step ok s (xs @ ys)"
  shows "inv (run_with step s xs)"
proof -
  have "admissible step ok s xs"
    using assms(2) by (induction xs arbitrary: s) auto
  with assms(1) show ?thesis by (rule run_inv)
qed

end

end
