(* ===== verification/PyText.thy ===== *)
theory PyText
  imports Prelude
begin

text \<open>
  The operations of Python's \<open>str\<close> and \<open>int\<close> the sources use: \<open>strip\<close>,
  \<open>startswith\<close>, \<open>in\<close>, \<open>split\<close>, \<open>partition\<close>, \<open>str(n)\<close>, \<open>int(s)\<close> and
  \<open>fmt % ()\<close>. They are the language's, not the repository's, and are modelled as the
  interpreter behaves; their laws (how a split recombines, that \<open>int\<close> inverts \<open>str\<close>)
  are what the components rely on.
\<close>

section \<open>Stripping, searching, splitting\<close>

text \<open>\<open>str.isspace\<close>: the interpreter's table of white space.\<close>

definition is_space :: "int \<Rightarrow> bool" where
  "is_space c \<longleftrightarrow> (9 \<le> c \<and> c \<le> 13) \<or> (28 \<le> c \<and> c \<le> 32) \<or> c = 133 \<or> c = 160 \<or> c = 5760
     \<or> (8192 \<le> c \<and> c \<le> 8202) \<or> c = 8232 \<or> c = 8233 \<or> c = 8239 \<or> c = 8287 \<or> c = 12288"

definition rstrip_by :: "(int \<Rightarrow> bool) \<Rightarrow> ustr \<Rightarrow> ustr" where
  "rstrip_by p s = rev (dropWhile p (rev s))"

definition py_strip :: "ustr \<Rightarrow> ustr" where
  "py_strip s = rstrip_by is_space (dropWhile is_space s)"

lemma rstrip_by_last: "rstrip_by p s \<noteq> [] \<Longrightarrow> \<not> p (last (rstrip_by p s))"
  unfolding rstrip_by_def by (metis hd_dropWhile last_rev rev_is_Nil_conv)

lemma set_rstrip_by: "set (rstrip_by p s) \<subseteq> set s"
  unfolding rstrip_by_def using set_dropWhileD by fastforce

lemma py_strip_last: "py_strip s \<noteq> [] \<Longrightarrow> \<not> is_space (last (py_strip s))"
  unfolding py_strip_def by (rule rstrip_by_last)

lemma rstrip_by_id: "s = [] \<or> \<not> p (last s) \<Longrightarrow> rstrip_by p s = s"
  unfolding rstrip_by_def by (cases s rule: rev_cases) auto

lemma py_strip_id:
  assumes "s = [] \<or> (\<not> is_space (hd s) \<and> \<not> is_space (last s))"
  shows "py_strip s = s"
proof (cases s)
  case (Cons c t)
  with assms have "dropWhile is_space s = s" and "\<not> is_space (last s)" by auto
  then show ?thesis by (simp add: py_strip_def rstrip_by_id)
qed (simp add: py_strip_def rstrip_by_def)

definition py_startswith :: "ustr \<Rightarrow> ustr \<Rightarrow> bool" where
  "py_startswith p s \<longleftrightarrow> take (length p) s = p"

lemma py_startswith_iff: "py_startswith p s \<longleftrightarrow> (\<exists>r. s = p @ r)"
  by (auto simp: py_startswith_def) (metis append_take_drop_id)

lemma py_startswith_append [simp]: "py_startswith p (p @ s)"
  by (simp add: py_startswith_def)

text \<open>\<open>p in s\<close>, the substring test.\<close>

fun py_in :: "ustr \<Rightarrow> ustr \<Rightarrow> bool" where
  "py_in p [] \<longleftrightarrow> p = []"
| "py_in p (c # s) \<longleftrightarrow> py_startswith p (c # s) \<or> py_in p s"

lemma py_in_Nil: "py_in [] s"
  by (cases s) (auto simp: py_startswith_def)

lemma py_in_iff: "py_in p s \<longleftrightarrow> (\<exists>a b. s = a @ p @ b)"
proof (induction s)
  case (Cons c s)
  have "(\<exists>a b. c # s = a @ p @ b) \<longleftrightarrow> (\<exists>b. c # s = p @ b) \<or> (\<exists>a b. s = a @ p @ b)"
    by (metis append_Cons append_Nil list.sel(3) tl_append2)
  with Cons.IH show ?case by (simp add: py_startswith_iff)
qed simp

text \<open>
  \<open>s.partition(c)\<close> at a one-character separator: what precedes it, and what follows it if
  it occurs. \<open>s.split(c, 1)[0]\<close> is the first component.
\<close>

definition before :: "int \<Rightarrow> ustr \<Rightarrow> ustr" where
  "before c s = takeWhile (\<lambda>x. x \<noteq> c) s"

definition after :: "int \<Rightarrow> ustr \<Rightarrow> ustr option" where
  "after c s = (case dropWhile (\<lambda>x. x \<noteq> c) s of [] \<Rightarrow> None | _ # r \<Rightarrow> Some r)"

lemma before_notin: "c \<notin> set (before c s)"
  unfolding before_def using set_takeWhileD by fastforce

lemma before_after: "s = before c s @ (case after c s of None \<Rightarrow> [] | Some r \<Rightarrow> c # r)"
  unfolding before_def after_def by (induction s) (auto split: list.splits)

lemma before_append: "c \<notin> set a \<Longrightarrow> before c (a @ c # b) = a"
  unfolding before_def by (induction a) auto

lemma before_id: "c \<notin> set a \<Longrightarrow> before c a = a"
  unfolding before_def by (induction a) auto

lemma after_append: "c \<notin> set a \<Longrightarrow> after c (a @ c # b) = Some b"
  unfolding after_def by (induction a) auto

lemma after_None: "after c s = None \<longleftrightarrow> c \<notin> set s"
  unfolding after_def by (induction s) (auto split: list.splits)

text \<open>\<open>s.split(c)\<close>: all the segments, the empty ones included.\<close>

fun split_on :: "int \<Rightarrow> ustr \<Rightarrow> ustr list" where
  "split_on c [] = [[]]"
| "split_on c (x # xs) =
     (if x = c then [] # split_on c xs
      else case split_on c xs of [] \<Rightarrow> [[x]] | w # ws \<Rightarrow> (x # w) # ws)"

lemma split_on_not_Nil [simp]: "split_on c s \<noteq> []"
  by (induction s) (auto split: list.splits)

lemma split_on_notin: "w \<in> set (split_on c s) \<Longrightarrow> c \<notin> set w"
  by (induction s arbitrary: w) (auto split: list.splits if_splits)

lemma split_on_single: "c \<notin> set s \<Longrightarrow> split_on c s = [s]"
  by (induction s) auto

lemma split_on_append:
  "c \<notin> set a \<Longrightarrow> split_on c (a @ c # b) = a # split_on c b"
  by (induction a) auto

section \<open>Decimal numerals\<close>

fun dec_digits :: "nat \<Rightarrow> ustr" where
  "dec_digits n = (if n < 10 then [48 + int n] else dec_digits (n div 10) @ [48 + int (n mod 10)])"

declare dec_digits.simps [simp del]

definition str_int :: "int \<Rightarrow> ustr" where
  "str_int i = (if i < 0 then 45 # dec_digits (nat (- i)) else dec_digits (nat i))"

definition is_digit :: "int \<Rightarrow> bool" where
  "is_digit c \<longleftrightarrow> 48 \<le> c \<and> c \<le> 57"

definition digits_value :: "ustr \<Rightarrow> int" where
  "digits_value s = foldl (\<lambda>a d. 10 * a + (d - 48)) 0 s"

lemma dec_digits_not_Nil [simp]: "dec_digits n \<noteq> []"
  by (subst dec_digits.simps) simp

lemma dec_digits_digits: "c \<in> set (dec_digits n) \<Longrightarrow> is_digit c"
proof (induction n rule: dec_digits.induct)
  case (1 n)
  then show ?case
    by (subst (asm) (2) dec_digits.simps) (auto simp: is_digit_def split: if_splits)
qed

lemma digits_value_dec [simp]: "digits_value (dec_digits n) = int n"
proof (induction n rule: dec_digits.induct)
  case (1 n)
  show ?case
  proof (cases "n < 10")
    case True
    then show ?thesis by (subst dec_digits.simps) (simp add: digits_value_def)
  next
    case False
    with 1 have "digits_value (dec_digits (n div 10)) = int (n div 10)" by simp
    then have "digits_value (dec_digits n) = 10 * int (n div 10) + int (n mod 10)"
      using False by (subst dec_digits.simps) (simp add: digits_value_def)
    then show ?thesis by presburger
  qed
qed

lemma ascii_digits: "\<forall>c \<in> set s. is_digit c \<Longrightarrow> ascii s"
  by (auto simp: ascii_iff is_digit_def)

lemma ascii_dec_digits [simp]: "ascii (dec_digits n)"
  by (rule ascii_digits) (simp add: dec_digits_digits)

lemma ascii_str_int [simp]: "ascii (str_int i)"
  by (simp add: str_int_def)

text \<open>The number of digits, which the interpreter bounds.\<close>

lemma length_dec_digits: "n < 10 ^ k \<Longrightarrow> 0 < k \<Longrightarrow> length (dec_digits n) \<le> k"
proof (induction k arbitrary: n)
  case (Suc k)
  show ?case
  proof (cases "n < 10")
    case True
    then show ?thesis by (subst dec_digits.simps) simp
  next
    case False
    with Suc.prems have lt: "n div 10 < 10 ^ k" by (simp add: less_mult_imp_div_less mult.commute)
    moreover from False lt have "0 < k" by (cases k) auto
    ultimately have "length (dec_digits (n div 10)) \<le> k" by (rule Suc.IH)
    with False show ?thesis by (subst dec_digits.simps) simp
  qed
qed simp

section \<open>\<open>int(s)\<close>\<close>

text \<open>
  \<open>int(s)\<close> strips white space, takes one sign, and accepts single underscores between
  digits. Text of more than \<open>int_max_str_digits\<close> digits is refused (the interpreter's
  default limit). Digits are the ASCII ones, which are all there are in the ISO-8859-1 of a header
  value; \<open>text_int\<close> of the theory \<open>Argparse\<close> reads the others as well.
\<close>

definition int_max_str_digits :: nat where
  "int_max_str_digits = 4300"

fun udigits_ok :: "ustr \<Rightarrow> bool" where
  "udigits_ok [] = False"
| "udigits_ok [c] = is_digit c"
| "udigits_ok (c # d # r) =
     (is_digit c \<and> (if d = 95 then udigits_ok r else udigits_ok (d # r)))"

definition split_sign :: "ustr \<Rightarrow> bool \<times> ustr" where
  "split_sign s = (case s of [] \<Rightarrow> (False, [])
     | c # r \<Rightarrow> if c = 45 then (True, r) else if c = 43 then (False, r) else (False, s))"

definition py_int :: "ustr \<Rightarrow> exn + int" where
  "py_int s =
     (let (neg, body) = split_sign (py_strip s);
          ds = filter is_digit body
      in if \<not> udigits_ok body then Inl (ValueError (us ''invalid literal for int() with base 10''))
         else if length ds > int_max_str_digits
           then Inl (ValueError (us ''Exceeds the limit for integer string conversion''))
         else Inr (if neg then - digits_value ds else digits_value ds))"

lemma is_digit_not_space: "is_digit c \<Longrightarrow> \<not> is_space c"
  by (auto simp: is_digit_def is_space_def)

lemma not_is_digit [simp]: "\<not> is_digit 95" "\<not> is_digit 45" "\<not> is_digit 43" "\<not> is_digit 32"
  by (simp_all add: is_digit_def)

lemma udigits_ok_digits: "s \<noteq> [] \<Longrightarrow> \<forall>c \<in> set s. is_digit c \<Longrightarrow> udigits_ok s"
  by (induction s rule: udigits_ok.induct) auto

lemma py_int_error: "py_int s = Inl e \<Longrightarrow> is_ValueError e"
  by (auto simp: py_int_def Let_def split: prod.splits if_splits)

lemma py_int_digits:
  assumes "s \<noteq> []" and "\<forall>c \<in> set s. is_digit c" and "length s \<le> int_max_str_digits"
  shows "py_int s = Inr (digits_value s)"
proof -
  have "py_strip s = s"
    using assms(1,2) by (intro py_strip_id) (simp add: is_digit_not_space)
  moreover have "split_sign s = (False, s)"
    using assms(1,2) by (cases s) (auto simp: split_sign_def)
  moreover have "filter is_digit s = s"
    using assms(2) by (simp add: filter_id_conv)
  ultimately show ?thesis
    using assms(3) udigits_ok_digits [OF assms(1,2)] by (simp add: py_int_def)
qed

lemma py_int_dec_digits:
  assumes "n < 10 ^ int_max_str_digits"
  shows "py_int (dec_digits n) = Inr (int n)"
proof -
  have "length (dec_digits n) \<le> int_max_str_digits"
    using assms by (rule length_dec_digits) (simp add: int_max_str_digits_def)
  then have "py_int (dec_digits n) = Inr (digits_value (dec_digits n))"
    by (intro py_int_digits) (auto simp: dec_digits_digits)
  then show ?thesis by simp
qed

lemma py_int_str_int:
  assumes "\<bar>i\<bar> < 10 ^ int_max_str_digits"
  shows "py_int (str_int i) = Inr i"
proof -
  let ?ds = "dec_digits (nat \<bar>i\<bar>)"
  have "int (nat \<bar>i\<bar>) < 10 ^ int_max_str_digits" using assms by simp
  then have n: "nat \<bar>i\<bar> < 10 ^ int_max_str_digits"
    by (simp only: of_nat_less_numeral_power_cancel_iff)
  show ?thesis
  proof (cases "i < 0")
    case False
    with py_int_dec_digits [OF n] show ?thesis by (simp add: str_int_def)
  next
    case True
    have "0 < int_max_str_digits" by (simp add: int_max_str_digits_def)
    with n have len: "length ?ds \<le> int_max_str_digits" by (rule length_dec_digits)
    have "last ?ds \<in> set ?ds" by simp
    then have "\<not> is_space (last ?ds)"
      by (rule is_digit_not_space [OF dec_digits_digits])
    then have "py_strip (45 # ?ds) = 45 # ?ds"
      by (intro py_strip_id) (simp add: is_space_def)
    moreover have "filter is_digit ?ds = ?ds"
      by (simp add: filter_id_conv dec_digits_digits)
    moreover have "udigits_ok ?ds"
      by (rule udigits_ok_digits) (auto simp: dec_digits_digits)
    ultimately show ?thesis
      using len True by (simp add: py_int_def str_int_def split_sign_def)
  qed
qed

interpretation int_text: codec str_int py_int "\<lambda>i. \<bar>i\<bar> < 10 ^ int_max_str_digits"
  by unfold_locales (rule py_int_str_int)

section \<open>\<open>fmt % ()\<close>\<close>

text \<open>
  Formatting with no arguments, which is what \<open>log_message(msg)\<close> does to a message that
  was meant literally: \<open>%%\<close> is a per cent sign, any other directive wants an argument
  and raises \<open>TypeError\<close>, and a directive cut off by the end of the text raises
  \<open>ValueError\<close>. \<open>fmt_error\<close> is what a directive other than \<open>%%\<close> raises, given
  the text after its per cent sign.
\<close>

definition fmt_flag :: "int \<Rightarrow> bool" where
  "fmt_flag c \<longleftrightarrow> c \<in> {45, 43, 32, 35, 48}"

definition fmt_precision :: "ustr \<Rightarrow> ustr" where
  "fmt_precision s = (case s of [] \<Rightarrow> [] | c # r \<Rightarrow> if c = 46 then dropWhile is_digit r else s)"

definition fmt_length :: "ustr \<Rightarrow> ustr" where
  "fmt_length s = (case s of [] \<Rightarrow> [] | c # r \<Rightarrow> if c \<in> {104, 108, 76} then r else s)"

definition fmt_error :: "ustr \<Rightarrow> exn" where
  "fmt_error s =
     (if py_startswith (us ''('') s then TypeError (us ''format requires a mapping'')
      else if fmt_length (fmt_precision (dropWhile is_digit (dropWhile fmt_flag s))) = []
        then ValueError (us ''incomplete format'')
      else TypeError (us ''not enough arguments for format string''))"

fun fmt_noargs :: "ustr \<Rightarrow> exn + ustr" where
  "fmt_noargs [] = Inr []"
| "fmt_noargs (c # s) =
     (if c = 37 then
        (case s of
           d # r \<Rightarrow>
             if d = 37 then (case fmt_noargs r of Inl e \<Rightarrow> Inl e | Inr t \<Rightarrow> Inr (37 # t))
             else Inl (fmt_error s)
         | [] \<Rightarrow> Inl (fmt_error s))
      else (case fmt_noargs s of Inl e \<Rightarrow> Inl e | Inr t \<Rightarrow> Inr (c # t)))"

lemma fmt_noargs_id: "37 \<notin> set s \<Longrightarrow> fmt_noargs s = Inr s"
  by (induction s) auto

lemma fmt_noargs_directive:
  "37 \<notin> set a \<Longrightarrow> \<not> py_startswith [37] b \<Longrightarrow> fmt_noargs (a @ 37 # b) = Inl (fmt_error b)"
  by (induction a) (auto simp: py_startswith_def split: list.splits)

end
