(* ===== verification/Utf8.thy ===== *)
theory Utf8
  imports PyText
begin

text \<open>
  The text encodings the sources go through: UTF-8 (strict encoding; decoding with
  \<open>errors='replace'\<close> for percent-encoded job ids and for \<open>systemctl\<close>'s output, and with
  \<open>errors='surrogatepass'\<close> for request bodies) and ISO-8859-1 (strict encoding, for the
  header lines a response is made of). Bytes are handled as their values 0 to 255 here;
  \<^const>\<open>to_bytes\<close> and \<^const>\<open>us\<close> convert.
\<close>

section \<open>Encoding\<close>

definition is_surrogate :: "int \<Rightarrow> bool" where
  "is_surrogate c \<longleftrightarrow> 0xD800 \<le> c \<and> c \<le> 0xDFFF"

definition is_scalar :: "int \<Rightarrow> bool" where
  "is_scalar c \<longleftrightarrow> 0 \<le> c \<and> c < 0x110000 \<and> \<not> is_surrogate c"

definition utf8_char :: "int \<Rightarrow> int list" where
  "utf8_char c =
     (if c < 0x80 then [c]
      else if c < 0x800 then [0xC0 + c div 64, 0x80 + c mod 64]
      else if c < 0x10000 then [0xE0 + c div 4096, 0x80 + (c div 64) mod 64, 0x80 + c mod 64]
      else [0xF0 + c div 262144, 0x80 + (c div 4096) mod 64, 0x80 + (c div 64) mod 64, 0x80 + c mod 64])"

definition utf8_encode :: "ustr \<Rightarrow> exn + int list" where
  "utf8_encode s =
     (if list_ex is_surrogate s
        then Inl (ValueError (us ''codec can't encode: surrogates not allowed''))
      else Inr (concat (map utf8_char s)))"

definition latin1_encode :: "ustr \<Rightarrow> exn + bytes" where
  "latin1_encode s =
     (if list_all (\<lambda>c. c < 256) s then Inr (to_bytes s)
      else Inl (ValueError (us ''codec can't encode: ordinal not in range(256)'')))"

lemma latin1_encode_ascii [simp]: "ascii s \<Longrightarrow> latin1_encode s = Inr (to_bytes s)"
  by (auto simp: latin1_encode_def ascii_def list_all_iff)

lemma latin1_encode_us [simp]: "latin1_encode (us s) = Inr s"
  using set_us by (fastforce simp: latin1_encode_def list_all_iff)

lemma utf8_char_ascii: "0 \<le> c \<Longrightarrow> c < 128 \<Longrightarrow> utf8_char c = [c]"
  by (simp add: utf8_char_def)

lemma utf8_encode_ascii [simp]: "ascii s \<Longrightarrow> utf8_encode s = Inr s"
proof -
  assume a: "ascii s"
  then have "concat (map utf8_char s) = s"
    by (induction s) (auto simp: utf8_char_ascii)
  with a show ?thesis
    by (auto simp: utf8_encode_def list_ex_iff ascii_iff is_surrogate_def)
qed

section \<open>Decoding\<close>

text \<open>
  One step of the decoder at a non-empty input: the code point found there, or
  \<open>None\<close> for an ill-formed sequence, and how many bytes it takes up. An ill-formed
  sequence takes up its maximal well-formed prefix, as in the interpreter, so that the
  byte which breaks it is looked at again.
\<close>

definition cont :: "int \<Rightarrow> bool" where
  "cont b \<longleftrightarrow> 0x80 \<le> b \<and> b \<le> 0xBF"

definition second_ok :: "int \<Rightarrow> int \<Rightarrow> bool" where
  "second_ok a b \<longleftrightarrow> cont b
     \<and> (a = 0xE0 \<longrightarrow> 0xA0 \<le> b) \<and> (a = 0xED \<longrightarrow> b \<le> 0x9F)
     \<and> (a = 0xF0 \<longrightarrow> 0x90 \<le> b) \<and> (a = 0xF4 \<longrightarrow> b \<le> 0x8F)"

fun utf8_next :: "int list \<Rightarrow> int option \<times> nat" where
  "utf8_next [] = (None, 1)"
| "utf8_next (a # r) =
     (if a < 0x80 then (Some a, 1)
      else if 0xC2 \<le> a \<and> a \<le> 0xDF then
        (case r of
           b # _ \<Rightarrow> if cont b then (Some ((a - 0xC0) * 64 + (b - 0x80)), 2) else (None, 1)
         | [] \<Rightarrow> (None, 1))
      else if 0xE0 \<le> a \<and> a \<le> 0xEF then
        (case r of
           b # r2 \<Rightarrow>
             if \<not> second_ok a b then (None, 1)
             else (case r2 of
                     c # _ \<Rightarrow>
                       if cont c then (Some ((a - 0xE0) * 4096 + (b - 0x80) * 64 + (c - 0x80)), 3)
                       else (None, 2)
                   | [] \<Rightarrow> (None, 2))
         | [] \<Rightarrow> (None, 1))
      else if 0xF0 \<le> a \<and> a \<le> 0xF4 then
        (case r of
           b # r2 \<Rightarrow>
             if \<not> second_ok a b then (None, 1)
             else (case r2 of
                     c # r3 \<Rightarrow>
                       if \<not> cont c then (None, 2)
                       else (case r3 of
                               d # _ \<Rightarrow>
                                 if cont d then
                                   (Some ((a - 0xF0) * 262144 + (b - 0x80) * 4096
                                          + (c - 0x80) * 64 + (d - 0x80)), 4)
                                 else (None, 3)
                             | [] \<Rightarrow> (None, 3))
                   | [] \<Rightarrow> (None, 2))
         | [] \<Rightarrow> (None, 1))
      else (None, 1))"

lemma utf8_next_pos: "0 < snd (utf8_next s)"
  by (cases s) (auto split: list.splits)

declare utf8_next.simps(2) [simp del]

lemma utf8_next_shorter:
  "(x, n) = utf8_next s \<Longrightarrow> s \<noteq> [] \<Longrightarrow> length (drop n s) < length s"
  using utf8_next_pos [of s] by (cases s) (auto dest: arg_cong [of _ _ snd])

function utf8_decode_replace :: "int list \<Rightarrow> ustr" where
  "utf8_decode_replace s =
     (if s = [] then []
      else (case utf8_next s of
              (Some c, n) \<Rightarrow> c # utf8_decode_replace (drop n s)
            | (None, n) \<Rightarrow> 0xFFFD # utf8_decode_replace (drop n s)))"
  by pat_completeness auto
termination
  by (relation "measure length") (auto dest: utf8_next_shorter)

text \<open>
  Strict decoding, where an ill-formed sequence raises \<open>UnicodeDecodeError\<close>; the handler
  \<open>surrogatepass\<close> rescues an encoded surrogate.
\<close>

definition surrogate_here :: "int list \<Rightarrow> bool" where
  "surrogate_here s = (case s of a # b # c # _ \<Rightarrow> a = 0xED \<and> 0xA0 \<le> b \<and> b \<le> 0xBF \<and> cont c | _ \<Rightarrow> False)"

function utf8_decode_pass :: "int list \<Rightarrow> exn + ustr" where
  "utf8_decode_pass s =
     (if s = [] then Inr []
      else (case utf8_next s of
              (Some c, n) \<Rightarrow> map_sum id (Cons c) (utf8_decode_pass (drop n s))
            | (None, _) \<Rightarrow>
                if surrogate_here s
                  then map_sum id
                    (Cons ((s ! 0 - 0xE0) * 4096 + (s ! 1 - 0x80) * 64 + (s ! 2 - 0x80)))
                    (utf8_decode_pass (drop 3 s))
                else Inl (ValueError (us ''codec can't decode byte''))))"
  by pat_completeness auto
termination
  by (relation "measure length") (auto dest: utf8_next_shorter)

declare utf8_decode_replace.simps [simp del] utf8_decode_pass.simps [simp del]

lemma utf8_decode_replace_Nil [simp]: "utf8_decode_replace [] = []"
  by (simp add: utf8_decode_replace.simps)

lemma utf8_decode_pass_Nil [simp]: "utf8_decode_pass [] = Inr []"
  by (simp add: utf8_decode_pass.simps)

lemma utf8_decode_replace_step:
  "utf8_next s = (Some c, n) \<Longrightarrow> s \<noteq> [] \<Longrightarrow> utf8_decode_replace s = c # utf8_decode_replace (drop n s)"
  by (subst utf8_decode_replace.simps) simp

lemma utf8_decode_pass_step:
  "utf8_next s = (Some c, n) \<Longrightarrow> s \<noteq> [] \<Longrightarrow>
   utf8_decode_pass s = map_sum id (Cons c) (utf8_decode_pass (drop n s))"
  by (subst utf8_decode_pass.simps) simp

section \<open>Decoding inverts encoding\<close>

lemma utf8_char_not_Nil [simp]: "utf8_char c \<noteq> []"
  by (simp add: utf8_char_def)

lemma utf8_next_char:
  assumes "is_scalar c"
  shows "utf8_next (utf8_char c @ r) = (Some c, length (utf8_char c))"
proof -
  have c: "0 \<le> c" "c < 0x110000" "\<not> (0xD800 \<le> c \<and> c \<le> 0xDFFF)"
    using assms by (auto simp: is_scalar_def is_surrogate_def)
  define w x y z where "w = c div 262144" and "x = (c div 4096) mod 64"
    and "y = (c div 64) mod 64" and "z = c mod 64"
  have b: "0 \<le> x" "x < 64" "0 \<le> y" "y < 64" "0 \<le> z" "z < 64"
    by (auto simp: x_def y_def z_def)
  have z: "c = 64 * (c div 64) + z" by (simp add: z_def)
  have y: "c div 64 = 64 * (c div 4096) + y"
    using mult_div_mod_eq [of 64 "c div 64"] by (simp add: y_def flip: zdiv_zmult2_eq)
  have x: "c div 4096 = 64 * w + x"
    using mult_div_mod_eq [of 64 "c div 4096"] by (simp add: x_def w_def flip: zdiv_zmult2_eq)
  have ch: "utf8_char c = (if c < 0x80 then [c] else if c < 0x800 then [0xC0 + c div 64, 0x80 + z]
      else if c < 0x10000 then [0xE0 + c div 4096, 0x80 + y, 0x80 + z]
      else [0xF0 + w, 0x80 + x, 0x80 + y, 0x80 + z])"
    by (simp add: utf8_char_def w_def x_def y_def z_def)
  consider "c < 0x80" | "0x80 \<le> c" "c < 0x800" | "0x800 \<le> c" "c < 0x10000" | "0x10000 \<le> c"
    by linarith
  then show ?thesis
  proof cases
    case 1
    then show ?thesis by (simp add: ch utf8_next.simps(2))
  next
    case 2
    define q where "q = c div 64"
    have "c = 64 * q + z" using z by (simp add: q_def)
    with 2 b have "2 \<le> q" "q < 32" by linarith+
    with 2 b \<open>c = 64 * q + z\<close> show ?thesis
      unfolding ch by (simp add: utf8_next.simps(2) cont_def flip: q_def)
  next
    case 3
    define q where "q = c div 4096"
    have q: "c = 4096 * q + 64 * y + z" using z y by (simp add: q_def)
    with 3 b have "0 \<le> q" "q < 16" by linarith+
    moreover have "q = 0 \<longrightarrow> 32 \<le> y" using q 3 b by linarith
    moreover have "q = 13 \<longrightarrow> y \<le> 31" using q 3 b c(3) by linarith
    ultimately have "utf8_next ([0xE0 + q, 0x80 + y, 0x80 + z] @ r) = (Some c, 3)"
      using b q by (simp add: utf8_next.simps(2) cont_def second_ok_def)
    with 3 show ?thesis unfolding ch q_def by simp
  next
    case 4
    have q: "c = 262144 * w + 4096 * x + 64 * y + z" using z y x by linarith
    with 4 b have w: "0 \<le> w" by linarith
    have w5: "w < 5" using q b c(2) by linarith
    have "w = 0 \<longrightarrow> 16 \<le> x" using q 4 b by linarith
    moreover have "w = 4 \<longrightarrow> x \<le> 15" using q b c(2) by linarith
    ultimately have "utf8_next ([0xF0 + w, 0x80 + x, 0x80 + y, 0x80 + z] @ r) = (Some c, 4)"
      using b q w w5 by (simp add: utf8_next.simps(2) cont_def second_ok_def)
    with 4 show ?thesis unfolding ch by simp
  qed
qed

lemma utf8_decode_replace_char:
  "is_scalar c \<Longrightarrow> utf8_decode_replace (utf8_char c @ r) = c # utf8_decode_replace r"
  using utf8_decode_replace_step [OF utf8_next_char, of c r] by simp

lemma utf8_decode_replace_encode:
  "list_all is_scalar s \<Longrightarrow> utf8_decode_replace (concat (map utf8_char s)) = s"
  by (induction s) (auto simp: utf8_decode_replace_char)

lemma utf8_decode_pass_char:
  "is_scalar c \<Longrightarrow> utf8_decode_pass (utf8_char c @ r) = map_sum id (Cons c) (utf8_decode_pass r)"
  using utf8_decode_pass_step [OF utf8_next_char, of c r] by simp

lemma utf8_decode_pass_encode:
  "list_all is_scalar s \<Longrightarrow> utf8_decode_pass (concat (map utf8_char s)) = Inr s"
  by (induction s) (auto simp: utf8_decode_pass_char)

lemma ascii_scalar: "ascii s \<Longrightarrow> list_all is_scalar s"
  by (auto simp: ascii_iff list_all_iff is_scalar_def is_surrogate_def)

lemma concat_utf8_ascii: "ascii s \<Longrightarrow> concat (map utf8_char s) = s"
  by (induction s) (auto simp: utf8_char_ascii)

lemma utf8_decode_replace_ascii [simp]: "ascii s \<Longrightarrow> utf8_decode_replace s = s"
  using utf8_decode_replace_encode [OF ascii_scalar] concat_utf8_ascii by metis

lemma utf8_decode_pass_ascii [simp]: "ascii s \<Longrightarrow> utf8_decode_pass s = Inr s"
  using utf8_decode_pass_encode [OF ascii_scalar] concat_utf8_ascii by metis

text \<open>The two decoders provide the codec interface for the strict encoder.\<close>

definition utf8_bytes :: "ustr \<Rightarrow> int list" where
  "utf8_bytes s = concat (map utf8_char s)"

lemma utf8_encode_scalar: "list_all is_scalar s \<Longrightarrow> utf8_encode s = Inr (utf8_bytes s)"
  by (auto simp: utf8_encode_def utf8_bytes_def list_ex_iff list_all_iff is_scalar_def)

lemma utf8_char_range: "is_scalar c \<Longrightarrow> b \<in> set (utf8_char c) \<Longrightarrow> 0 \<le> b \<and> b < 256"
  by (auto simp: utf8_char_def is_scalar_def split: if_splits)

lemma utf8_bytes_range: "list_all is_scalar s \<Longrightarrow> b \<in> set (utf8_bytes s) \<Longrightarrow> 0 \<le> b \<and> b < 256"
  using utf8_char_range by (fastforce simp: utf8_bytes_def list_all_iff)

interpretation utf8: codec utf8_bytes utf8_decode_pass "list_all is_scalar"
  by unfold_locales (simp add: utf8_bytes_def utf8_decode_pass_encode)

interpretation utf8r: codec utf8_bytes "\<lambda>b. Inr (utf8_decode_replace b)" "list_all is_scalar"
  by unfold_locales (simp add: utf8_bytes_def utf8_decode_replace_encode)

end
