(* ===== verification/Url.thy ===== *)
theory Url
  imports Utf8
begin

text \<open>
  The parts of \<open>urllib.parse\<close> the handlers call: \<open>unquote\<close> on the id segment of a job
  path, \<open>urlsplit\<close> and \<open>parse_qs\<close> on the target of a \<open>DELETE\<close>. The main result is that
  decoding a job id does not depend on which characters the client chose to escape.
\<close>

section \<open>\<open>unquote\<close>\<close>

definition is_hex :: "int \<Rightarrow> bool" where
  "is_hex c \<longleftrightarrow> (48 \<le> c \<and> c \<le> 57) \<or> (65 \<le> c \<and> c \<le> 70) \<or> (97 \<le> c \<and> c \<le> 102)"

definition hex_value :: "int \<Rightarrow> int" where
  "hex_value c = (if c \<le> 57 then c - 48 else if c \<le> 70 then c - 55 else c - 87)"

fun unquote_to_bytes :: "ustr \<Rightarrow> int list" where
  "unquote_to_bytes [] = []"
| "unquote_to_bytes (c # s) =
     (if c \<noteq> 37 then c # unquote_to_bytes s
      else case s of
             a # b # r \<Rightarrow>
               if is_hex a \<and> is_hex b then (16 * hex_value a + hex_value b) # unquote_to_bytes r
               else 37 # unquote_to_bytes s
           | _ \<Rightarrow> 37 # unquote_to_bytes s)"

text \<open>Each maximal run of ASCII is decoded on its own; what is not ASCII stays as it is.\<close>

function unquote_runs :: "ustr \<Rightarrow> ustr" where
  "unquote_runs [] = []"
| "unquote_runs (c # s) =
     (if c < 128
        then utf8_decode_replace (unquote_to_bytes (takeWhile (\<lambda>x. x < 128) (c # s)))
             @ unquote_runs (dropWhile (\<lambda>x. x < 128) (c # s))
      else c # unquote_runs s)"
  by pat_completeness auto
termination
  by (relation "measure length") (auto simp: less_Suc_eq_le length_dropWhile_le)

definition unquote :: "ustr \<Rightarrow> ustr" where
  "unquote s = (if 37 \<notin> set s then s else unquote_runs s)"

definition unquote_plus :: "ustr \<Rightarrow> ustr" where
  "unquote_plus s = unquote (map (\<lambda>c. if c = 43 then 32 else c) s)"

lemma unquote_to_bytes_id: "37 \<notin> set s \<Longrightarrow> unquote_to_bytes s = s"
  by (induction s rule: unquote_to_bytes.induct) auto

lemma unquote_plain: "37 \<notin> set s \<Longrightarrow> unquote s = s"
  by (simp add: unquote_def)

lemma unquote_runs_ascii:
  assumes "ascii s"
  shows "unquote_runs s = utf8_decode_replace (unquote_to_bytes s)"
proof (cases s)
  case (Cons c t)
  have "takeWhile (\<lambda>x. x < 128) s = s" "dropWhile (\<lambda>x. x < 128) s = []"
    using assms by (simp_all add: takeWhile_eq_all_conv dropWhile_eq_Nil_conv ascii_iff)
  moreover have "c < 128" using assms Cons by simp
  ultimately show ?thesis unfolding Cons unquote_runs.simps(2) by (simp only: if_True) simp
qed simp

lemma unquote_ascii: "ascii s \<Longrightarrow> unquote s = utf8_decode_replace (unquote_to_bytes s)"
  by (cases "37 \<in> set s") (simp_all add: unquote_def unquote_runs_ascii unquote_to_bytes_id)

section \<open>What a client may send\<close>

text \<open>
  A client escapes the UTF-8 bytes of every character it does not keep; the characters it
  keeps are ASCII and are not the per cent sign. \<open>keep\<close> is the client's choice (the
  \<open>safe\<close> set of \<open>urllib.parse.quote\<close>, \<open>curl\<close>'s, none at all).
\<close>

definition hex_digit :: "int \<Rightarrow> int" where
  "hex_digit n = (if n < 10 then 48 + n else 55 + n)"

definition pct_byte :: "int \<Rightarrow> ustr" where
  "pct_byte b = [37, hex_digit (b div 16), hex_digit (b mod 16)]"

definition pct_encode :: "(int \<Rightarrow> bool) \<Rightarrow> ustr \<Rightarrow> ustr" where
  "pct_encode keep s =
     concat (map (\<lambda>c. if keep c \<and> 0 \<le> c \<and> c < 128 \<and> c \<noteq> 37 then [c]
                      else concat (map pct_byte (utf8_char c))) s)"

lemma hex_digit_props:
  assumes "0 \<le> n" and "n < 16"
  shows "is_hex (hex_digit n)" "hex_value (hex_digit n) = n" "0 \<le> hex_digit n" "hex_digit n < 128"
    "hex_digit n \<noteq> 37" "hex_digit n \<noteq> 47"
  using assms by (auto simp: is_hex_def hex_digit_def hex_value_def)

lemma unquote_pct_byte:
  assumes "0 \<le> b" and "b < 256"
  shows "unquote_to_bytes (pct_byte b @ r) = b # unquote_to_bytes r"
proof -
  have "0 \<le> b div 16" "b div 16 < 16" "0 \<le> b mod 16" "b mod 16 < 16" using assms by auto
  then show ?thesis by (simp add: pct_byte_def hex_digit_props)
qed

lemma unquote_pct_bytes:
  "\<forall>b \<in> set bs. 0 \<le> b \<and> b < 256 \<Longrightarrow>
   unquote_to_bytes (concat (map pct_byte bs) @ r) = bs @ unquote_to_bytes r"
  by (induction bs) (simp_all add: unquote_pct_byte)

lemma ascii_pct_byte: "0 \<le> b \<Longrightarrow> b < 256 \<Longrightarrow> ascii (pct_byte b)"
  using hex_digit_props(3,4) [of "b div 16"] hex_digit_props(3,4) [of "b mod 16"]
  by (simp add: pct_byte_def)

lemma ascii_pct_char: "is_scalar c \<Longrightarrow> ascii (concat (map pct_byte (utf8_char c)))"
  using utf8_char_range ascii_pct_byte unfolding ascii_iff by fastforce

lemma pct_encode_ascii: "list_all is_scalar s \<Longrightarrow> ascii (pct_encode keep s)"
  by (induction s) (auto simp: pct_encode_def ascii_pct_char)

lemma unquote_to_bytes_pct_encode:
  "list_all is_scalar s \<Longrightarrow> unquote_to_bytes (pct_encode keep s) = utf8_bytes s"
proof (induction s)
  case (Cons c s)
  then have IH: "unquote_to_bytes (pct_encode keep s) = utf8_bytes s" and c: "is_scalar c" by auto
  have r: "\<forall>b \<in> set (utf8_char c). 0 \<le> b \<and> b < 256" using utf8_char_range [OF c] by blast
  show ?case
  proof (cases "keep c \<and> 0 \<le> c \<and> c < 128 \<and> c \<noteq> 37")
    case True
    with IH show ?thesis by (simp add: pct_encode_def utf8_bytes_def utf8_char_ascii)
  next
    case False
    then have "pct_encode keep (c # s) = concat (map pct_byte (utf8_char c)) @ pct_encode keep s"
      by (auto simp: pct_encode_def)
    with unquote_pct_bytes [OF r] IH show ?thesis by (simp add: utf8_bytes_def)
  qed
qed (simp add: pct_encode_def utf8_bytes_def)

lemma unquote_pct_encode:
  "list_all is_scalar s \<Longrightarrow> unquote (pct_encode keep s) = s"
  by (simp add: unquote_ascii pct_encode_ascii unquote_to_bytes_pct_encode utf8_bytes_def
      utf8_decode_replace_encode)

interpretation pct: codec "pct_encode keep" "\<lambda>s. Inr (unquote s)" "list_all is_scalar" for keep
  by unfold_locales (simp add: unquote_pct_encode)

section \<open>\<open>urlsplit\<close>\<close>

definition scheme_char :: "int \<Rightarrow> bool" where
  "scheme_char c \<longleftrightarrow> (97 \<le> c \<and> c \<le> 122) \<or> (65 \<le> c \<and> c \<le> 90) \<or> (48 \<le> c \<and> c \<le> 57) \<or> c \<in> {43, 45, 46}"

definition ascii_alpha :: "int \<Rightarrow> bool" where
  "ascii_alpha c \<longleftrightarrow> (97 \<le> c \<and> c \<le> 122) \<or> (65 \<le> c \<and> c \<le> 90)"

definition drop_scheme :: "ustr \<Rightarrow> ustr" where
  "drop_scheme url =
     (case after 58 url of
        None \<Rightarrow> url
      | Some r \<Rightarrow>
          if before 58 url \<noteq> [] \<and> ascii_alpha (hd url) \<and> list_all scheme_char (before 58 url)
            then r else url)"

definition netloc_end :: "int \<Rightarrow> bool" where
  "netloc_end c \<longleftrightarrow> c \<in> {47, 63, 35}"

definition check_netloc :: "interp \<Rightarrow> ustr \<Rightarrow> exn + unit" where
  "check_netloc py netloc =
     (if (91 \<in> set netloc) \<noteq> (93 \<in> set netloc) then Inl (ValueError (us ''Invalid IPv6 URL''))
      else if 91 \<in> set netloc \<and>
          \<not> bracketed_host_ok py (before 93 (case after 91 netloc of None \<Rightarrow> [] | Some r \<Rightarrow> r))
        then Inl (ValueError (us ''invalid bracketed host''))
      else if \<not> ascii netloc \<and> \<not> netloc_nfkc_ok py netloc
        then Inl (ValueError (us ''netloc contains invalid characters under NFKC normalization''))
      else Inr ())"

text \<open>\<open>urlsplit(url)\<close>, of which the handler uses \<open>.path\<close> and \<open>.query\<close>.\<close>

definition urlsplit :: "interp \<Rightarrow> ustr \<Rightarrow> exn + ustr \<times> ustr" where
  "urlsplit py url0 =
     (let url1 = filter (\<lambda>c. c \<notin> {9, 10, 13}) (dropWhile (\<lambda>c. c \<le> 32) url0);
          url2 = drop_scheme url1;
          has_netloc = py_startswith [47, 47] url2;
          netloc = (if has_netloc then takeWhile (\<lambda>c. \<not> netloc_end c) (drop 2 url2) else []);
          url3 = (if has_netloc then dropWhile (\<lambda>c. \<not> netloc_end c) (drop 2 url2) else url2)
      in case check_netloc py netloc of
           Inl e \<Rightarrow> Inl e
         | Inr _ \<Rightarrow>
             let url4 = before 35 url3
             in Inr (before 63 url4, (case after 63 url4 of None \<Rightarrow> [] | Some q \<Rightarrow> q)))"

lemma urlsplit_error: "urlsplit py u = Inl e \<Longrightarrow> is_ValueError e"
  by (auto simp: urlsplit_def check_netloc_def Let_def split: sum.splits if_splits)

text \<open>On an origin-form target, a path that starts with one slash, it only cuts.\<close>

lemma drop_scheme_slash: "drop_scheme (47 # r) = 47 # r"
  by (auto simp: drop_scheme_def ascii_alpha_def split: option.splits)

lemma urlsplit_origin_form:
  assumes "\<not> py_startswith [47] r" and "set (47 # r) \<inter> {9, 10, 13} = {}"
  shows "urlsplit py (47 # r) =
    Inr (let u = before 35 (47 # r) in (before 63 u, case after 63 u of None \<Rightarrow> [] | Some q \<Rightarrow> q))"
proof -
  have "filter (\<lambda>c. c \<notin> {9, 10, 13}) (dropWhile (\<lambda>c. c \<le> 32) (47 # r)) = 47 # r"
    using assms(2) by (auto simp: filter_id_conv)
  moreover have "\<not> py_startswith [47, 47] (47 # r)"
    using assms(1) by (auto simp: py_startswith_def)
  ultimately show ?thesis
    unfolding urlsplit_def Let_def by (simp add: drop_scheme_slash check_netloc_def)
qed

section \<open>\<open>parse_qs\<close>\<close>

definition parse_qsl :: "ustr \<Rightarrow> (ustr \<times> ustr) list" where
  "parse_qsl qs =
     (if qs = [] then []
      else concat (map (\<lambda>nv. case after 61 nv of
                            None \<Rightarrow> []
                          | Some v \<Rightarrow> if v = [] then [] else [(unquote_plus (before 61 nv), unquote_plus v)])
                 (split_on 38 qs)))"

definition add_qs :: "(ustr \<times> ustr list) list \<Rightarrow> ustr \<times> ustr \<Rightarrow> (ustr \<times> ustr list) list" where
  "add_qs d nv = (case map_of d (fst nv) of
      Some vs \<Rightarrow> AList.update (fst nv) (vs @ [snd nv]) d
    | None \<Rightarrow> AList.update (fst nv) [snd nv] d)"

definition parse_qs :: "ustr \<Rightarrow> (ustr \<times> ustr list) list" where
  "parse_qs qs = foldl add_qs [] (parse_qsl qs)"

lemma map_of_foldl_add_qs:
  "map_of (foldl add_qs d nvs) n =
     (let new = map snd (filter (\<lambda>nv. fst nv = n) nvs)
      in case map_of d n of
           Some vs \<Rightarrow> Some (vs @ new)
         | None \<Rightarrow> if new = [] then None else Some new)"
proof (induction nvs arbitrary: d)
  case (Cons nv nvs)
  have "map_of (add_qs d nv) n =
      (if fst nv = n then Some ((case map_of d n of None \<Rightarrow> [] | Some vs \<Rightarrow> vs) @ [snd nv])
       else map_of d n)"
    by (auto simp: add_qs_def update_conv split: option.splits)
  with Cons.IH show ?case by (auto simp: Let_def split: option.splits)
qed (auto split: option.splits)

lemma map_of_parse_qs:
  "map_of (parse_qs qs) n =
     (let vs = map snd (filter (\<lambda>nv. fst nv = n) (parse_qsl qs)) in if vs = [] then None else Some vs)"
  by (simp add: parse_qs_def map_of_foldl_add_qs)

lemma parse_qs_nonempty: "map_of (parse_qs qs) n = Some vs \<Longrightarrow> vs \<noteq> []"
  by (auto simp: map_of_parse_qs Let_def split: if_splits)

end
