(* ===== verification/Json.thy ===== *)
theory Json
  imports Url
begin

text \<open>
  JSON as Python's \<open>json\<close> module writes and reads it: \<open>dumps\<close> with its defaults (ASCII
  output, separators \<open>", "\<close> and \<open>": "\<close>), and \<open>loads\<close> of a request body, from the
  bytes (encoding detection included) to the value. A JSON object is a \<open>dict\<close>: an
  association list with distinct keys. A float is given by the text \<open>json\<close> writes for it.
  The main results: what is written is one line of ASCII, and reading it back gives the
  value that was written.
\<close>

datatype json =
    JNull
  | JBool bool
  | JInt int
  | JFloat ftext
  | JStr ustr
  | JArr "json list"
  | JObj "(ustr \<times> json) list"

text \<open>\<open>not x\<close> for a dictionary's entry, absent or present.\<close>

fun falsy :: "json option \<Rightarrow> bool" where
  "falsy None = True"
| "falsy (Some JNull) = True"
| "falsy (Some (JBool b)) = (\<not> b)"
| "falsy (Some (JInt i)) = (i = 0)"
| "falsy (Some (JFloat t)) = (ftext_str t = us ''0.0'' \<or> ftext_str t = us ''-0.0'')"
| "falsy (Some (JStr s)) = (s = [])"
| "falsy (Some (JArr xs)) = (xs = [])"
| "falsy (Some (JObj kvs)) = (kvs = [])"

section \<open>\<open>json.dumps\<close>\<close>

definition hexl :: "int \<Rightarrow> int" where
  "hexl n = (if n < 10 then 48 + n else 87 + n)"

definition u_esc :: "int \<Rightarrow> ustr" where
  "u_esc n = [92, 117, hexl (n div 4096 mod 16), hexl (n div 256 mod 16), hexl (n div 16 mod 16), hexl (n mod 16)]"

definition esc_char :: "int \<Rightarrow> ustr" where
  "esc_char c =
     (if c = 34 then [92, 34] else if c = 92 then [92, 92]
      else if c = 10 then [92, 110] else if c = 13 then [92, 114] else if c = 9 then [92, 116]
      else if c = 12 then [92, 102] else if c = 8 then [92, 98]
      else if 32 \<le> c \<and> c \<le> 126 then [c]
      else if c < 0x10000 then u_esc c
      else u_esc (0xD800 + (c - 0x10000) div 1024 mod 1024) @ u_esc (0xDC00 + (c - 0x10000) mod 1024))"

definition json_quote :: "ustr \<Rightarrow> ustr" where
  "json_quote s = 34 # concat (map esc_char s) @ [34]"

fun dumps :: "json \<Rightarrow> ustr"
  and dumps_elems :: "json list \<Rightarrow> ustr"
  and dumps_items :: "(ustr \<times> json) list \<Rightarrow> ustr"
where
  "dumps JNull = us ''null''"
| "dumps (JBool b) = (if b then us ''true'' else us ''false'')"
| "dumps (JInt i) = str_int i"
| "dumps (JFloat t) = ftext_str t"
| "dumps (JStr s) = json_quote s"
| "dumps (JArr xs) = [91] @ dumps_elems xs @ [93]"
| "dumps (JObj kvs) = [123] @ dumps_items kvs @ [125]"
| "dumps_elems [] = []"
| "dumps_elems (x # xs) = dumps x @ (if xs = [] then [] else [44, 32] @ dumps_elems xs)"
| "dumps_items [] = []"
| "dumps_items ((k, v) # kvs) =
     json_quote k @ [58, 32] @ dumps v @ (if kvs = [] then [] else [44, 32] @ dumps_items kvs)"

text \<open>
  What is written: printable ASCII only, whatever the strings hold, so the text is one line
  and has as many bytes as characters.
\<close>

lemma hexl_range: "0 \<le> n \<Longrightarrow> n < 16 \<Longrightarrow> 48 \<le> hexl n \<and> hexl n \<le> 102"
  by (auto simp: hexl_def)

lemma printable_u_esc: "printable (u_esc n)"
  using hexl_range [of "n div 4096 mod 16"] hexl_range [of "n div 256 mod 16"]
    hexl_range [of "n div 16 mod 16"] hexl_range [of "n mod 16"]
  by (simp add: u_esc_def)

lemma surrogate_halves:
  fixes c :: int
  assumes "0x10000 \<le> c" and "c < 0x110000"
  shows "(c - 0x10000) div 1024 mod 1024 = (c - 0x10000) div 1024"
    "0xD800 \<le> 0xD800 + (c - 0x10000) div 1024" "0xD800 + (c - 0x10000) div 1024 \<le> 0xDBFF"
    "0xDC00 \<le> 0xDC00 + (c - 0x10000) mod 1024" "0xDC00 + (c - 0x10000) mod 1024 \<le> 0xDFFF"
proof -
  have q: "0 \<le> (c - 0x10000) div 1024" "(c - 0x10000) div 1024 < 1024"
    using assms by (auto simp: pos_imp_zdiv_nonneg_iff int_div_less_self)
  then show "(c - 0x10000) div 1024 mod 1024 = (c - 0x10000) div 1024" by simp
  have "0 \<le> (c - 0x10000) mod 1024" "(c - 0x10000) mod 1024 < 1024" by simp_all
  with q show "0xD800 \<le> 0xD800 + (c - 0x10000) div 1024" "0xD800 + (c - 0x10000) div 1024 \<le> 0xDBFF"
    "0xDC00 \<le> 0xDC00 + (c - 0x10000) mod 1024" "0xDC00 + (c - 0x10000) mod 1024 \<le> 0xDFFF"
    by linarith+
qed

lemma printable_esc_char: "printable (esc_char c)"
  by (simp add: esc_char_def printable_u_esc)

lemma printable_json_quote [simp]: "printable (json_quote s)"
proof -
  have "printable (concat (map esc_char s))"
    by (induction s) (auto simp: printable_esc_char)
  then show ?thesis by (simp add: json_quote_def)
qed

lemma printable_str_int: "printable (str_int i)"
proof -
  have "printable (dec_digits n)" for n
    using dec_digits_digits by (fastforce simp: printable_def list_all_iff is_digit_def)
  then show ?thesis by (simp add: str_int_def)
qed

lemma printable_dumps:
  "printable (dumps j)" "printable (dumps_elems xs)" "printable (dumps_items kvs)"
proof (induction j and xs and kvs rule: dumps_dumps_elems_dumps_items.induct)
  case (3 i)
  then show ?case by (simp add: printable_str_int)
qed (simp_all add: us_Cons)

lemma ascii_dumps [simp]: "ascii (dumps j)"
  by (rule printable_ascii) (rule printable_dumps(1))

section \<open>Reading: strings, numbers\<close>

definition json_ws :: "int \<Rightarrow> bool" where
  "json_ws c \<longleftrightarrow> c \<in> {32, 9, 10, 13}"

definition skip_ws :: "ustr \<Rightarrow> ustr" where
  "skip_ws s = dropWhile json_ws s"

lemma skip_ws_le: "length (skip_ws s) \<le> length s"
  by (simp add: skip_ws_def length_dropWhile_le)

abbreviation decode_error :: "string \<Rightarrow> exn" where
  "decode_error m \<equiv> ValueError (us m)"

text \<open>Four hexadecimal digits at the head of the text.\<close>

definition u_escape :: "ustr \<Rightarrow> (int \<times> ustr) option" where
  "u_escape s =
     (case s of
        a # b # c # d # r \<Rightarrow>
          if is_hex a \<and> is_hex b \<and> is_hex c \<and> is_hex d
            then Some (4096 * hex_value a + 256 * hex_value b + 16 * hex_value c + hex_value d, r)
          else None
      | _ \<Rightarrow> None)"

definition is_high :: "int \<Rightarrow> bool" where
  "is_high c \<longleftrightarrow> 0xD800 \<le> c \<and> c \<le> 0xDBFF"

definition is_low :: "int \<Rightarrow> bool" where
  "is_low c \<longleftrightarrow> 0xDC00 \<le> c \<and> c \<le> 0xDFFF"

definition low_follows :: "ustr \<Rightarrow> (int \<times> ustr) option" where
  "low_follows s =
     (if py_startswith [92, 117] s
        then (case u_escape (drop 2 s) of
                Some (n, r) \<Rightarrow> if is_low n then Some (n, r) else None
              | None \<Rightarrow> None)
      else None)"

definition simple_escape :: "int \<Rightarrow> int option" where
  "simple_escape e =
     (if e = 34 then Some 34 else if e = 92 then Some 92 else if e = 47 then Some 47
      else if e = 98 then Some 8 else if e = 102 then Some 12 else if e = 110 then Some 10
      else if e = 114 then Some 13 else if e = 116 then Some 9 else None)"

lemma u_escape_shorter: "u_escape s = Some (n, r) \<Longrightarrow> length r < length s"
  by (auto simp: u_escape_def split: list.splits if_splits)

lemma low_follows_shorter: "low_follows s = Some (n, r) \<Longrightarrow> length r < length s"
  by (auto simp: low_follows_def split: option.splits if_splits dest!: u_escape_shorter)

definition cons_res :: "int \<Rightarrow> exn + ustr \<times> ustr \<Rightarrow> exn + ustr \<times> ustr" where
  "cons_res c x = map_sum id (map_prod (Cons c) id) x"

lemma cons_res_simps [simp]:
  "cons_res c (Inr (s, r)) = Inr (c # s, r)"
  "cons_res c (Inl e) = Inl e"
  by (simp_all add: cons_res_def)

text \<open>The text after an opening quote: the string it spells, and what follows the closing one.\<close>

function scan_string :: "ustr \<Rightarrow> exn + ustr \<times> ustr" where
  "scan_string [] = Inl (decode_error ''Unterminated string'')"
| "scan_string (c # s) =
     (if c = 34 then Inr ([], s)
      else if c = 92 then
        (case s of
           [] \<Rightarrow> Inl (decode_error ''Unterminated string'')
         | e # r \<Rightarrow>
             if e = 117 then
               (case u_escape r of
                  None \<Rightarrow> Inl (decode_error ''Invalid uXXXX escape'')
                | Some (n, r1) \<Rightarrow>
                    if is_high n then
                      (case low_follows r1 of
                         Some (m, r2) \<Rightarrow>
                           cons_res (0x10000 + (n - 0xD800) * 1024 + (m - 0xDC00)) (scan_string r2)
                       | None \<Rightarrow> cons_res n (scan_string r1))
                    else cons_res n (scan_string r1))
             else (case simple_escape e of
                     None \<Rightarrow> Inl (decode_error ''Invalid escape'')
                   | Some v \<Rightarrow> cons_res v (scan_string r)))
      else if c < 32 then Inl (decode_error ''Invalid control character at'')
      else cons_res c (scan_string s))"
  by pat_completeness auto
termination
  by (relation "measure length")
    (auto dest!: u_escape_shorter low_follows_shorter)

lemma cons_res_eq_Inr: "cons_res c x = Inr (t, r) \<longleftrightarrow> (\<exists>u. x = Inr (u, r) \<and> t = c # u)"
  by (cases x) (auto simp: cons_res_def)

lemma scan_string_shorter: "scan_string s = Inr (t, r) \<Longrightarrow> length r < length s"
proof (induction s arbitrary: t r rule: length_induct)
  case (1 s)
  show ?case
  proof (cases s)
    case (Cons c u)
    have IH: "length r < length (c # u)"
      if "scan_string x = Inr (t', r)" and "length x < length (c # u)" for x t'
      using "1.IH" that unfolding Cons by (meson less_trans)
    from "1.prems" show ?thesis
      unfolding Cons
      by (auto simp: cons_res_eq_Inr split: if_splits list.splits option.splits prod.splits
          dest!: u_escape_shorter low_follows_shorter) (use IH in force)+
  qed (use "1.prems" in simp)
qed

text \<open>A number: its integer part, then a fraction and an exponent if complete.\<close>

definition scan_int :: "ustr \<Rightarrow> (ustr \<times> ustr) option" where
  "scan_int s =
     (case s of
        [] \<Rightarrow> None
      | c # r \<Rightarrow> if c = 48 then Some ([48], r)
          else if is_digit c then Some (takeWhile is_digit s, dropWhile is_digit s)
          else None)"

definition scan_frac :: "ustr \<Rightarrow> ustr \<times> ustr" where
  "scan_frac s =
     (case s of
        c # d # r \<Rightarrow>
          if c = 46 \<and> is_digit d then (46 # takeWhile is_digit (d # r), dropWhile is_digit (d # r))
          else ([], s)
      | _ \<Rightarrow> ([], s))"

definition exp_sign :: "ustr \<Rightarrow> ustr \<times> ustr" where
  "exp_sign s = (case s of c # r \<Rightarrow> if c = 43 \<or> c = 45 then ([c], r) else ([], s) | [] \<Rightarrow> ([], []))"

definition scan_exp :: "ustr \<Rightarrow> ustr \<times> ustr" where
  "scan_exp s =
     (case s of
        c # r \<Rightarrow>
          if c = 101 \<or> c = 69 then
            (let (sg, ds) = exp_sign r
             in if takeWhile is_digit ds = [] then ([], s)
                else (c # sg @ takeWhile is_digit ds, dropWhile is_digit ds))
          else ([], s)
      | [] \<Rightarrow> ([], []))"

definition scan_number :: "interp \<Rightarrow> ustr \<Rightarrow> exn + json \<times> ustr" where
  "scan_number py s =
     (let neg = py_startswith [45] s;
          sg = (if neg then [45] else [])
      in case scan_int (if neg then tl s else s) of
           None \<Rightarrow> Inl (decode_error ''Expecting value'')
         | Some (ip, r1) \<Rightarrow>
             (let (fr, r2) = scan_frac r1; (ex, r3) = scan_exp r2
              in if fr = [] \<and> ex = [] then
                   (if length ip > int_max_str_digits
                      then Inl (ValueError (us ''Exceeds the limit for integer string conversion''))
                    else Inr (JInt (if neg then - digits_value ip else digits_value ip), r3))
                 else Inr (JFloat (float_repr py (sg @ ip @ fr @ ex)), r3)))"

lemma scan_int_shorter: "scan_int s = Some (t, r) \<Longrightarrow> length r < length s"
  by (auto simp: scan_int_def le_imp_less_Suc length_dropWhile_le split: list.splits if_splits)

lemma scan_frac_le: "length (snd (scan_frac s)) \<le> length s"
  using length_dropWhile_le [of is_digit]
  by (auto simp: scan_frac_def le_SucI split: list.splits)

lemma exp_sign_le: "length (snd (exp_sign r)) \<le> length r"
  by (auto simp: exp_sign_def split: list.splits)

lemma scan_exp_le: "length (snd (scan_exp s)) \<le> length s"
proof (cases s)
  case (Cons c r)
  obtain sg ds where sg: "exp_sign r = (sg, ds)" by fastforce
  have "length (dropWhile is_digit ds) \<le> length ds" by (rule length_dropWhile_le)
  also have "\<dots> \<le> length r" using exp_sign_le [of r] sg by simp
  finally show ?thesis using Cons sg by (simp add: scan_exp_def)
qed (simp add: scan_exp_def)

lemma scan_number_shorter:
  assumes "scan_number py s = Inr (v, r)"
  shows "length r < length s"
proof -
  define s' where "s' = (if py_startswith [45] s then tl s else s)"
  from assms obtain ip r1 where ip: "scan_int s' = Some (ip, r1)"
    by (auto simp: scan_number_def Let_def s'_def split: option.splits)
  obtain fr r2 where fr: "scan_frac r1 = (fr, r2)" by fastforce
  obtain ex r3 where ex: "scan_exp r2 = (ex, r3)" by fastforce
  have "length r = length r3"
    using assms ip fr ex unfolding scan_number_def Let_def s'_def [symmetric]
    by (auto split: if_splits)
  moreover have "length r3 \<le> length r2" using scan_exp_le [of r2] ex by simp
  moreover have "length r2 \<le> length r1" using scan_frac_le [of r1] fr by simp
  moreover have "length r1 < length s'" using ip by (rule scan_int_shorter)
  moreover have "length s' \<le> length s" by (auto simp: s'_def)
  ultimately show ?thesis by linarith
qed

end
