(* ===== verification/JsonLoads.thy ===== *)
theory JsonLoads
  imports Json
begin

text \<open>
  \<open>json.loads\<close>: the recursive-descent reader of arrays and objects, the detection and
  decoding of the body's encoding, and the theorem that reading what \<^const>\<open>dumps\<close> wrote
  gives back the value. The C decoder bounds the nesting of arrays and objects; \<open>depth\<close> is
  what is left of that bound, and running out of it is \<open>RecursionError\<close>, which is not a
  \<open>ValueError\<close>.
\<close>

section \<open>Values\<close>

text \<open>
  The literal names, tried in the decoder's order. The test that the rest is shorter, in
  the loops over elements and members, always succeeds (\<open>scan_value_shorter\<close>): it is
  what makes the recursion visibly terminate.
\<close>

definition scan_const :: "ustr \<Rightarrow> (json \<times> ustr) option" where
  "scan_const s =
     (if py_startswith (us ''null'') s then Some (JNull, drop 4 s)
      else if py_startswith (us ''true'') s then Some (JBool True, drop 4 s)
      else if py_startswith (us ''false'') s then Some (JBool False, drop 5 s)
      else if py_startswith (us ''NaN'') s then Some (JFloat (FText (us ''NaN'')), drop 3 s)
      else if py_startswith (us ''Infinity'') s then Some (JFloat (FText (us ''Infinity'')), drop 8 s)
      else if py_startswith (us ''-Infinity'') s then Some (JFloat (FText (us ''-Infinity'')), drop 9 s)
      else None)"

text \<open>The members of an object in a \<open>dict\<close>: a repeated name overwrites.\<close>

definition dict_of :: "('k \<times> 'v) list \<Rightarrow> ('k \<times> 'v) list" where
  "dict_of kvs = foldl (\<lambda>d kv. AList.update (fst kv) (snd kv) d) [] kvs"

function (sequential)
      scan_value :: "interp \<Rightarrow> nat \<Rightarrow> ustr \<Rightarrow> exn + json \<times> ustr"
  and scan_elems :: "interp \<Rightarrow> nat \<Rightarrow> ustr \<Rightarrow> exn + json list \<times> ustr"
  and scan_members :: "interp \<Rightarrow> nat \<Rightarrow> ustr \<Rightarrow> exn + (ustr \<times> json) list \<times> ustr"
where
  "scan_value py depth [] = Inl (decode_error ''Expecting value'')"
| "scan_value py depth (c # s) =
     (if c = 34 then map_sum id (map_prod JStr id) (scan_string s)
      else if c = 123 then
        (case depth of
           0 \<Rightarrow> Inl (RecursionError (us ''maximum recursion depth exceeded while decoding a JSON object''))
         | Suc d \<Rightarrow>
             if py_startswith [125] (skip_ws s) then Inr (JObj [], tl (skip_ws s))
             else map_sum id
               (map_prod (\<lambda>kvs. JObj (dict_of kvs)) id)
               (scan_members py d (skip_ws s)))
      else if c = 91 then
        (case depth of
           0 \<Rightarrow> Inl (RecursionError (us ''maximum recursion depth exceeded while decoding a JSON array''))
         | Suc d \<Rightarrow>
             if py_startswith [93] (skip_ws s) then Inr (JArr [], tl (skip_ws s))
             else map_sum id (map_prod JArr id) (scan_elems py d (skip_ws s)))
      else case scan_const (c # s) of
             Some (v, r) \<Rightarrow> Inr (v, r)
           | None \<Rightarrow> scan_number py (c # s))"
| "scan_elems py depth s =
     (case scan_value py depth s of
        Inl e \<Rightarrow> Inl e
      | Inr (v, r) \<Rightarrow>
          (case skip_ws r of
             c # t \<Rightarrow>
               if c = 93 then Inr ([v], t)
               else if c = 44 \<and> length (skip_ws t) < length s
                 then map_sum id (map_prod (Cons v) id) (scan_elems py depth (skip_ws t))
               else Inl (decode_error ''Expecting , delimiter'')
           | [] \<Rightarrow> Inl (decode_error ''Expecting , delimiter'')))"
| "scan_members py depth [] =
     Inl (decode_error ''Expecting property name enclosed in double quotes'')"
| "scan_members py depth (q # s) =
     (if q \<noteq> 34 then Inl (decode_error ''Expecting property name enclosed in double quotes'')
      else case scan_string s of
        Inl e \<Rightarrow> Inl e
      | Inr (k, r1) \<Rightarrow>
          (if \<not> py_startswith [58] (skip_ws r1) \<or> \<not> length (skip_ws (tl (skip_ws r1))) < length s
             then Inl (decode_error ''Expecting : delimiter'')
           else case scan_value py depth (skip_ws (tl (skip_ws r1))) of
             Inl e \<Rightarrow> Inl e
           | Inr (v, r) \<Rightarrow>
               (case skip_ws r of
                  c # t \<Rightarrow>
                    if c = 125 then Inr ([(k, v)], t)
                    else if c = 44 \<and> length (skip_ws t) < length s
                      then map_sum id (map_prod (Cons (k, v)) id) (scan_members py depth (skip_ws t))
                    else Inl (decode_error ''Expecting , delimiter'')
                | [] \<Rightarrow> Inl (decode_error ''Expecting , delimiter''))))"
  by pat_completeness auto
termination
  by (relation "measure (\<lambda>x. case x of
        Inl (_, _, s) \<Rightarrow> 2 * length s
      | Inr (Inl (_, _, s)) \<Rightarrow> 2 * length s + 1
      | Inr (Inr (_, _, s)) \<Rightarrow> 2 * length s + 1)")
    (auto simp: less_Suc_eq_le skip_ws_le)

declare scan_elems.simps [simp del]

text \<open>Whatever is read is shorter than what was there, so the tests above never fail.\<close>

lemma scan_const_shorter: "scan_const s = Some (v, r) \<Longrightarrow> length r < length s"
  by (auto simp: scan_const_def py_startswith_iff split: if_splits)

lemma map_sum_Inr: "map_sum id (map_prod f id) x = Inr (y, r) \<longleftrightarrow> (\<exists>z. x = Inr (z, r) \<and> y = f z)"
  by (cases x) auto

lemma map_sum_Inl: "map_sum id g x = Inl e \<longleftrightarrow> x = Inl e"
  by (cases x) auto

lemma skip_ws_shorter: "length r < length s \<Longrightarrow> skip_ws r = c # t \<Longrightarrow> length t < length s"
  using skip_ws_le [of r] by simp

lemma tl_skip_ws_shorter: "length (tl (skip_ws s)) \<le> length s"
  using skip_ws_le [of s] by simp

lemma scan_shorter:
  "scan_value py depth s = Inr (v, r) \<Longrightarrow> length r < length s"
  "scan_elems py depth s = Inr (vs, r) \<Longrightarrow> length r < length s"
  "scan_members py depth s = Inr (kvs, r) \<Longrightarrow> length r < length s"
proof (induction py depth s and py depth s and py depth s arbitrary: v r and vs r and kvs r
    rule: scan_value_scan_elems_scan_members.induct)
  case (2 py depth c s)
  have le: "length (skip_ws s) \<le> length s" by (rule skip_ws_le)
  show ?case
    using "2.prems" "2.IH" le scan_string_shorter [of s] scan_const_shorter [of "c # s"]
      scan_number_shorter [of py "c # s"] tl_skip_ws_shorter [of s]
    by (fastforce simp: map_sum_Inr split: if_splits nat.splits option.splits)
next
  case (3 py depth s)
  from "3.prems" obtain w q c t where w: "scan_value py depth s = Inr (w, q)"
    and q: "skip_ws q = c # t"
    by (subst (asm) scan_elems.simps) (auto split: sum.splits list.splits)
  have t: "length t < length s" using "3.IH"(1) [OF w] q by (rule skip_ws_shorter)
  show ?case
  proof (cases "c = 93")
    case True
    with "3.prems" w q t show ?thesis by (subst (asm) scan_elems.simps) simp
  next
    case False
    with "3.prems" w q obtain us where us: "scan_elems py depth (skip_ws t) = Inr (us, r)"
      and "c = 44" "length (skip_ws t) < length s"
      by (subst (asm) scan_elems.simps) (auto simp: map_sum_Inr split: if_splits)
    then show ?thesis using "3.IH"(2) [OF w refl q False] by fastforce
  qed
next
  case (5 py depth q s)
  from "5.prems" obtain k r1 w r2 c t where
    k: "q = 34" "scan_string s = Inr (k, r1)"
       "\<not> (\<not> py_startswith [58] (skip_ws r1) \<or> \<not> length (skip_ws (tl (skip_ws r1))) < length s)"
    and w: "scan_value py depth (skip_ws (tl (skip_ws r1))) = Inr (w, r2)"
    and c: "skip_ws r2 = c # t"
    by (auto split: sum.splits list.splits if_splits)
  have "length r2 < length (skip_ws (tl (skip_ws r1)))"
    using "5.IH"(1) [OF _ k(2) refl k(3) w] k(1) by simp
  then have "length r2 < length s" using k(3) by simp
  then have t: "length t < length s" using c by (rule skip_ws_shorter)
  show ?case
  proof (cases "c = 125")
    case True
    with "5.prems" k w c t show ?thesis by simp
  next
    case False
    with "5.prems" k w c obtain us where us: "scan_members py depth (skip_ws t) = Inr (us, r)"
      and "c = 44" "length (skip_ws t) < length s"
      by (auto simp: map_sum_Inr split: if_splits)
    then show ?thesis using "5.IH"(2) [OF _ k(2) refl k(3) w refl c False] k(1) by fastforce
  qed
qed simp_all

section \<open>The document\<close>

text \<open>\<open>JSONDecoder.decode\<close>: one value with white space around it.\<close>

definition loads_str :: "interp \<Rightarrow> ustr \<Rightarrow> exn + json" where
  "loads_str py s =
     (case scan_value py (json_depth py) (skip_ws s) of
        Inl e \<Rightarrow> Inl e
      | Inr (v, r) \<Rightarrow> if skip_ws r = [] then Inr v else Inl (decode_error ''Extra data''))"

text \<open>UTF-16 and UTF-32, with surrogates passed through.\<close>

fun utf16_decode :: "bool \<Rightarrow> int list \<Rightarrow> exn + ustr" where
  "utf16_decode be [] = Inr []"
| "utf16_decode be [a] = Inl (decode_error ''codec can't decode: truncated data'')"
| "utf16_decode be (a # b # r) =
     (let u = (if be then 256 * a + b else 256 * b + a)
      in map_sum id (Cons u) (utf16_decode be r))"

text \<open>Two units that form a surrogate pair are one character.\<close>

fun join_pairs :: "ustr \<Rightarrow> ustr" where
  "join_pairs (a # b # r) =
     (if is_high a \<and> is_low b then (0x10000 + (a - 0xD800) * 1024 + (b - 0xDC00)) # join_pairs r
      else a # join_pairs (b # r))"
| "join_pairs s = s"

fun utf32_decode :: "bool \<Rightarrow> int list \<Rightarrow> exn + ustr" where
  "utf32_decode be [] = Inr []"
| "utf32_decode be (a # b # c # d # r) =
     (let u = (if be then 16777216 * a + 65536 * b + 256 * c + d
               else 16777216 * d + 65536 * c + 256 * b + a)
      in if u < 0x110000 then map_sum id (Cons u) (utf32_decode be r)
         else Inl (decode_error ''codec can't decode: code point not in range(0x110000)''))"
| "utf32_decode be _ = Inl (decode_error ''codec can't decode: truncated data'')"

text \<open>\<open>detect_encoding\<close> and the decoding it selects.\<close>

definition decode_body :: "int list \<Rightarrow> exn + ustr" where
  "decode_body b =
     (if py_startswith [0, 0, 0xFE, 0xFF] b then utf32_decode True (drop 4 b)
      else if py_startswith [0xFF, 0xFE, 0, 0] b then utf32_decode False (drop 4 b)
      else if py_startswith [0xFE, 0xFF] b then map_sum id join_pairs (utf16_decode True (drop 2 b))
      else if py_startswith [0xFF, 0xFE] b then map_sum id join_pairs (utf16_decode False (drop 2 b))
      else if py_startswith [0xEF, 0xBB, 0xBF] b then utf8_decode_pass (drop 3 b)
      else case b of
        b0 # b1 # b2 # b3 # _ \<Rightarrow>
          if b0 = 0 then (if b1 \<noteq> 0 then map_sum id join_pairs (utf16_decode True b) else utf32_decode True b)
          else if b1 = 0 then
            (if b2 \<noteq> 0 \<or> b3 \<noteq> 0 then map_sum id join_pairs (utf16_decode False b)
             else utf32_decode False b)
          else utf8_decode_pass b
      | [b0, b1] \<Rightarrow>
          if b0 = 0 then map_sum id join_pairs (utf16_decode True b)
          else if b1 = 0 then map_sum id join_pairs (utf16_decode False b)
          else utf8_decode_pass b
      | _ \<Rightarrow> utf8_decode_pass b)"

text \<open>\<open>json.loads(raw)\<close> for a \<open>bytes\<close> object.\<close>

definition json_loads :: "interp \<Rightarrow> bytes \<Rightarrow> exn + json" where
  "json_loads py raw = (case decode_body (us raw) of Inl e \<Rightarrow> Inl e | Inr s \<Rightarrow> loads_str py s)"

lemma decode_body_ascii:
  assumes "ascii b" and "0 \<notin> set b"
  shows "decode_body b = Inr b"
  using assms by (auto simp: decode_body_def py_startswith_def split: list.splits)

section \<open>Reading what was written\<close>

text \<open>
  \<open>readable py d j\<close>: the value can be read back with nesting at most \<open>d\<close>. Strings are
  sequences of characters (no lone surrogates), integers are within the interpreter's
  digit limit, floats are in the form the interpreter writes, names do not repeat.
\<close>

definition float_text :: "interp \<Rightarrow> ftext \<Rightarrow> bool" where
  "float_text py t \<longleftrightarrow>
     t = FText (us ''NaN'') \<or> t = FText (us ''Infinity'') \<or> t = FText (us ''-Infinity'')
     \<or> scan_number py (ftext_str t) = Inr (JFloat t, [])"

lemma ftext_const [simp]:
  "ftext_str (FText (us ''NaN'')) = us ''NaN''"
  "ftext_str (FText (us ''Infinity'')) = us ''Infinity''"
  "ftext_str (FText (us ''-Infinity'')) = us ''-Infinity''"
  by (rule ftext_str_FText, simp add: us_Cons)+

fun readable :: "interp \<Rightarrow> nat \<Rightarrow> json \<Rightarrow> bool" where
  "readable py d (JInt i) \<longleftrightarrow> \<bar>i\<bar> < 10 ^ int_max_str_digits"
| "readable py d (JFloat t) \<longleftrightarrow> float_text py t"
| "readable py d (JStr s) \<longleftrightarrow> list_all is_scalar s"
| "readable py d (JArr xs) \<longleftrightarrow> (case d of 0 \<Rightarrow> False | Suc e \<Rightarrow> list_all (readable py e) xs)"
| "readable py d (JObj kvs) \<longleftrightarrow>
     (case d of 0 \<Rightarrow> False
      | Suc e \<Rightarrow> distinct (keys kvs)
          \<and> list_all (\<lambda>kv. list_all is_scalar (fst kv) \<and> readable py e (snd kv)) kvs)"
| "readable py d _ \<longleftrightarrow> True"

definition delim :: "ustr \<Rightarrow> bool" where
  "delim r \<longleftrightarrow> r = [] \<or> hd r \<in> {10, 44, 93, 125}"

lemma delim_simps [simp]: "delim []" "delim (c # r) \<longleftrightarrow> c \<in> {10, 44, 93, 125}"
  by (auto simp: delim_def)

text \<open>Strings.\<close>

lemma hexl_props:
  assumes "0 \<le> n" and "n < 16"
  shows "is_hex (hexl n)" "hex_value (hexl n) = n"
  using assms by (auto simp: is_hex_def hexl_def hex_value_def)

lemma u_escape_u_esc:
  assumes "0 \<le> n" and "n < 0x10000"
  shows "u_escape (drop 2 (u_esc n) @ t) = Some (n, t)"
proof -
  define a b c d where "a = n div 4096 mod 16" and "b = n div 256 mod 16" and "c = n div 16 mod 16"
    and "d = n mod 16"
  have a: "a = n div 4096" "0 \<le> a" "a < 16" using assms by (auto simp: a_def)
  note a(2,3)
  moreover have "0 \<le> b" "b < 16" "0 \<le> c" "c < 16" "0 \<le> d" "d < 16"
    by (auto simp: b_def c_def d_def)
  moreover have "4096 * a + 256 * b + 16 * c + d = n"
  proof -
    have "n = 16 * (n div 16) + d" by (simp add: d_def)
    moreover have "n div 16 = 16 * (n div 256) + c"
      using mult_div_mod_eq [of 16 "n div 16"] by (simp add: c_def flip: zdiv_zmult2_eq)
    moreover have "n div 256 = 16 * a + b"
      using mult_div_mod_eq [of 16 "n div 256"] by (simp add: a(1) b_def flip: zdiv_zmult2_eq)
    ultimately show ?thesis by linarith
  qed
  ultimately show ?thesis
    unfolding u_esc_def u_escape_def a_def [symmetric] b_def [symmetric] c_def [symmetric]
      d_def [symmetric]
    by (simp add: hexl_props)
qed

lemma scan_string_u_esc:
  assumes "0 \<le> n" and "n < 0x10000"
  shows "scan_string (u_esc n @ t) =
    (if is_high n then
       (case low_follows t of
          Some (m, r) \<Rightarrow> cons_res (0x10000 + (n - 0xD800) * 1024 + (m - 0xDC00)) (scan_string r)
        | None \<Rightarrow> cons_res n (scan_string t))
     else cons_res n (scan_string t))"
proof -
  have "u_esc n @ t = 92 # 117 # drop 2 (u_esc n) @ t" by (simp add: u_esc_def)
  then show ?thesis using u_escape_u_esc [OF assms, of t] by (simp only:) simp
qed

lemma low_follows_u_esc:
  assumes "0xDC00 \<le> m" and "m \<le> 0xDFFF"
  shows "low_follows (u_esc m @ t) = Some (m, t)"
proof -
  have "u_escape (drop 2 (u_esc m @ t)) = Some (m, t)"
    using u_escape_u_esc [of m t] assms by (simp add: u_esc_def)
  moreover have "py_startswith [92, 117] (u_esc m @ t)"
    by (simp add: u_esc_def py_startswith_def)
  ultimately show ?thesis using assms by (simp add: low_follows_def is_low_def)
qed

lemma scan_string_esc_char:
  assumes "is_scalar c"
  shows "scan_string (esc_char c @ t) = cons_res c (scan_string t)"
proof -
  have c: "0 \<le> c" "c < 0x110000" "\<not> is_high c"
    using assms by (auto simp: is_scalar_def is_surrogate_def is_high_def)
  consider "c \<in> {34, 92, 10, 13, 9, 12, 8}" | "c \<notin> {34, 92}" "32 \<le> c" "c \<le> 126"
    | "c \<notin> {34, 92, 10, 13, 9, 12, 8}" "\<not> (32 \<le> c \<and> c \<le> 126)" "c < 0x10000"
    | "0x10000 \<le> c"
    by force
  then show ?thesis
  proof cases
    case 1
    then show ?thesis by (auto simp: esc_char_def simple_escape_def)
  next
    case 2
    then show ?thesis by (simp add: esc_char_def)
  next
    case 3
    then have "esc_char c = u_esc c" by (auto simp: esc_char_def)
    with 3 c show ?thesis by (simp add: scan_string_u_esc del: scan_string.simps)
  next
    case 4
    define h l where "h = 0xD800 + (c - 0x10000) div 1024" and "l = 0xDC00 + (c - 0x10000) mod 1024"
    have b: "0xD800 \<le> h" "h \<le> 0xDBFF" "0xDC00 \<le> l" "l \<le> 0xDFFF"
      using surrogate_halves(2-) [OF 4 c(2)] by (simp_all add: h_def l_def)
    have "0x10000 + (h - 0xD800) * 1024 + (l - 0xDC00) = c"
      unfolding h_def l_def by (simp add: mult.commute)
    moreover have "esc_char c = u_esc h @ u_esc l"
      using 4 surrogate_halves(1) [OF 4 c(2)] by (simp add: esc_char_def h_def l_def)
    ultimately show ?thesis
      using b by (simp add: scan_string_u_esc low_follows_u_esc is_high_def del: scan_string.simps)
  qed
qed

lemma scan_string_quote:
  "list_all is_scalar s \<Longrightarrow> scan_string (concat (map esc_char s) @ 34 # r) = Inr (s, r)"
proof (induction s)
  case (Cons c s)
  then show ?case
    using scan_string_esc_char [of c "concat (map esc_char s) @ 34 # r"] by simp
qed simp

text \<open>Numbers: what follows them, a delimiter, is not taken for part of them.\<close>

lemma delim_not_digit: "delim r \<Longrightarrow> r = [] \<or> \<not> is_digit (hd r)"
  by (auto simp: delim_def is_digit_def)

lemma takeWhile_delim: "delim r \<Longrightarrow> takeWhile is_digit (s @ r) = takeWhile is_digit s"
  using delim_not_digit [of r] by (induction s) (cases r; auto)+

lemma dropWhile_delim: "delim r \<Longrightarrow> dropWhile is_digit (s @ r) = dropWhile is_digit s @ r"
  using delim_not_digit [of r] by (induction s) (cases r; auto)+

lemma scan_int_delim:
  "delim r \<Longrightarrow> scan_int s = Some (ip, q) \<Longrightarrow> scan_int (s @ r) = Some (ip, q @ r)"
  by (cases s) (auto simp: scan_int_def takeWhile_delim dropWhile_delim split: if_splits)

lemma scan_frac_delim:
  assumes "delim r"
  shows "scan_frac (s @ r) = (fst (scan_frac s), snd (scan_frac s) @ r)"
proof (cases s)
  case Nil
  with assms show ?thesis by (cases r) (auto simp: scan_frac_def delim_def split: list.splits)
next
  case s: (Cons a t)
  show ?thesis
  proof (cases t)
    case Nil
    with assms s show ?thesis
      by (cases r) (auto simp: scan_frac_def delim_def is_digit_def split: list.splits)
  next
    case (Cons b u)
    with assms s show ?thesis
      by (auto simp: scan_frac_def takeWhile_delim dropWhile_delim)
  qed
qed

lemma exp_sign_delim:
  "delim r \<Longrightarrow> exp_sign (s @ r) = (fst (exp_sign s), snd (exp_sign s) @ r)"
  by (cases s; cases r) (auto simp: exp_sign_def delim_def)

lemma scan_exp_delim:
  assumes "delim r"
  shows "scan_exp (s @ r) = (fst (scan_exp s), snd (scan_exp s) @ r)"
proof (cases s)
  case Nil
  with assms show ?thesis by (cases r) (auto simp: scan_exp_def delim_def)
next
  case (Cons a t)
  obtain sg ds where "exp_sign t = (sg, ds)" by fastforce
  with Cons assms show ?thesis
    by (simp add: scan_exp_def exp_sign_delim takeWhile_delim dropWhile_delim)
qed

lemma scan_number_delim:
  assumes d: "delim r" and n: "scan_number py s = Inr (v, q)"
  shows "scan_number py (s @ r) = Inr (v, q @ r)"
proof -
  define neg where "neg = py_startswith [45] s"
  define s' where "s' = (if neg then tl s else s)"
  from n obtain ip r1 where ip: "scan_int s' = Some (ip, r1)"
    by (auto simp: scan_number_def Let_def s'_def neg_def split: option.splits)
  have neg': "py_startswith [45] (s @ r) = neg" "(if neg then tl (s @ r) else s @ r) = s' @ r"
    using ip d by (cases s; cases r; auto simp: neg_def s'_def py_startswith_def scan_int_def)+
  obtain fr r2 where fr: "scan_frac r1 = (fr, r2)" by fastforce
  obtain ex r3 where ex: "scan_exp r2 = (ex, r3)" by fastforce
  have "scan_frac (r1 @ r) = (fr, r2 @ r)" using scan_frac_delim [OF d, of r1] fr by simp
  moreover have "scan_exp (r2 @ r) = (ex, r3 @ r)" using scan_exp_delim [OF d, of r2] ex by simp
  ultimately show ?thesis
    using n ip fr ex scan_int_delim [OF d ip]
    unfolding scan_number_def Let_def neg_def [symmetric] neg' s'_def [symmetric]
    by (auto split: if_splits)
qed

lemma scan_number_head:
  assumes "scan_number py s = Inr (v, q)"
  shows "\<exists>c u. s = c # u \<and> (is_digit c \<or> c = 45 \<and> (\<exists>d w. u = d # w \<and> is_digit d))"
proof -
  have dig: "scan_int t = Some x \<Longrightarrow> \<exists>d w. t = d # w \<and> is_digit d" for t x
    by (cases t) (auto simp: scan_int_def is_digit_def split: if_splits)
  from assms obtain x where x: "scan_int (if py_startswith [45] s then tl s else s) = Some x"
    by (auto simp: scan_number_def Let_def split: option.splits)
  show ?thesis
  proof (cases "py_startswith [45] s")
    case True
    then obtain u where "s = 45 # u" by (auto simp: py_startswith_iff)
    with x True dig show ?thesis by auto
  next
    case False
    with x have "scan_int s = Some x" by simp
    from dig [OF this] show ?thesis by auto
  qed
qed

lemma scan_const_number:
  assumes "is_digit c \<or> c = 45 \<and> (\<exists>d w. u = d # w \<and> is_digit d)"
  shows "scan_const (c # u) = None"
  using assms by (auto simp: scan_const_def py_startswith_def us_Cons is_digit_def)

lemma scan_value_number:
  assumes "scan_number py s = Inr (v, q)"
  shows "scan_value py d s = Inr (v, q)"
proof -
  from scan_number_head [OF assms] obtain c u where s: "s = c # u"
    and c: "is_digit c \<or> c = 45 \<and> (\<exists>d w. u = d # w \<and> is_digit d)" by blast
  have "c \<noteq> 34" "c \<noteq> 123" "c \<noteq> 91" using c by (auto simp: is_digit_def)
  with s scan_const_number [OF c] assms show ?thesis by simp
qed

lemma scan_int_digits:
  assumes "0 \<le> i"
  shows "scan_int (dec_digits (nat i)) = Some (dec_digits (nat i), [])"
proof -
  let ?ds = "dec_digits (nat i)"
  have all: "takeWhile is_digit ?ds = ?ds" "dropWhile is_digit ?ds = []"
    by (simp_all add: takeWhile_eq_all_conv dropWhile_eq_Nil_conv dec_digits_digits)
  obtain c u where cu: "?ds = c # u" by (cases ?ds) auto
  have c: "is_digit c" using dec_digits_digits [of c "nat i"] cu by simp
  have "c = 48 \<longrightarrow> u = []"
    using cu
  proof (induction "nat i" arbitrary: i c u rule: less_induct)
    case less
    show ?case
    proof (cases "nat i < 10")
      case True
      with less.prems show ?thesis by (subst (asm) dec_digits.simps) auto
    next
      case False
      then have lt: "nat i div 10 < nat i" and pos: "0 < nat i div 10" by auto
      obtain c' u' where c': "dec_digits (nat i div 10) = c' # u'"
        by (cases "dec_digits (nat i div 10)") auto
      have "dec_digits (nat i) = dec_digits (nat i div 10) @ [48 + int (nat i mod 10)]"
        using False by (subst dec_digits.simps) simp
      with c' less.prems have "c = c'" by simp
      moreover have "c' = 48 \<longrightarrow> u' = []"
        using less.hyps [of "int (nat i div 10)" c' u'] lt c' by simp
      moreover have "c' = 48 \<Longrightarrow> u' = [] \<Longrightarrow> False"
        using digits_value_dec [of "nat i div 10"] c' pos by (simp add: digits_value_def)
      ultimately show ?thesis by blast
    qed
  qed
  with all cu c show ?thesis by (auto simp: scan_int_def)
qed

lemma scan_number_str_int:
  assumes "\<bar>i\<bar> < 10 ^ int_max_str_digits"
  shows "scan_number py (str_int i) = Inr (JInt i, [])"
proof -
  let ?ds = "dec_digits (nat \<bar>i\<bar>)"
  have "int (nat \<bar>i\<bar>) < 10 ^ int_max_str_digits" using assms by simp
  then have n: "nat \<bar>i\<bar> < 10 ^ int_max_str_digits"
    by (simp only: of_nat_less_numeral_power_cancel_iff)
  have len: "length ?ds \<le> int_max_str_digits"
    using n by (rule length_dec_digits) (simp add: int_max_str_digits_def)
  have sc: "scan_int ?ds = Some (?ds, [])" using scan_int_digits [of "\<bar>i\<bar>"] by simp
  have "\<not> py_startswith [45] ?ds"
    using dec_digits_digits [of 45 "nat \<bar>i\<bar>"] by (auto simp: py_startswith_iff is_digit_def)
  with sc len show ?thesis
    by (cases "i < 0")
      (simp_all add: str_int_def scan_number_def scan_frac_def scan_exp_def py_startswith_def)
qed

text \<open>Values. No value starts with white space or with a closing bracket.\<close>

lemma readable_head:
  assumes "readable py d j"
  shows "\<exists>c u. dumps j = c # u \<and> \<not> json_ws c \<and> c \<noteq> 93 \<and> c \<noteq> 125"
proof (cases j)
  case (JInt i)
  with assms have "scan_number py (dumps j) = Inr (JInt i, [])"
    by (simp add: scan_number_str_int)
  from scan_number_head [OF this] show ?thesis by (auto simp: is_digit_def json_ws_def)
next
  case (JFloat t)
  then have "t = FText (us ''NaN'') \<or> t = FText (us ''Infinity'') \<or> t = FText (us ''-Infinity'')
      \<or> scan_number py (ftext_str t) = Inr (JFloat t, [])"
    using assms by (simp add: float_text_def)
  then show ?thesis
  proof (elim disjE)
    assume "scan_number py (ftext_str t) = Inr (JFloat t, [])"
    from scan_number_head [OF this] JFloat show ?thesis by (auto simp: is_digit_def json_ws_def)
  qed (use JFloat in \<open>auto simp: us_Cons json_ws_def\<close>)
qed (auto simp: us_Cons json_ws_def json_quote_def)

lemma skip_ws_value: "readable py d j \<Longrightarrow> skip_ws (dumps j @ r) = dumps j @ r"
  using readable_head [of py d j] by (auto simp: skip_ws_def)

lemma scan_value_const:
  "scan_value py d (us ''null'' @ r) = Inr (JNull, r)"
  "scan_value py d (us ''true'' @ r) = Inr (JBool True, r)"
  "scan_value py d (us ''false'' @ r) = Inr (JBool False, r)"
  "scan_value py d (us ''NaN'' @ r) = Inr (JFloat (FText (us ''NaN'')), r)"
  "scan_value py d (us ''Infinity'' @ r) = Inr (JFloat (FText (us ''Infinity'')), r)"
  "scan_value py d (us ''-Infinity'' @ r) = Inr (JFloat (FText (us ''-Infinity'')), r)"
  by (simp_all add: us_Cons scan_const_def py_startswith_def)

lemma dict_of_distinct: "distinct (keys kvs) \<Longrightarrow> dict_of kvs = kvs"
proof -
  have "distinct (keys (d @ kvs)) \<Longrightarrow>
      foldl (\<lambda>d kv. AList.update (fst kv) (snd kv) d) d kvs = d @ kvs" for d
  proof (induction kvs arbitrary: d)
    case (Cons kv kvs)
    have "fst kv \<notin> set (keys d)" using Cons.prems by auto
    then have "AList.update (fst kv) (snd kv) d = d @ [kv]"
      by (induction d) auto
    with Cons.IH [of "d @ [kv]"] Cons.prems show ?case by simp
  qed simp
  from this [of "[]"] show "distinct (keys kvs) \<Longrightarrow> dict_of kvs = kvs"
    by (simp add: dict_of_def)
qed

lemma scan_elems_last:
  "scan_value py d s = Inr (v, 93 # r) \<Longrightarrow> scan_elems py d s = Inr ([v], r)"
  by (subst scan_elems.simps) (simp add: skip_ws_def json_ws_def)

lemma scan_elems_more:
  assumes "scan_value py d s = Inr (v, 44 # 32 # t)" and "skip_ws t = t" and "length t < length s"
  shows "scan_elems py d s = map_sum id (map_prod (Cons v) id) (scan_elems py d t)"
proof -
  have "skip_ws (44 # 32 # t) = 44 # 32 # t" "skip_ws (32 # t) = t"
    using assms(2) by (simp_all add: skip_ws_def json_ws_def)
  with assms show ?thesis by (subst scan_elems.simps) simp
qed

lemma scan_members_step:
  assumes k: "list_all is_scalar k" and sk: "skip_ws s = s"
    and v: "scan_value py d s = Inr (v, r)"
  shows "scan_members py d (json_quote k @ [58, 32] @ s) =
     (case skip_ws r of
        c # t \<Rightarrow>
          if c = 125 then Inr ([(k, v)], t)
          else if c = 44 \<and> length (skip_ws t) < length (concat (map esc_char k) @ 34 # 58 # 32 # s)
            then map_sum id (map_prod (Cons (k, v)) id) (scan_members py d (skip_ws t))
          else Inl (decode_error ''Expecting , delimiter'')
      | [] \<Rightarrow> Inl (decode_error ''Expecting , delimiter''))"
proof -
  let ?q = "concat (map esc_char k)"
  have eq: "json_quote k @ [58, 32] @ s = 34 # (?q @ 34 # 58 # 32 # s)"
    by (simp add: json_quote_def)
  have str: "scan_string (?q @ 34 # 58 # 32 # s) = Inr (k, 58 # 32 # s)"
    using scan_string_quote [OF k] by simp
  have ws: "skip_ws (58 # 32 # s) = 58 # 32 # s" "skip_ws (32 # s) = s"
    using sk by (simp_all add: skip_ws_def json_ws_def)
  show ?thesis
    unfolding eq scan_members.simps str by (simp add: ws v py_startswith_def)
qed

lemma scan_dumps:
  "readable py d j \<Longrightarrow> delim r \<Longrightarrow> scan_value py d (dumps j @ r) = Inr (j, r)"
  "xs \<noteq> [] \<Longrightarrow> list_all (readable py d) xs \<Longrightarrow>
     scan_elems py d (dumps_elems xs @ 93 # r) = Inr (xs, r)"
  "kvs \<noteq> [] \<Longrightarrow> list_all (\<lambda>kv. list_all is_scalar (fst kv) \<and> readable py d (snd kv)) kvs \<Longrightarrow>
     scan_members py d (dumps_items kvs @ 125 # r) = Inr (kvs, r)"
proof (induction j and xs and kvs arbitrary: d r and d r and d r
    rule: dumps_dumps_elems_dumps_items.induct)
  case (3 i)
  then have "scan_number py (str_int i) = Inr (JInt i, [])" by (simp add: scan_number_str_int)
  from scan_number_delim [OF "3.prems"(2) this] show ?case by (simp add: scan_value_number)
next
  case (4 t)
  then consider "t = FText (us ''NaN'')" | "t = FText (us ''Infinity'')" | "t = FText (us ''-Infinity'')"
    | "scan_number py (ftext_str t) = Inr (JFloat t, [])"
    by (auto simp: float_text_def)
  then show ?case
  proof cases
    case 4
    from scan_number_delim [OF "4.prems"(2) 4] show ?thesis by (simp add: scan_value_number)
  qed (simp_all only: dumps.simps ftext_const scan_value_const)
next
  case (5 s)
  then show ?case by (simp add: json_quote_def scan_string_quote)
next
  case (6 xs)
  then obtain e where d: "d = Suc e" and xs: "list_all (readable py e) xs"
    by (cases d) auto
  show ?case
  proof (cases xs)
    case Nil
    then show ?thesis by (simp add: d skip_ws_def json_ws_def py_startswith_def)
  next
    case (Cons x ys)
    then have x: "readable py e x" using xs by simp
    have ws: "skip_ws (dumps_elems xs @ 93 # r) = dumps_elems xs @ 93 # r"
      using skip_ws_value [OF x] Cons by simp
    have "\<not> py_startswith [93] (dumps_elems xs @ 93 # r)"
      using readable_head [OF x] Cons by (auto simp: py_startswith_def)
    moreover have "scan_elems py e (dumps_elems xs @ 93 # r) = Inr (xs, r)"
      using "6.IH" xs Cons by simp
    ultimately show ?thesis by (simp add: d ws)
  qed
next
  case (7 kvs)
  then obtain e where d: "d = Suc e" and dist: "distinct (keys kvs)"
    and kvs: "list_all (\<lambda>kv. list_all is_scalar (fst kv) \<and> readable py e (snd kv)) kvs"
    by (cases d) auto
  show ?case
  proof (cases kvs)
    case Nil
    then show ?thesis by (simp add: d skip_ws_def json_ws_def py_startswith_def)
  next
    case (Cons kv ys)
    then obtain u where u: "dumps_items kvs @ 125 # r = 34 # u"
      by (cases kv) (simp add: json_quote_def)
    have "scan_members py e (dumps_items kvs @ 125 # r) = Inr (kvs, r)"
      using "7.IH" kvs Cons by simp
    then show ?thesis
      using u dict_of_distinct [OF dist]
      by (simp add: d skip_ws_def json_ws_def py_startswith_def del: scan_members.simps)
  qed
next
  case (9 x xs)
  then have x: "readable py d x" by simp
  show ?case
  proof (cases "xs = []")
    case True
    with "9.IH"(1) [OF x, of "93 # r"] show ?thesis by (simp add: scan_elems_last)
  next
    case False
    then obtain y ys where xs: "xs = y # ys" by (cases xs) auto
    let ?t = "dumps_elems xs @ 93 # r"
    have "skip_ws ?t = ?t"
      using skip_ws_value [of py d y] "9.prems" xs by simp
    moreover have "scan_value py d (dumps x @ 44 # 32 # ?t) = Inr (x, 44 # 32 # ?t)"
      using "9.IH"(1) [OF x] by simp
    ultimately have "scan_elems py d (dumps x @ 44 # 32 # ?t)
        = map_sum id (map_prod (Cons x) id) (scan_elems py d ?t)"
      by (intro scan_elems_more) simp_all
    with "9.IH"(2) "9.prems" False show ?thesis by simp
  qed
next
  case (11 k v kvs)
  then have k: "list_all is_scalar k" and v: "readable py d v" by simp_all
  show ?case
  proof (cases "kvs = []")
    case True
    have "scan_value py d (dumps v @ 125 # r) = Inr (v, 125 # r)" using "11.IH"(1) [OF v] by simp
    from scan_members_step [OF k skip_ws_value [OF v] this] True show ?thesis
      by (simp add: skip_ws_def json_ws_def del: scan_members.simps)
  next
    case False
    let ?t = "dumps_items kvs @ 125 # r"
    obtain u where "?t = 34 # u" using False by (cases kvs) (auto simp: json_quote_def)
    then have ws: "skip_ws (32 # ?t) = ?t" by (simp add: skip_ws_def json_ws_def)
    have "scan_value py d (dumps v @ 44 # 32 # ?t) = Inr (v, 44 # 32 # ?t)"
      using "11.IH"(1) [OF v] by simp
    from scan_members_step [OF k skip_ws_value [OF v] this]
    have "scan_members py d (json_quote k @ [58, 32] @ dumps v @ 44 # 32 # ?t)
        = map_sum id (map_prod (Cons (k, v)) id) (scan_members py d ?t)"
      using ws by (simp add: skip_ws_def json_ws_def del: scan_members.simps)
    with "11.IH"(2) "11.prems" False show ?thesis by (simp del: scan_members.simps)
  qed
qed (simp_all add: scan_value_const [of py _ r for r] del: scan_value.simps)

lemma loads_dumps:
  assumes "readable py (json_depth py) j"
  shows "loads_str py (dumps j) = Inr j"
  using scan_dumps(1) [OF assms, of "[]"] skip_ws_value [OF assms, of "[]"]
  by (simp add: loads_str_def skip_ws_def)

lemma json_loads_dumps:
  assumes "readable py (json_depth py) j"
  shows "json_loads py (to_bytes (dumps j)) = Inr j"
proof -
  have "0 \<notin> set (dumps j)"
    using printable_dumps(1) [of j] by (auto simp: printable_def list_all_iff)
  then have "decode_body (dumps j) = Inr (dumps j)"
    by (rule decode_body_ascii [OF ascii_dumps])
  with loads_dumps [OF assms] show ?thesis by (simp add: json_loads_def)
qed

text \<open>A response body is a value and a newline.\<close>

lemma loads_dumps_line:
  assumes "readable py (json_depth py) j"
  shows "loads_str py (dumps j @ [10]) = Inr j"
  using scan_dumps(1) [OF assms, of "[10]"] skip_ws_value [OF assms, of "[10]"]
  by (simp add: loads_str_def skip_ws_def json_ws_def)

lemma json_loads_dumps_line:
  assumes "readable py (json_depth py) j"
  shows "json_loads py (to_bytes (dumps j @ [10])) = Inr j"
proof -
  have "0 \<notin> set (dumps j @ [10])"
    using printable_dumps(1) [of j] by (auto simp: printable_def list_all_iff)
  moreover have "ascii (dumps j @ [10])" using ascii_dumps by simp
  ultimately have "decode_body (dumps j @ [10]) = Inr (dumps j @ [10])"
    by (intro decode_body_ascii)
  moreover have "us (to_bytes (dumps j @ [10])) = dumps j @ [10]"
    using \<open>ascii (dumps j @ [10])\<close> by (rule us_to_bytes_ascii)
  ultimately show ?thesis by (simp only: json_loads_def sum.case loads_dumps_line [OF assms])
qed

interpretation json_text:
  codec "\<lambda>j. to_bytes (dumps j)" "json_loads py" "readable py (json_depth py)" for py
  by unfold_locales (rule json_loads_dumps)

section \<open>What reading may raise\<close>

text \<open>
  Every failure is a \<open>ValueError\<close> except running out of nesting depth, which is a
  \<open>RecursionError\<close>.
\<close>

fun json_fault :: "exn \<Rightarrow> bool" where
  "json_fault (ValueError _) = True"
| "json_fault (RecursionError _) = True"
| "json_fault _ = False"

lemma cons_res_eq_Inl: "cons_res c x = Inl e \<longleftrightarrow> x = Inl e"
  by (cases x) (auto simp: cons_res_def)

lemma scan_string_fault: "scan_string s = Inl e \<Longrightarrow> json_fault e"
  by (induction s rule: scan_string.induct)
    (auto simp: cons_res_eq_Inl split: if_splits list.splits option.splits prod.splits)

lemma scan_number_fault: "scan_number py s = Inl e \<Longrightarrow> json_fault e"
  by (auto simp: scan_number_def Let_def split: option.splits prod.splits if_splits sum.splits
      dest: py_int_error elim!: is_ValueError.elims)

lemma scan_fault:
  "scan_value py depth s = Inl e \<Longrightarrow> json_fault e"
  "scan_elems py depth s = Inl e \<Longrightarrow> json_fault e"
  "scan_members py depth s = Inl e \<Longrightarrow> json_fault e"
proof (induction py depth s and py depth s and py depth s
    rule: scan_value_scan_elems_scan_members.induct)
  case (2 py depth c s)
  then show ?case
    by (auto simp: map_sum_Inl split: if_splits nat.splits option.splits
        dest: scan_string_fault scan_number_fault)
next
  case (3 py depth s)
  then show ?case
    by (subst (asm) scan_elems.simps)
      (auto simp: map_sum_Inl split: if_splits list.splits sum.splits)
next
  case (5 py depth q s)
  then show ?case
    by (auto simp: map_sum_Inl split: if_splits list.splits sum.splits dest: scan_string_fault)
qed auto

lemma utf16_fault: "utf16_decode be b = Inl e \<Longrightarrow> json_fault e"
  by (induction be b rule: utf16_decode.induct) (auto simp: map_sum_Inl Let_def)

lemma utf32_fault: "utf32_decode be b = Inl e \<Longrightarrow> json_fault e"
  by (induction be b rule: utf32_decode.induct) (auto simp: map_sum_Inl Let_def split: if_splits)

lemma utf8_pass_fault: "utf8_decode_pass b = Inl e \<Longrightarrow> json_fault e"
proof (induction b rule: utf8_decode_pass.induct)
  case (1 s)
  from "1.prems" show ?case
    by (subst (asm) utf8_decode_pass.simps)
      (auto simp: map_sum_Inl split: if_splits option.splits prod.splits intro: "1.IH")
qed

lemma json_loads_fault:
  assumes "json_loads py raw = Inl e"
  shows "json_fault e"
proof -
  have "decode_body b = Inl e \<Longrightarrow> json_fault e" for b
    unfolding decode_body_def
    by (auto simp: map_sum_Inl split: if_splits list.splits
        simp del: utf16_decode.simps utf32_decode.simps
        dest: utf16_fault utf32_fault utf8_pass_fault)
  moreover have "loads_str py t = Inl e \<Longrightarrow> json_fault e" for t
    by (auto simp: loads_str_def split: sum.splits if_splits dest: scan_fault(1))
  ultimately show ?thesis
    using assms by (auto simp: json_loads_def split: sum.splits)
qed

text \<open>A document of opening brackets is too deep as soon as they outnumber the limit.\<close>

lemma scan_brackets:
  "\<exists>m. scan_value py d (replicate (Suc d) 91 @ r) = Inl (RecursionError m)"
proof (induction d)
  case (Suc d)
  then obtain m where m: "scan_value py d (replicate (Suc d) 91 @ r) = Inl (RecursionError m)" by blast
  have "skip_ws (replicate (Suc d) 91 @ r) = replicate (Suc d) 91 @ r"
    by (simp add: skip_ws_def json_ws_def)
  moreover have "scan_elems py d (replicate (Suc d) 91 @ r) = Inl (RecursionError m)"
    using m by (subst scan_elems.simps) simp
  ultimately have "scan_value py (Suc d) (91 # replicate (Suc d) 91 @ r) = Inl (RecursionError m)"
    by (simp add: py_startswith_def)
  then show ?case by auto
qed simp

lemma json_loads_brackets:
  "\<exists>m. json_loads py (replicate (Suc (json_depth py)) (CHR ''['')) = Inl (RecursionError m)"
proof -
  let ?s = "replicate (Suc (json_depth py)) (91 :: int)"
  have "us (replicate (Suc (json_depth py)) (CHR ''['')) = ?s"
    by (simp add: us_def)
  moreover have "decode_body ?s = Inr ?s"
    by (rule decode_body_ascii) (auto simp: ascii_iff)
  moreover have "skip_ws ?s = ?s" by (simp add: skip_ws_def json_ws_def)
  moreover obtain m where "scan_value py (json_depth py) (?s @ []) = Inl (RecursionError m)"
    using scan_brackets by blast
  ultimately show ?thesis by (simp add: json_loads_def loads_str_def)
qed

end
