(* ===== verification/Http.thy ===== *)
theory Http
  imports JsonLoads
begin

text \<open>
  The part of \<open>http.server.BaseHTTPRequestHandler\<close> both handlers of the repository are
  written against: the request's body stream, the header buffer, the socket writer, and
  \<open>send_response\<close>, \<open>send_header\<close>, \<open>end_headers\<close> and \<open>send_error\<close>. A connection is a
  record; a handler's own state extends it.
\<close>

section \<open>A connection\<close>

text \<open>
  What the client has sent and is not read yet, and what happens when that runs out: the
  client closed its side, sends nothing more (the socket timeout then fires), or reset the
  connection.
\<close>

datatype read_end = Peer_EOF | Peer_stalls | Peer_resets

datatype stream = Stdout | Stderr

text \<open>
  \<open>wfaults\<close> is the fate of the next writes: \<open>None\<close> (or an empty list) is a write that
  completes, \<open>Some (n, e)\<close> one that raises \<open>e\<close> after \<open>n\<close> bytes. \<open>client_host\<close> is the
  first component of a TCP peer address; a unix peer has none.
\<close>

record conn =
  request_version :: ustr
  requestline :: ustr
  client_host :: "ustr option"
  rfile :: bytes
  rend :: read_end
  hbuf :: bytes
  sent :: bytes
  wfaults :: "(nat \<times> exn) option list"
  logs :: "(stream \<times> ustr) list"
  close_connection :: bool

definition http09 :: "'a conn_scheme \<Rightarrow> bool" where
  "http09 c \<longleftrightarrow> request_version c = us ''HTTP/0.9''"

definition rfile_read :: "nat \<Rightarrow> ('a conn_scheme, bytes) prog" where
  "rfile_read n c =
     (if n \<le> length (rfile c) then (Inr (take n (rfile c)), c\<lparr>rfile := drop n (rfile c)\<rparr>)
      else (case rend c of
              Peer_EOF \<Rightarrow> (Inr (rfile c), c\<lparr>rfile := []\<rparr>)
            | Peer_stalls \<Rightarrow> (Inl (OSError TimeoutError None (us ''timed out'')), c\<lparr>rfile := []\<rparr>)
            | Peer_resets \<Rightarrow>
                (Inl (OSError ConnectionResetError (Some 104) (us ''[Errno 104] Connection reset by peer'')),
                 c\<lparr>rfile := []\<rparr>)))"

definition wfile_write :: "bytes \<Rightarrow> ('a conn_scheme, unit) prog" where
  "wfile_write bs c =
     (case wfaults c of
        [] \<Rightarrow> (Inr (), c\<lparr>sent := sent c @ bs\<rparr>)
      | None # fs \<Rightarrow> (Inr (), c\<lparr>sent := sent c @ bs, wfaults := fs\<rparr>)
      | Some (n, e) # fs \<Rightarrow> (Inl e, c\<lparr>sent := sent c @ take n bs, wfaults := fs\<rparr>))"

definition log_lines :: "(stream \<times> ustr) list \<Rightarrow> ('a conn_scheme, unit) prog" where
  "log_lines ls = modify_p (\<lambda>c. c\<lparr>logs := logs c @ ls\<rparr>)"

section \<open>A handler class\<close>

text \<open>
  What a subclass overrides: its version text, and what \<open>log_message\<close> and \<open>log_error\<close>
  write for a message from a given peer.
\<close>

record hcls =
  server_version :: ustr
  message_lines :: "ustr \<Rightarrow> ustr \<Rightarrow> (stream \<times> ustr) list"
  error_lines :: "ustr \<Rightarrow> ustr \<Rightarrow> (stream \<times> ustr) list"

text \<open>\<open>address_string\<close>, the same in both handlers of the repository.\<close>

definition address_string :: "'a conn_scheme \<Rightarrow> ustr" where
  "address_string c = (case client_host c of Some h \<Rightarrow> h | None \<Rightarrow> us ''unix'')"

definition log_message_p :: "hcls \<Rightarrow> ustr \<Rightarrow> ('a conn_scheme, unit) prog" where
  "log_message_p cls m = (\<lambda>c. log_lines (message_lines cls (address_string c) m) c)"

definition log_error_p :: "hcls \<Rightarrow> ustr \<Rightarrow> ('a conn_scheme, unit) prog" where
  "log_error_p cls m = (\<lambda>c. log_lines (error_lines cls (address_string c) m) c)"

section \<open>Writing a response\<close>

text \<open>The reason phrases and explanations of \<open>http.HTTPStatus\<close> the sources use.\<close>

definition reason :: "nat \<Rightarrow> string" where
  "reason code =
     (if code = 200 then ''OK'' else if code = 201 then ''Created'' else if code = 202 then ''Accepted''
      else if code = 400 then ''Bad Request'' else if code = 401 then ''Unauthorized''
      else if code = 403 then ''Forbidden'' else if code = 404 then ''Not Found''
      else if code = 409 then ''Conflict'' else if code = 414 then ''Request-URI Too Long''
      else if code = 431 then ''Request Header Fields Too Large'' else if code = 500 then ''Internal Server Error''
      else if code = 501 then ''Not Implemented'' else if code = 503 then ''Service Unavailable''
      else if code = 504 then ''Gateway Timeout''
      else if code = 505 then ''HTTP Version Not Supported'' else '''')"

definition explanation :: "nat \<Rightarrow> string" where
  "explanation code =
     (if code = 400 then ''Bad request syntax or unsupported method''
      else if code = 401 then ''No permission -- see authorization schemes''
      else if code = 403 then ''Request forbidden -- authorization will not help''
      else if code = 414 then ''URI is too long''
      else if code = 431 then ''The server is unwilling to process the request because its header fields are too large''
      else if code = 500 then ''Server got itself in trouble''
      else if code = 501 then ''Server does not support this operation''
      else if code = 504 then ''The gateway server did not receive a timely response''
      else if code = 505 then ''Cannot fulfill request''
      else '''')"

definition crlf :: ustr where
  "crlf = [13, 10]"

definition buffer_line :: "ustr \<Rightarrow> ('a conn_scheme, unit) prog" where
  "buffer_line line =
     bind_p (lift_p (latin1_encode line)) (\<lambda>bs. modify_p (\<lambda>c. c\<lparr>hbuf := hbuf c @ bs\<rparr>))"

definition status_line :: "nat \<Rightarrow> ustr \<Rightarrow> ustr" where
  "status_line code message = us ''HTTP/1.0 '' @ str_int (int code) @ [32] @ message @ crlf"

definition header_line :: "ustr \<Rightarrow> ustr \<Rightarrow> ustr" where
  "header_line name v = name @ us '': '' @ v @ crlf"

definition send_response_only :: "nat \<Rightarrow> ustr option \<Rightarrow> ('a conn_scheme, unit) prog" where
  "send_response_only code message c =
     (if http09 c then (Inr (), c)
      else buffer_line
             (status_line code (case message of Some m \<Rightarrow> m | None \<Rightarrow> us (reason code))) c)"

definition ascii_lower :: "ustr \<Rightarrow> ustr" where
  "ascii_lower s = map (\<lambda>c. if 65 \<le> c \<and> c \<le> 90 then c + 32 else c) s"

definition note_connection :: "ustr \<Rightarrow> ustr \<Rightarrow> ('a conn_scheme, unit) prog" where
  "note_connection name v = modify_p (\<lambda>c.
     if ascii_lower name = us ''connection'' then
       (if ascii_lower v = us ''close'' then c\<lparr>close_connection := True\<rparr>
        else if ascii_lower v = us ''keep-alive'' then c\<lparr>close_connection := False\<rparr>
        else c)
     else c)"

definition send_header :: "ustr \<Rightarrow> ustr \<Rightarrow> ('a conn_scheme, unit) prog" where
  "send_header name v =
     seq_p (\<lambda>c. if http09 c then (Inr (), c) else buffer_line (header_line name v) c)
           (note_connection name v)"

definition end_headers :: "('a conn_scheme, unit) prog" where
  "end_headers c =
     (if http09 c then (Inr (), c)
      else seq_p (buffer_line crlf)
             (\<lambda>c. seq_p (wfile_write (hbuf c)) (modify_p (\<lambda>c. c\<lparr>hbuf := []\<rparr>)) c) c)"

text \<open>\<open>send_response\<close> logs the request line, then starts the header block.\<close>

definition request_log :: "nat \<Rightarrow> 'a conn_scheme \<Rightarrow> ustr" where
  "request_log code c = us ''\"'' @ requestline c @ us ''\" '' @ str_int (int code) @ us '' -''"

definition send_response :: "interp \<Rightarrow> hcls \<Rightarrow> nat \<Rightarrow> ustr option \<Rightarrow> ('a conn_scheme, unit) prog" where
  "send_response py cls code message =
     seq_p (\<lambda>c. log_message_p cls (request_log code c) c)
    (seq_p (send_response_only code message)
    (seq_p (send_header (us ''Server'') (server_version cls @ [32] @ sys_version py))
           (send_header (us ''Date'') (http_date py))))"

text \<open>
  \<open>send_error(code, message, explain)\<close>: the status line carries the message, the body repeats it
  as HTML with an explanation; the answer to a HEAD has no body.
\<close>

definition html_escape :: "ustr \<Rightarrow> ustr" where
  "html_escape s = concat (map (\<lambda>c. if c = 38 then us ''&amp;'' else if c = 60 then us ''&lt;''
      else if c = 62 then us ''&gt;'' else [c]) s)"

definition error_page :: "nat \<Rightarrow> ustr \<Rightarrow> ustr \<Rightarrow> ustr" where
  "error_page code message explain =
     us ''<!DOCTYPE HTML>\<newline><html lang=\"en\">\<newline>    <head>\<newline>'' @
     us ''        <meta charset=\"utf-8\">\<newline>        <title>Error response</title>\<newline>    </head>\<newline>'' @
     us ''    <body>\<newline>        <h1>Error response</h1>\<newline>        <p>Error code: '' @
     str_int (int code) @ us ''</p>\<newline>        <p>Message: '' @ html_escape message @
     us ''.</p>\<newline>        <p>Error code explanation: '' @ str_int (int code) @ us '' - '' @
     html_escape explain @ us ''.</p>\<newline>    </body>\<newline></html>\<newline>''"

definition encode_replace :: "ustr \<Rightarrow> bytes" where
  "encode_replace s = to_bytes (utf8_bytes (map (\<lambda>c. if is_surrogate c then 63 else c) s))"

definition send_error_page ::
  "interp \<Rightarrow> hcls \<Rightarrow> bool \<Rightarrow> nat \<Rightarrow> ustr \<Rightarrow> ustr \<Rightarrow> ('a conn_scheme, unit) prog" where
  "send_error_page py cls is_head code message explain =
     (let body = encode_replace (error_page code message explain) in
      seq_p (log_error_p cls (us ''code '' @ str_int (int code) @ us '', message '' @ message))
     (seq_p (send_response py cls code (Some message))
     (seq_p (send_header (us ''Connection'') (us ''close''))
     (seq_p (send_header (us ''Content-Type'') (us ''text/html;charset=utf-8''))
     (seq_p (send_header (us ''Content-Length'') (str_int (int (length body))))
     (seq_p end_headers (if is_head then return_p () else wfile_write body)))))))"

abbreviation send_error :: "interp \<Rightarrow> hcls \<Rightarrow> nat \<Rightarrow> ustr \<Rightarrow> ('a conn_scheme, unit) prog" where
  "send_error py cls code message \<equiv> send_error_page py cls False code message (us (explanation code))"

section \<open>What the operations do on a connection that takes writes\<close>

named_theorems http_simps \<open>closed forms of the response operations\<close>

lemma log_message_p_eq [http_simps]:
  "log_message_p cls m c = (Inr (), c\<lparr>logs := logs c @ message_lines cls (address_string c) m\<rparr>)"
  by (simp add: log_message_p_def log_lines_def prog_simps)

lemma log_error_p_eq [http_simps]:
  "log_error_p cls m c = (Inr (), c\<lparr>logs := logs c @ error_lines cls (address_string c) m\<rparr>)"
  by (simp add: log_error_p_def log_lines_def prog_simps)

lemma buffer_line_eq [http_simps]:
  "latin1_encode line = Inr bs \<Longrightarrow> buffer_line line c = (Inr (), c\<lparr>hbuf := hbuf c @ bs\<rparr>)"
  by (simp add: buffer_line_def bind_p_def prog_simps)

lemma buffer_line_error [http_simps]:
  "latin1_encode line = Inl e \<Longrightarrow> buffer_line line c = (Inl e, c)"
  by (simp add: buffer_line_def bind_p_def prog_simps)

lemma note_connection_other [http_simps]:
  "ascii_lower name \<noteq> us ''connection'' \<Longrightarrow> note_connection name v c = (Inr (), c)"
  by (simp add: note_connection_def prog_simps)

lemma send_header_eq [http_simps]:
  assumes "ascii_lower name \<noteq> us ''connection''" and "\<not> http09 c"
    and "latin1_encode (header_line name v) = Inr bs"
  shows "send_header name v c = (Inr (), c\<lparr>hbuf := hbuf c @ bs\<rparr>)"
  using assms by (simp add: send_header_def seq_p_def bind_p_def http_simps)

lemma send_response_only_eq [http_simps]:
  assumes "\<not> http09 c"
    and "latin1_encode (status_line code (case message of Some m \<Rightarrow> m | None \<Rightarrow> us (reason code))) = Inr bs"
  shows "send_response_only code message c = (Inr (), c\<lparr>hbuf := hbuf c @ bs\<rparr>)"
  using assms by (simp add: send_response_only_def http_simps)

lemma crlf_ascii [simp]: "ascii crlf"
  by (simp add: crlf_def)

lemma wfile_write_ok [http_simps]:
  "wfaults c = [] \<Longrightarrow> wfile_write bs c = (Inr (), c\<lparr>sent := sent c @ bs\<rparr>)"
  by (simp add: wfile_write_def)

lemma end_headers_ok [http_simps]:
  "\<not> http09 c \<Longrightarrow> wfaults c = [] \<Longrightarrow>
   end_headers c = (Inr (), c\<lparr>hbuf := [], sent := sent c @ hbuf c @ to_bytes crlf\<rparr>)"
  by (simp add: end_headers_def seq_p_def bind_p_def prog_simps http_simps)

lemma http09_updates [simp]:
  "http09 (c\<lparr>hbuf := x\<rparr>) = http09 c" "http09 (c\<lparr>sent := y\<rparr>) = http09 c"
  "http09 (c\<lparr>logs := z\<rparr>) = http09 c" "http09 (c\<lparr>close_connection := b\<rparr>) = http09 c"
  "http09 (c\<lparr>wfaults := w\<rparr>) = http09 c" "http09 (c\<lparr>rfile := r\<rparr>) = http09 c"
  by (simp_all add: http09_def)

lemma address_string_updates [simp]:
  "address_string (c\<lparr>hbuf := x\<rparr>) = address_string c" "address_string (c\<lparr>sent := y\<rparr>) = address_string c"
  "address_string (c\<lparr>logs := z\<rparr>) = address_string c"
  by (simp_all add: address_string_def)

lemma ascii_us_literal [lit_simps]: "ascii (us s) \<longleftrightarrow> list_all (\<lambda>c. of_char c < (128 :: int)) s"
  using of_char_bounds by (auto simp: ascii_def us_def list_all_iff)

end
