(* ===== verification/Wire.thy ===== *)
theory Wire
  imports Http
begin

text \<open>
  The responses on the wire: what a complete \<open>send_response\<close> / \<open>send_header\<close> /
  \<open>end_headers\<close> / \<open>write\<close> sequence puts on the socket, and a client that reads it back. The
  client splits the header block at its line ends and takes \<open>Content-Length\<close> bytes of body;
  it is the specification the writers of both servers are measured against.
\<close>

section \<open>Rendering\<close>

type_synonym headers = "(ustr \<times> ustr) list"

definition head_text :: "nat \<Rightarrow> ustr \<Rightarrow> headers \<Rightarrow> ustr" where
  "head_text code message hs =
     status_line code message @ concat (map (\<lambda>(n, v). header_line n v) hs) @ crlf"

definition render :: "nat \<times> ustr \<times> headers \<times> bytes \<Rightarrow> bytes" where
  "render m = (case m of (code, message, hs, body) \<Rightarrow> to_bytes (head_text code message hs) @ body)"

section \<open>Reading\<close>

text \<open>The text up to the first CRLF, and what follows it.\<close>

fun cut_line :: "bytes \<Rightarrow> (ustr \<times> bytes) option" where
  "cut_line (c # d # r) =
     (if of_char c = (13 :: int) \<and> of_char d = (10 :: int) then Some ([], r)
      else map_option (\<lambda>(l, r'). (of_char c # l, r')) (cut_line (d # r)))"
| "cut_line _ = None"

lemma cut_line_shorter: "cut_line b = Some (l, r) \<Longrightarrow> length r < length b"
  by (induction b arbitrary: l rule: cut_line.induct) (auto split: if_splits)

definition read_header :: "ustr \<Rightarrow> exn + ustr \<times> ustr" where
  "read_header l =
     (case after 58 l of
        None \<Rightarrow> Inl (ValueError (us ''bad header line''))
      | Some v \<Rightarrow> Inr (before 58 l, dropWhile (\<lambda>c. c = 32) v))"

function read_headers :: "bytes \<Rightarrow> exn + headers \<times> bytes" where
  "read_headers b =
     (case cut_line b of
        None \<Rightarrow> Inl (ValueError (us ''incomplete header block''))
      | Some (l, r) \<Rightarrow>
          if l = [] then Inr ([], r)
          else (case read_header l of
                  Inl e \<Rightarrow> Inl e
                | Inr h \<Rightarrow> map_sum id (map_prod (Cons h) id) (read_headers r)))"
  by pat_completeness auto
termination
  by (relation "measure length") (auto dest: cut_line_shorter)

declare read_headers.simps [simp del]

text \<open>A decimal numeral of any length.\<close>

definition read_nat :: "ustr \<Rightarrow> exn + nat" where
  "read_nat s = (if s \<noteq> [] \<and> list_all is_digit s then Inr (nat (digits_value s))
                 else Inl (ValueError (us ''bad number'')))"

lemma read_nat_str_int: "read_nat (str_int (int n)) = Inr n"
  using dec_digits_digits by (auto simp: read_nat_def str_int_def list_all_iff)

definition read_status :: "ustr \<Rightarrow> exn + nat \<times> ustr" where
  "read_status l =
     (if \<not> py_startswith (us ''HTTP/1.0 '') l then Inl (ValueError (us ''bad version''))
      else let w = drop 9 l in
        case after 32 w of
          None \<Rightarrow> Inl (ValueError (us ''bad status line''))
        | Some message \<Rightarrow> map_sum id (\<lambda>code. (code, message)) (read_nat (before 32 w)))"

definition find_header :: "ustr \<Rightarrow> headers \<Rightarrow> ustr option" where
  "find_header n hs = map_of (map (\<lambda>(m, v). (ascii_lower m, v)) hs) (ascii_lower n)"

text \<open>\<open>Inr\<close> means a complete message with nothing missing and nothing behind it.\<close>

definition read_message :: "bytes \<Rightarrow> exn + nat \<times> ustr \<times> headers \<times> bytes" where
  "read_message b =
     (case cut_line b of
        None \<Rightarrow> Inl (ValueError (us ''no status line''))
      | Some (l, r) \<Rightarrow>
          (case read_status l of
             Inl e \<Rightarrow> Inl e
           | Inr (code, message) \<Rightarrow>
               (case read_headers r of
                  Inl e \<Rightarrow> Inl e
                | Inr (hs, body) \<Rightarrow>
                    (case find_header (us ''Content-Length'') hs of
                       None \<Rightarrow> Inl (ValueError (us ''no Content-Length''))
                     | Some v \<Rightarrow>
                         (case read_nat v of
                            Inl e \<Rightarrow> Inl e
                          | Inr n \<Rightarrow>
                              if n = length body then Inr (code, message, hs, body)
                              else Inl (ValueError (us ''body length mismatch'')))))))"

section \<open>Reading inverts rendering\<close>

definition header_ok :: "ustr \<times> ustr \<Rightarrow> bool" where
  "header_ok h \<longleftrightarrow> printable (fst h) \<and> fst h \<noteq> [] \<and> 58 \<notin> set (fst h) \<and> printable (snd h)"

text \<open>Leading blanks of a value are not part of it.\<close>

definition value_ok :: "ustr \<times> ustr \<Rightarrow> bool" where
  "value_ok h \<longleftrightarrow> snd h = [] \<or> hd (snd h) \<noteq> 32"

definition message_ok :: "nat \<times> ustr \<times> headers \<times> bytes \<Rightarrow> bool" where
  "message_ok m \<longleftrightarrow> (case m of (code, message, hs, body) \<Rightarrow>
     printable message \<and> list_all header_ok hs \<and> list_all value_ok hs
     \<and> find_header (us ''Content-Length'') hs = Some (str_int (int (length body))))"

lemma of_char_char_of: "0 \<le> c \<Longrightarrow> c < 256 \<Longrightarrow> of_char (char_of c :: char) = (c :: int)"
  by (simp add: of_char_of)

lemma cut_line_crlf: "printable l \<Longrightarrow> cut_line (to_bytes (l @ crlf) @ r) = Some (l, r)"
proof (induction l)
  case Nil
  show ?case by (simp add: crlf_def to_bytes_def of_char_char_of)
next
  case (Cons c l)
  then have c: "32 \<le> c" "c \<le> 126" and IH: "cut_line (to_bytes (l @ crlf) @ r) = Some (l, r)" by auto
  obtain d t where dt: "to_bytes (l @ crlf) @ r = d # t"
    by (cases l) (auto simp: crlf_def to_bytes_def)
  have "to_bytes ((c # l) @ crlf) @ r = char_of c # d # t"
    using dt by (simp add: to_bytes_def)
  then show ?case using c IH dt by (simp add: of_char_char_of)
qed

lemma printable_header_line: "header_ok (n, v) \<Longrightarrow> printable (n @ us '': '' @ v)"
  by (simp add: header_ok_def lit_simps)

lemma read_header_line:
  assumes "header_ok (n, v)" and "value_ok (n, v)"
  shows "read_header (n @ us '': '' @ v) = Inr (n, v)"
proof -
  have "58 \<notin> set n" using assms(1) by (simp add: header_ok_def)
  moreover have "n @ us '': '' @ v = n @ 58 # 32 # v" by (simp add: lit_simps)
  moreover have "dropWhile (\<lambda>c. c = 32) v = v" using assms(2) by (cases v) (auto simp: value_ok_def)
  ultimately show ?thesis by (simp add: read_header_def after_append before_append)
qed

lemma read_headers_rendered:
  "list_all header_ok hs \<Longrightarrow> list_all value_ok hs \<Longrightarrow>
   read_headers (to_bytes (concat (map (\<lambda>(n, v). header_line n v) hs) @ crlf) @ body) = Inr (hs, body)"
proof (induction hs)
  case Nil
  have "cut_line (to_bytes ([] @ crlf) @ body) = Some ([], body)" by (rule cut_line_crlf) simp
  then show ?case by (subst read_headers.simps) simp
next
  case (Cons h hs)
  obtain n v where h: "h = (n, v)" by (cases h)
  let ?rest = "to_bytes (concat (map (\<lambda>(n, v). header_line n v) hs) @ crlf) @ body"
  have ok: "header_ok (n, v)" "value_ok (n, v)" using Cons.prems h by auto
  have eq: "to_bytes (concat (map (\<lambda>(n, v). header_line n v) (h # hs)) @ crlf) @ body
      = to_bytes ((n @ us '': '' @ v) @ crlf) @ ?rest"
    using h by (simp add: header_line_def)
  have cut: "cut_line (to_bytes ((n @ us '': '' @ v) @ crlf) @ ?rest) = Some (n @ us '': '' @ v, ?rest)"
    by (rule cut_line_crlf) (rule printable_header_line [OF ok(1)])
  have "n @ us '': '' @ v \<noteq> []" using ok(1) by (simp add: header_ok_def)
  then show ?case
    unfolding eq using Cons read_header_line [OF ok] cut h
    by (subst read_headers.simps) simp
qed

lemma before_str_int: "before 32 (str_int (int n) @ 32 # m) = str_int (int n)"
  and after_str_int: "after 32 (str_int (int n) @ 32 # m) = Some m"
proof -
  have "32 \<notin> set (str_int (int n))"
    using dec_digits_digits [of 32 n] by (auto simp: str_int_def)
  then show "before 32 (str_int (int n) @ 32 # m) = str_int (int n)"
    and "after 32 (str_int (int n) @ 32 # m) = Some m"
    by (simp_all add: before_append after_append)
qed

lemma read_status_line:
  "read_status (us ''HTTP/1.0 '' @ str_int (int code) @ [32] @ message) = Inr (code, message)"
  by (simp add: read_status_def before_str_int after_str_int read_nat_str_int)

lemma read_render:
  assumes "message_ok m"
  shows "read_message (render m) = Inr m"
proof -
  obtain code message hs body where m: "m = (code, message, hs, body)" by (cases m)
  let ?line = "us ''HTTP/1.0 '' @ str_int (int code) @ [32] @ message"
  let ?rest = "to_bytes (concat (map (\<lambda>(n, v). header_line n v) hs) @ crlf) @ body"
  from assms have ok: "printable message" "list_all header_ok hs" "list_all value_ok hs"
    "find_header (us ''Content-Length'') hs = Some (str_int (int (length body)))"
    by (auto simp: message_ok_def m)
  have eq: "render m = to_bytes (?line @ crlf) @ ?rest"
    by (simp add: render_def head_text_def status_line_def to_bytes_def m)
  have "printable ?line" using ok(1) printable_str_int by (simp add: lit_simps)
  then have "cut_line (to_bytes (?line @ crlf) @ ?rest) = Some (?line, ?rest)" by (rule cut_line_crlf)
  then show ?thesis
    unfolding eq read_message_def
    by (simp only: option.case prod.case read_status_line read_headers_rendered [OF ok(2,3)] sum.case
        ok(4) read_nat_str_int refl if_True m)
qed

interpretation wire: codec render read_message message_ok
  by unfold_locales (rule read_render)

end
