(* ===== verification/Flux.thy ===== *)
theory Flux
  imports Wire
begin

text \<open>
  The server's view of its surroundings, and the routes that need no job.

  The \<open>flux\<close> Python bindings and the broker are not in the repository: they are a record
  of operations, \<open>flux_api\<close>, every definition takes as an argument. An operation acts on
  an abstract broker state \<open>'w\<close> and returns or raises. The password database and the
  process's uid are a record too.

  The server's own state is the module variable \<open>_handle\<close>; with the connection being
  answered and the broker it makes up the record \<open>srv\<close>.
\<close>

section \<open>Surroundings\<close>

record passwd =
  pw_name :: ustr
  pw_uid :: nat
  pw_dir :: ustr
  pw_shell :: ustr

record os_env =
  getuid :: nat
  getpwuid :: "nat \<Rightarrow> passwd option"
  getpwnam :: "ustr \<Rightarrow> passwd option"

type_synonym jobid = nat

record ('w, 'h, 's, 'i) flux_api =
  Flux :: "('w, 'h) prog"
  attr_get :: "'h \<Rightarrow> ustr \<Rightarrow> ('w, ustr) prog"
  from_command :: "ustr list \<Rightarrow> (ustr \<times> json) list \<Rightarrow> exn + 's"
  submit :: "'h \<Rightarrow> 's \<Rightarrow> ('w, jobid) prog"
  cancel :: "'h \<Rightarrow> jobid \<Rightarrow> ustr option \<Rightarrow> ('w, unit) prog"
  job_list_id :: "'h \<Rightarrow> jobid \<Rightarrow> ustr list \<Rightarrow> ('w, 'i) prog"
  to_dict :: "'i \<Rightarrow> exn + (ustr \<times> json) list"
  JobID :: "ustr \<Rightarrow> exn + jobid"
  f58plain :: "jobid \<Rightarrow> ustr"

record ('w, 'h) srv = conn +
  handle :: "'h option"
  world :: 'w

definition on_world :: "('w, 'a) prog \<Rightarrow> (('w, 'h) srv, 'a) prog" where
  "on_world m s = (case m (world s) of (r, w) \<Rightarrow> (r, s\<lparr>world := w\<rparr>))"

text \<open>A route's result: status, body, and extra headers (none when it returns a pair).\<close>

type_synonym reply = "nat \<times> json \<times> (ustr \<times> ustr) list"

definition json_obj :: "(string \<times> json) list \<Rightarrow> json" where
  "json_obj kvs = JObj (map (\<lambda>(k, v). (us k, v)) kvs)"

definition error_reply :: "nat \<Rightarrow> ustr \<Rightarrow> reply" where
  "error_reply code m = (code, json_obj [(''error'', JStr m)], [])"

section \<open>The module's constants and helpers\<close>

definition API_VERSION :: ustr where
  "API_VERSION = us ''v1''"

definition SERVER_NAME :: ustr where
  "SERVER_NAME = us ''flux-rest-server''"

definition PREFIX :: ustr where
  "PREFIX = us ''/api/'' @ API_VERSION"

definition MAX_BODY_SIZE :: int where
  "MAX_BODY_SIZE = 1024 * 1024"

text \<open>\<open>_flux()\<close>: the cached handle, opened on first use. A failure leaves the cache empty.\<close>

definition flux_handle :: "('w, 'h, 's, 'i) flux_api \<Rightarrow> (('w, 'h) srv, 'h) prog" where
  "flux_handle api st =
     (case handle st of
        Some h \<Rightarrow> (Inr h, st)
      | None \<Rightarrow>
          (case on_world (Flux api) st of
             (Inl e, st') \<Rightarrow> (Inl e, st')
           | (Inr h, st') \<Rightarrow> (Inr h, st'\<lparr>handle := Some h\<rparr>)))"

text \<open>\<open>_user()\<close>: the login name, or the uid in decimal when there is no entry for it.\<close>

definition user :: "os_env \<Rightarrow> ustr" where
  "user os = (case getpwuid os (getuid os) of Some pw \<Rightarrow> pw_name pw | None \<Rightarrow> str_int (int (getuid os)))"

section \<open>\<open>GET /\<close> and \<open>GET /health\<close>\<close>

definition root :: "os_env \<Rightarrow> ('w, 'h, 's, 'i) flux_api \<Rightarrow> (('w, 'h) srv, reply) prog" where
  "root os api =
     bind_p (flux_handle api) (\<lambda>h.
     bind_p (on_world (attr_get api h (us ''version''))) (\<lambda>version.
     bind_p (on_world (attr_get api h (us ''rank''))) (\<lambda>rank_s.
     bind_p (lift_p (py_int rank_s)) (\<lambda>rank.
     bind_p (on_world (attr_get api h (us ''size''))) (\<lambda>size_s.
     bind_p (lift_p (py_int size_s)) (\<lambda>sz.
     return_p (200,
       json_obj [(''name'', JStr SERVER_NAME), (''user'', JStr (user os)),
                 (''broker_version'', JStr version), (''rank'', JInt rank), (''size'', JInt sz)],
       [])))))))"

definition health :: "(('w, 'h) srv, reply) prog" where
  "health = return_p (200, json_obj [(''status'', JStr (us ''ok''))], [])"

definition ROUTES ::
  "os_env \<Rightarrow> ('w, 'h, 's, 'i) flux_api \<Rightarrow> (ustr \<times> (('w, 'h) srv, reply) prog) list" where
  "ROUTES os api = [(PREFIX @ us ''/'', root os api), (PREFIX @ us ''/health'', health)]"

section \<open>What a route may touch\<close>

text \<open>
  Two states with the same connection: a route works on the handle and the broker, and
  leaves the socket, the header buffer and the log alone.
\<close>

definition same_conn :: "('w, 'h) srv \<Rightarrow> ('w, 'h) srv \<Rightarrow> bool" where
  "same_conn s t \<longleftrightarrow> conn.truncate s = conn.truncate t"

lemma same_conn_refl [simp]: "same_conn s s"
  by (simp add: same_conn_def)

lemma same_conn_trans: "same_conn s t \<Longrightarrow> same_conn t u \<Longrightarrow> same_conn s u"
  by (simp add: same_conn_def)

lemma same_conn_updates [simp]:
  "same_conn s (t\<lparr>world := w\<rparr>) = same_conn s t" "same_conn s (t\<lparr>handle := h\<rparr>) = same_conn s t"
  by (simp_all add: same_conn_def conn.truncate_def)

lemma same_conn_fields:
  assumes "same_conn s t"
  shows "sent t = sent s" "hbuf t = hbuf s" "wfaults t = wfaults s" "logs t = logs s"
    "rfile t = rfile s" "rend t = rend s" "request_version t = request_version s"
    "requestline t = requestline s" "client_host t = client_host s"
    "close_connection t = close_connection s"
  using assms by (simp_all add: same_conn_def conn.truncate_def)

definition frames :: "(('w, 'h) srv, 'a) prog \<Rightarrow> bool" where
  "frames m \<longleftrightarrow> (\<forall>s. same_conn s (snd (m s)))"

named_theorems frame_intros \<open>programs that leave the connection alone\<close>

lemma framesD: "frames m \<Longrightarrow> m s = (r, t) \<Longrightarrow> same_conn s t"
  unfolding frames_def by (metis snd_conv)

lemma frames_return [frame_intros]: "frames (return_p x)"
  and frames_raise [frame_intros]: "frames (raise_p e)"
  and frames_lift [frame_intros]: "frames (lift_p r)"
  by (simp_all add: frames_def prog_simps)

lemma frames_on_world [frame_intros]: "frames (on_world m)"
  by (simp add: frames_def on_world_def split: prod.splits)

lemma frames_bind [frame_intros]:
  assumes "frames m" and "\<And>x. frames (f x)"
  shows "frames (bind_p m f)"
proof -
  have "same_conn s (snd (bind_p m f s))" for s
  proof (cases "m s")
    case (Pair r t)
    then have "same_conn s t" using assms(1) by (rule framesD [rotated])
    moreover have "same_conn t (snd (f x t))" for x using assms(2) by (simp add: frames_def)
    ultimately show ?thesis
      using Pair by (cases r) (auto simp: bind_p_def intro: same_conn_trans)
  qed
  then show ?thesis by (simp add: frames_def)
qed

lemma frames_catch [frame_intros]:
  assumes "frames m" and "\<And>e. frames (h e)"
  shows "frames (catch_p m h)"
proof -
  have "same_conn s (snd (catch_p m h s))" for s
  proof (cases "m s")
    case (Pair r t)
    then have "same_conn s t" using assms(1) by (rule framesD [rotated])
    moreover have "same_conn t (snd (h e t))" for e using assms(2) by (simp add: frames_def)
    ultimately show ?thesis
      using Pair by (cases r) (auto simp: catch_p_def intro: same_conn_trans)
  qed
  then show ?thesis by (simp add: frames_def)
qed

lemma frames_if [frame_intros]: "frames m \<Longrightarrow> frames n \<Longrightarrow> frames (if b then m else n)"
  by simp

lemma frames_flux_handle [frame_intros]: "frames (flux_handle api)"
proof -
  have "same_conn s (snd (flux_handle api s))" for s
    using framesD [OF frames_on_world, of "Flux api" s]
    by (auto simp: flux_handle_def split: option.splits prod.splits sum.splits)
  then show ?thesis by (simp add: frames_def)
qed

text \<open>
  The interface between a route and the handler that calls it: a route leaves the
  connection alone, and answers with one of its statuses, printable headers that do not concern
  the connection, and a body of the shape documented for the status.
\<close>

definition plain_header :: "ustr \<times> ustr \<Rightarrow> bool" where
  "plain_header h \<longleftrightarrow> header_ok h \<and> value_ok h
     \<and> ascii_lower (fst h) \<notin> {us ''connection'', us ''content-length''}"

definition plain_headers :: "headers \<Rightarrow> bool" where
  "plain_headers hs \<longleftrightarrow> list_all plain_header hs"

lemma plain_headers_simps [simp]:
  "plain_headers []" "plain_headers (h # hs) \<longleftrightarrow> plain_header h \<and> plain_headers hs"
  by (simp_all add: plain_headers_def)

text \<open>
  The shape the API document gives a response: an object, with a string under \<open>error\<close> from
  status 400 on, the id of the job under 201, where \<open>Location\<close> names it, and under 202 the id
  and the fixed word for a cancellation.
\<close>

fun has_string :: "ustr \<Rightarrow> json \<Rightarrow> bool" where
  "has_string k (JObj d) = (case map_of d k of Some (JStr _) \<Rightarrow> True | _ \<Rightarrow> False)"
| "has_string k _ = False"

fun is_object :: "json \<Rightarrow> bool" where
  "is_object (JObj _) = True"
| "is_object _ = False"

fun locates :: "headers \<Rightarrow> json \<Rightarrow> bool" where
  "locates hs (JObj d) =
     (\<exists>i. map_of d (us ''id'') = Some (JStr i)
        \<and> find_header (us ''Location'') hs = Some (PREFIX @ us ''/jobs/'' @ i))"
| "locates hs _ = False"

fun cancels :: "json \<Rightarrow> bool" where
  "cancels (JObj d) \<longleftrightarrow> map_of d (us ''status'') = Some (JStr (us ''cancel requested''))"
| "cancels _ \<longleftrightarrow> False"

definition conforms :: "nat \<Rightarrow> json \<Rightarrow> headers \<Rightarrow> bool" where
  "conforms code body hs \<longleftrightarrow>
     is_object body
     \<and> (400 \<le> code \<longrightarrow> has_string (us ''error'') body)
     \<and> (code = 201 \<longrightarrow> locates hs body)
     \<and> (code = 202 \<longrightarrow> has_string (us ''id'') body \<and> cancels body)"

lemma object_json_obj [simp]: "is_object (json_obj kvs)"
  by (simp add: json_obj_def)

lemma conforms_error [simp]:
  "400 \<le> code \<Longrightarrow> conforms code (json_obj ((''error'', JStr m) # kvs)) hs"
  by (simp add: conforms_def json_obj_def)

lemma conforms_200 [simp]: "conforms 200 body hs = is_object body"
  by (simp add: conforms_def)

lemma conforms_created [simp]:
  "conforms 201 (json_obj [(''id'', JStr i)]) [(us ''Location'', PREFIX @ us ''/jobs/'' @ i)]"
  by (simp add: conforms_def json_obj_def find_header_def)

lemma conforms_cancelled [simp]:
  "conforms 202 (json_obj [(''id'', JStr i), (''status'', JStr (us ''cancel requested''))]) hs"
  by (simp add: conforms_def json_obj_def)

definition replies :: "nat set \<Rightarrow> (('w, 'h) srv, reply) prog \<Rightarrow> bool" where
  "replies codes m \<longleftrightarrow>
     (\<forall>s code body hs t. m s = (Inr (code, body, hs), t) \<longrightarrow>
        code \<in> codes \<and> plain_headers hs \<and> conforms code body hs)"

named_theorems reply_intros \<open>what programs may answer\<close>

lemma repliesD:
  "replies codes m \<Longrightarrow> m s = (Inr (code, body, hs), t) \<Longrightarrow> code \<in> codes \<and> plain_headers hs \<and> conforms code body hs"
  unfolding replies_def by blast

lemma replies_return [reply_intros]:
  "code \<in> codes \<Longrightarrow> plain_headers hs \<Longrightarrow> conforms code body hs \<Longrightarrow>
   replies codes (return_p (code, body, hs))"
  by (simp add: replies_def prog_simps)

lemma replies_raise [reply_intros]: "replies codes (raise_p e)"
  by (simp add: replies_def prog_simps)

lemma replies_bind [reply_intros]:
  "(\<And>x. replies codes (f x)) \<Longrightarrow> replies codes (bind_p m f)"
  by (auto simp: replies_def bind_p_def split: prod.splits sum.splits)

lemma replies_catch [reply_intros]:
  "replies codes m \<Longrightarrow> (\<And>e. replies codes (h e)) \<Longrightarrow> replies codes (catch_p m h)"
  unfolding replies_def catch_p_def by (auto split: prod.splits sum.splits) blast+

lemma replies_if [reply_intros]:
  "replies codes m \<Longrightarrow> replies codes n \<Longrightarrow> replies codes (if b then m else n)"
  by simp

lemma replies_error [reply_intros]: "code \<in> codes \<Longrightarrow> 400 \<le> code \<Longrightarrow> replies codes (return_p (error_reply code m))"
  by (simp add: error_reply_def replies_return)

locale route =
  fixes run :: "(('w, 'h) srv, reply) prog" and codes :: "nat set"
  assumes frame: "frames run" and answers: "replies codes run"
begin

lemma quiet: "run s = (r, t) \<Longrightarrow> same_conn s t"
  using frame by (rule framesD)

lemma code_in: "run s = (Inr (code, body, hs), t) \<Longrightarrow> code \<in> codes"
  and headers_plain: "run s = (Inr (code, body, hs), t) \<Longrightarrow> plain_headers hs"
  and body_conforms: "run s = (Inr (code, body, hs), t) \<Longrightarrow> conforms code body hs"
  using answers by (blast dest: repliesD)+

end

interpretation root_route: route "root os api" "{200}" for os api
proof unfold_locales
  show "frames (root os api)" unfolding root_def by (intro frame_intros)
  show "replies {200} (root os api)" unfolding root_def by (intro reply_intros) simp_all
qed

interpretation health_route: route health "{200}"
proof unfold_locales
  show "frames health" unfolding health_def by (intro frame_intros)
  show "replies {200} health" unfolding health_def by (intro reply_intros) simp_all
qed

section \<open>The cached handle\<close>

lemma flux_handle_cached: "handle st = Some h \<Longrightarrow> flux_handle api st = (Inr h, st)"
  by (simp add: flux_handle_def)

lemma flux_handle_open:
  "handle st = None \<Longrightarrow> Flux api (world st) = (Inr h, w) \<Longrightarrow>
   flux_handle api st = (Inr h, st\<lparr>world := w, handle := Some h\<rparr>)"
  by (simp add: flux_handle_def on_world_def)

lemma flux_handle_fail:
  "handle st = None \<Longrightarrow> Flux api (world st) = (Inl e, w) \<Longrightarrow>
   flux_handle api st = (Inl e, st\<lparr>world := w\<rparr>)"
  by (simp add: flux_handle_def on_world_def)

lemma flux_handle_result: "flux_handle api st = (Inr h, st') \<Longrightarrow> handle st' = Some h"
  by (auto simp: flux_handle_def split: option.splits prod.splits sum.splits)

lemma handle_on_world: "on_world m s = (r, t) \<Longrightarrow> handle t = handle s"
  by (auto simp: on_world_def split: prod.splits)

text \<open>Once a handle is cached no code of the server replaces it.\<close>

lemma keeps_handle_on_world: "keeps (\<lambda>s. handle s = Some h) (on_world m)"
  by (simp add: keeps_def on_world_def split: prod.splits)

lemma keeps_handle_flux: "keeps (\<lambda>s. handle s = Some h) (flux_handle api)"
  by (simp add: keeps_def flux_handle_def)

end
