(* ===== verification/Jobs.thy ===== *)
theory Jobs
  imports Flux
begin

text \<open>
  The routes on jobs: submission, the parsing of a job path, cancellation and job info.
\<close>

section \<open>\<open>POST /jobs\<close>\<close>

definition EINVAL :: int where
  "EINVAL = 22"

definition is_JStr :: "json \<Rightarrow> bool" where
  "is_JStr j = (case j of JStr _ \<Rightarrow> True | _ \<Rightarrow> False)"

definition str_of :: "json \<Rightarrow> ustr" where
  "str_of j = (case j of JStr s \<Rightarrow> s | _ \<Rightarrow> [])"

text \<open>The \<open>"command"\<close> field, if it is a non-empty list of strings.\<close>

definition command_of :: "(ustr \<times> json) list \<Rightarrow> ustr list option" where
  "command_of body =
     (case map_of body (us ''command'') of
        Some (JArr cs) \<Rightarrow> if cs = [] \<or> \<not> list_all is_JStr cs then None else Some (map str_of cs)
      | _ \<Rightarrow> None)"

text \<open>Every other field that is not null, in the order of the request.\<close>

definition request_kwargs :: "(ustr \<times> json) list \<Rightarrow> (ustr \<times> json) list" where
  "request_kwargs body = filter (\<lambda>(k, v). k \<noteq> us ''command'' \<and> v \<noteq> JNull) body"

definition default_environment :: "passwd \<Rightarrow> json" where
  "default_environment pw =
     json_obj [(''HOME'', JStr (pw_dir pw)), (''USER'', JStr (pw_name pw)),
       (''LOGNAME'', JStr (pw_name pw)), (''PATH'', JStr (us ''/usr/local/bin:/usr/bin:/bin'')),
       (''SHELL'', JStr (pw_shell pw))]"

definition submit_kwargs :: "passwd \<Rightarrow> (ustr \<times> json) list \<Rightarrow> (ustr \<times> json) list" where
  "submit_kwargs pw body =
     setdefault (us ''environment'') (default_environment pw)
       (setdefault (us ''cwd'') (JStr (pw_dir pw)) (request_kwargs body))"

text \<open>
  \<open>flux.job.submit(_flux(), jobspec)\<close> and its two \<open>except\<close> clauses: \<open>_flux()\<close> is called
  inside the same \<open>try\<close>. \<open>Inl\<close> is the early return.
\<close>

definition submit_jobspec ::
  "('w, 'h, 's, 'i) flux_api \<Rightarrow> 's \<Rightarrow> (('w, 'h) srv, reply + jobid) prog" where
  "submit_jobspec api spec =
     catch_p
       (bind_p (flux_handle api) (\<lambda>h.
        bind_p (on_world (submit api h spec)) (\<lambda>j. return_p (Inr j))))
       (\<lambda>e. if is_OSError e then
              (if exn_errno e = Some EINVAL then return_p (Inl (error_reply 400 (exn_str e)))
               else raise_p e)
            else if is_RuntimeError e \<or> is_ValueError e
              then return_p (Inl (error_reply 400 (exn_str e)))
            else raise_p e)"

definition created :: "('w, 'h, 's, 'i) flux_api \<Rightarrow> jobid \<Rightarrow> reply" where
  "created api j =
     (let fluid = f58plain api j
      in (201, json_obj [(''id'', JStr fluid)],
          [(us ''Location'', PREFIX @ us ''/jobs/'' @ fluid)]))"

definition jobs_submit ::
  "os_env \<Rightarrow> ('w, 'h, 's, 'i) flux_api \<Rightarrow> (ustr \<times> json) list \<Rightarrow> (('w, 'h) srv, reply) prog" where
  "jobs_submit os api body =
     (case command_of body of
        None \<Rightarrow> return_p (error_reply 400 ([39] @ us ''command'' @ [39] @ us '' must be a non-empty list of strings''))
      | Some command \<Rightarrow>
          (case getpwuid os (getuid os) of
             None \<Rightarrow> raise_p (KeyError (us ''getpwuid(): uid not found''))
           | Some pw \<Rightarrow>
               (case from_command api command (submit_kwargs pw body) of
                  Inl e \<Rightarrow>
                    if is_ValueError e \<or> is_TypeError e
                      then return_p (error_reply 400 (us ''invalid jobspec: '' @ exn_str e))
                    else raise_p e
                | Inr spec \<Rightarrow>
                    bind_p (submit_jobspec api spec) (\<lambda>r. case r of
                        Inl early \<Rightarrow> return_p early
                      | Inr j \<Rightarrow> return_p (created api j)))))"

definition POST_ROUTES ::
  "os_env \<Rightarrow> ('w, 'h, 's, 'i) flux_api \<Rightarrow>
   (ustr \<times> ((ustr \<times> json) list \<Rightarrow> (('w, 'h) srv, reply) prog)) list" where
  "POST_ROUTES os api = [(PREFIX @ us ''/jobs'', jobs_submit os api)]"

section \<open>\<open>/jobs/<id>\<close>\<close>

definition JOBS_PREFIX :: ustr where
  "JOBS_PREFIX = PREFIX @ us ''/jobs/''"

definition parse_job_path :: "('w, 'h, 's, 'i) flux_api \<Rightarrow> ustr \<Rightarrow> exn + jobid option" where
  "parse_job_path api path =
     (if \<not> py_startswith JOBS_PREFIX path then Inr None
      else let jobid_str = unquote (drop (length JOBS_PREFIX) path)
           in if jobid_str = [] \<or> 47 \<in> set jobid_str then Inr None
              else map_sum id Some (JobID api jobid_str))"

section \<open>\<open>DELETE /jobs/<id>\<close>\<close>

definition jobs_cancel ::
  "('w, 'h, 's, 'i) flux_api \<Rightarrow> jobid \<Rightarrow> ustr option \<Rightarrow> (('w, 'h) srv, reply) prog" where
  "jobs_cancel api j rsn =
     bind_p (flux_handle api) (\<lambda>h.
     catch_p
       (bind_p (on_world (cancel api h j rsn)) (\<lambda>_.
        return_p (202, json_obj [(''id'', JStr (f58plain api j)),
                                 (''status'', JStr (us ''cancel requested''))], [])))
       (\<lambda>e. if is_os FileNotFoundError e then
              (if py_in (us ''inactive'') (exn_str e)
                 then return_p (error_reply 409
                        (us ''job '' @ f58plain api j @ us '' is already inactive, cannot cancel''))
               else return_p (error_reply 404 (us ''no such job: '' @ f58plain api j)))
            else if is_os PermissionError e then return_p (error_reply 403 (exn_str e))
            else raise_p e))"

section \<open>\<open>GET /jobs/<id>\<close>\<close>

definition job_body :: "ustr \<Rightarrow> (ustr \<times> json) list \<Rightarrow> (ustr \<times> json) list" where
  "job_body fluid d = AList.delete (us ''jobid'') (AList.update (us ''id'') (JStr fluid) d)"

definition jobs_state ::
  "('w, 'h, 's, 'i) flux_api \<Rightarrow> jobid \<Rightarrow> (('w, 'h) srv, reply) prog" where
  "jobs_state api j =
     bind_p (flux_handle api) (\<lambda>h.
     bind_p
       (catch_p
         (bind_p (on_world (job_list_id api h j [us ''all''])) (\<lambda>info. return_p (Inr info)))
         (\<lambda>e. if is_os FileNotFoundError e
                then return_p (Inl (error_reply 404 (us ''no such job: '' @ f58plain api j)))
              else raise_p e))
       (\<lambda>r. case r of
              Inl early \<Rightarrow> return_p early
            | Inr info \<Rightarrow>
                bind_p (lift_p (to_dict api info)) (\<lambda>d.
                return_p (200, JObj (job_body (f58plain api j) d), []))))"

section \<open>The routes keep the route contract\<close>

text \<open>
  What \<open>JobID.f58plain\<close> is documented to be: an ASCII \<open>f\<close> and base-58 digits, so it
  needs no escape in a URL or a header.
\<close>

definition base58 :: "int \<Rightarrow> bool" where
  "base58 c \<longleftrightarrow> (49 \<le> c \<and> c \<le> 57) \<or> (65 \<le> c \<and> c \<le> 90 \<and> c \<notin> {73, 79})
     \<or> (97 \<le> c \<and> c \<le> 122 \<and> c \<noteq> 108)"

definition f58_plain :: "('w, 'h, 's, 'i) flux_api \<Rightarrow> bool" where
  "f58_plain api \<longleftrightarrow>
     (\<forall>j. \<exists>r. f58plain api j = 102 # r \<and> list_all base58 r)"

lemma base58_ascii: "base58 c \<Longrightarrow> 0 \<le> c \<and> c < 128 \<and> c \<noteq> 37 \<and> c \<noteq> 47"
  by (auto simp: base58_def)

lemma f58_chars: "f58_plain api \<Longrightarrow> c \<in> set (f58plain api j) \<Longrightarrow> 0 \<le> c \<and> c < 128 \<and> c \<noteq> 37 \<and> c \<noteq> 47"
proof -
  assume "f58_plain api" and c: "c \<in> set (f58plain api j)"
  then obtain r where r: "f58plain api j = 102 # r" "list_all base58 r"
    unfolding f58_plain_def by blast
  then show ?thesis using c base58_ascii [of c] by (auto simp: list_all_iff)
qed

lemma f58_ascii: "f58_plain api \<Longrightarrow> ascii (f58plain api j)"
  unfolding ascii_iff using f58_chars by blast

lemma f58_printable: "f58_plain api \<Longrightarrow> printable (f58plain api j)"
proof -
  assume "f58_plain api"
  then obtain r where "f58plain api j = 102 # r" "list_all base58 r"
    unfolding f58_plain_def by blast
  moreover have "base58 c \<Longrightarrow> 32 \<le> c \<and> c \<le> 126" for c by (auto simp: base58_def)
  ultimately show ?thesis by (auto simp: printable_def list_all_iff)
qed

lemma f58_not_Nil: "f58_plain api \<Longrightarrow> f58plain api j \<noteq> []"
  unfolding f58_plain_def by (metis list.discI)

lemma ascii_PREFIX [simp]: "ascii PREFIX"
  by (simp add: PREFIX_def API_VERSION_def lit_simps)

lemma printable_PREFIX [simp]: "printable PREFIX"
  by (simp add: PREFIX_def API_VERSION_def lit_simps)

lemma replies_case_sum [reply_intros]:
  "(\<And>x. replies codes (f x)) \<Longrightarrow> (\<And>y. replies codes (g y)) \<Longrightarrow>
   replies codes (case r of Inl x \<Rightarrow> f x | Inr y \<Rightarrow> g y)"
  by (cases r) auto

lemma frames_case_sum [frame_intros]:
  "(\<And>x. frames (f x)) \<Longrightarrow> (\<And>y. frames (g y)) \<Longrightarrow> frames (case r of Inl x \<Rightarrow> f x | Inr y \<Rightarrow> g y)"
  by (cases r) auto

lemma frames_case_option [frame_intros]:
  "frames m \<Longrightarrow> (\<And>y. frames (g y)) \<Longrightarrow> frames (case r of None \<Rightarrow> m | Some y \<Rightarrow> g y)"
  by (cases r) auto

lemma replies_case_option [reply_intros]:
  "replies codes m \<Longrightarrow> (\<And>y. replies codes (g y)) \<Longrightarrow>
   replies codes (case r of None \<Rightarrow> m | Some y \<Rightarrow> g y)"
  by (cases r) auto

interpretation cancel_route: route "jobs_cancel api j rsn" "{202, 403, 404, 409}" for api j rsn
proof unfold_locales
  show "frames (jobs_cancel api j rsn)" unfolding jobs_cancel_def by (intro frame_intros)
  show "replies {202, 403, 404, 409} (jobs_cancel api j rsn)"
    unfolding jobs_cancel_def by (intro reply_intros) simp_all
qed

text \<open>An early return of a \<open>try\<close> inside a route is one of its answers.\<close>

definition early_replies :: "nat set \<Rightarrow> (('w, 'h) srv, reply + 'a) prog \<Rightarrow> bool" where
  "early_replies codes m \<longleftrightarrow>
     (\<forall>s code body hs t. m s = (Inr (Inl (code, body, hs)), t) \<longrightarrow>
        code \<in> codes \<and> plain_headers hs \<and> conforms code body hs)"

lemma replies_bind_early:
  assumes "early_replies codes m" and "\<And>y. replies codes (g y)"
  shows "replies codes (bind_p m (\<lambda>r. case r of Inl early \<Rightarrow> return_p early | Inr y \<Rightarrow> g y))"
  using assms unfolding replies_def early_replies_def bind_p_def return_p_def
  by (auto split: prod.splits sum.splits) blast+

lemma early_submit_jobspec: "early_replies {400} (submit_jobspec api spec)"
  unfolding early_replies_def submit_jobspec_def catch_p_def bind_p_def
  by (auto simp: prog_simps error_reply_def split: prod.splits sum.splits if_splits)

lemma early_state:
  "early_replies {404} (catch_p
     (bind_p (on_world m) (\<lambda>info. return_p (Inr info)))
     (\<lambda>e. if is_os FileNotFoundError e then return_p (Inl (error_reply 404 msg)) else raise_p e))"
  unfolding early_replies_def catch_p_def bind_p_def
  by (auto simp: prog_simps error_reply_def split: prod.splits sum.splits if_splits)

lemma replies_mono: "replies a m \<Longrightarrow> a \<subseteq> b \<Longrightarrow> replies b m"
  and early_replies_mono: "early_replies a n \<Longrightarrow> a \<subseteq> b \<Longrightarrow> early_replies b n"
  unfolding replies_def early_replies_def by blast+

interpretation state_route: route "jobs_state api j" "{200, 404}" for api j
proof unfold_locales
  show "frames (jobs_state api j)" unfolding jobs_state_def by (intro frame_intros)
  show "replies {200, 404} (jobs_state api j)"
    unfolding jobs_state_def
    by (intro replies_bind replies_bind_early early_replies_mono [OF early_state] replies_return)
      simp_all
qed

lemma frames_submit: "frames (jobs_submit os api body)"
  unfolding jobs_submit_def submit_jobspec_def by (intro frame_intros)

lemma replies_submit:
  assumes "f58_plain api"
  shows "replies {201, 400} (jobs_submit os api body)"
proof -
  have "plain_header (us ''Location'', PREFIX @ us ''/jobs/'' @ f58plain api j)" for j
    using f58_printable [OF assms]
    by (simp add: plain_header_def header_ok_def value_ok_def ascii_lower_def PREFIX_def API_VERSION_def
        lit_simps)
  then have "replies {201, 400} (return_p (created api j))" for j
    by (auto simp: created_def Let_def intro!: replies_return)
  then show ?thesis
    unfolding jobs_submit_def
    by (intro replies_case_option replies_case_sum replies_if replies_bind_early replies_raise
        replies_error early_replies_mono [OF early_submit_jobspec]) simp_all
qed

end
