(* ===== verification/Parse.thy ===== *)
theory Parse
  imports Wire
begin

text \<open>
  The request half of \<open>http.server\<close>, which both servers of the repository inherit: from the bytes
  on a connection to the request line, the target and the headers, as CPython 3.11 reads them.
  The header block goes through the \<open>email\<close> package, with its own idea of a line.
\<close>

section \<open>Requests\<close>

record request =
  command :: ustr
  path :: ustr
  headers :: "(ustr \<times> ustr) list"

text \<open>\<open>self.headers.get(name)\<close>: case-insensitive, the first of several.\<close>

definition header_get :: "ustr \<Rightarrow> request \<Rightarrow> ustr option" where
  "header_get name req = find_header name (headers req)"

section \<open>Text\<close>

lemma dropWhile_word_shorter:
  assumes "dropWhile is_space s \<noteq> []"
  shows "length (dropWhile (\<lambda>c. \<not> is_space c) (dropWhile is_space s)) < length s"
proof -
  obtain c t where t: "dropWhile is_space s = c # t" using assms by (cases "dropWhile is_space s") auto
  then have "\<not> is_space c" by (metis hd_dropWhile list.discI list.sel(1))
  then have "length (dropWhile (\<lambda>c. \<not> is_space c) (dropWhile is_space s)) \<le> length t"
    by (simp add: t length_dropWhile_le)
  moreover have "length (c # t) \<le> length s" by (metis t length_dropWhile_le)
  ultimately show ?thesis by simp
qed

text \<open>\<open>s.split()\<close>: the words between runs of white space.\<close>

function py_words :: "ustr \<Rightarrow> ustr list" where
  "py_words s =
     (let t = dropWhile is_space s
      in if t = [] then [] else takeWhile (\<lambda>c. \<not> is_space c) t # py_words (dropWhile (\<lambda>c. \<not> is_space c) t))"
  by pat_completeness auto

termination
  by (relation "measure length") (use dropWhile_word_shorter in auto)

declare py_words.simps [simp del]

text \<open>\<open>repr\<close> of a text of ISO-8859-1: quoted, with what cannot be printed escaped.\<close>

definition latin1_prints :: "int \<Rightarrow> bool" where
  "latin1_prints c \<longleftrightarrow> (32 \<le> c \<and> c \<le> 126) \<or> (161 \<le> c \<and> c \<le> 255 \<and> c \<noteq> 173)"

definition repr_char :: "int \<Rightarrow> int \<Rightarrow> ustr" where
  "repr_char q c =
     (if c = q \<or> c = 92 then [92, c]
      else if c = 9 then [92, 116] else if c = 10 then [92, 110] else if c = 13 then [92, 114]
      else if latin1_prints c then [c]
      else [92, 120, hexl (c div 16), hexl (c mod 16)])"

definition py_repr :: "ustr \<Rightarrow> ustr" where
  "py_repr s =
     (let q = (if 39 \<in> set s \<and> 34 \<notin> set s then 34 else 39)
      in [q] @ concat (map (repr_char q) s) @ [q])"

section \<open>Reading lines\<close>

text \<open>
  \<open>rfile.readline(limit)\<close>: up to and with a newline, but at most \<open>limit\<close> bytes. When the input
  runs out first, what is there is the line at the end of the stream; otherwise the read raises.
\<close>

definition first_line :: "bytes \<Rightarrow> bytes" where
  "first_line b = takeWhile (\<lambda>c. c \<noteq> CHR 10) b @ (if CHR 10 \<in> set b then [CHR 10] else [])"

definition rfile_readline :: "nat \<Rightarrow> ('a conn_scheme, bytes) prog" where
  "rfile_readline limit c =
     (let b = take limit (rfile c)
      in if CHR 10 \<in> set b \<or> limit \<le> length (rfile c)
         then (Inr (first_line b), c\<lparr>rfile := drop (length (first_line b)) (rfile c)\<rparr>)
         else rfile_read (Suc (length (rfile c))) c)"

definition MAXLINE :: nat where
  "MAXLINE = 65536"

definition MAXHEADERS :: nat where
  "MAXHEADERS = 100"

text \<open>
  \<open>http.client._read_headers\<close>: the lines of the block with the blank one that ends it, or the
  end of the stream. \<open>n\<close> is how many more lines it may hold.
\<close>

datatype block = Block bytes | Line_too_long | Too_many_headers

fun read_block :: "nat \<Rightarrow> ('a conn_scheme, block) prog" where
  "read_block 0 = bind_p (rfile_readline (Suc MAXLINE)) (\<lambda>line.
     return_p (if length line > MAXLINE then Line_too_long else Too_many_headers))"
| "read_block (Suc n) = bind_p (rfile_readline (Suc MAXLINE)) (\<lambda>line.
     if length line > MAXLINE then return_p Line_too_long
     else if line = [CHR 13, CHR 10] \<or> line = [CHR 10] \<or> line = [] then return_p (Block line)
     else bind_p (read_block n) (\<lambda>b. return_p (case b of Block r \<Rightarrow> Block (line @ r) | _ \<Rightarrow> b)))"

section \<open>The \<open>email\<close> parser\<close>

text \<open>
  Its lines end at a newline, a carriage return, or both in this order, whatever the lines were
  when they were read. The header lines are those up to the first that is neither a field, nor
  a continuation, nor an envelope line.
\<close>

fun text_lines :: "ustr \<Rightarrow> ustr list" where
  "text_lines [] = []"
| "text_lines [c] = [[c]]"
| "text_lines (c # d # s) =
     (if c = 10 then [10] # text_lines (d # s)
      else if c = 13 \<and> d = 10 then [13, 10] # text_lines s
      else if c = 13 then [13] # text_lines (d # s)
      else (case text_lines (d # s) of [] \<Rightarrow> [[c]] | l # ls \<Rightarrow> (c # l) # ls))"

definition field_char :: "int \<Rightarrow> bool" where
  "field_char c \<longleftrightarrow> (33 \<le> c \<and> c \<le> 57) \<or> (59 \<le> c \<and> c \<le> 126)"

definition blank :: "int \<Rightarrow> bool" where
  "blank c \<longleftrightarrow> c = 32 \<or> c = 9"

definition line_end :: "int \<Rightarrow> bool" where
  "line_end c \<longleftrightarrow> c = 13 \<or> c = 10"

definition header_match :: "ustr \<Rightarrow> bool" where
  "header_match l \<longleftrightarrow> py_startswith (us ''From '') l
     \<or> py_startswith [58] (dropWhile field_char l)
     \<or> (l \<noteq> [] \<and> blank (hd l))"

text \<open>
  \<open>_parse_headers\<close>: \<open>cur\<close> is the field that continuation lines still add to. A continuation of
  nothing, an envelope line and a line without a name are dropped.
\<close>

definition flush :: "(ustr \<times> ustr) option \<Rightarrow> headers" where
  "flush cur = (case cur of None \<Rightarrow> [] | Some (n, v) \<Rightarrow> [(n, rstrip_by line_end v)])"

definition field_of :: "ustr \<Rightarrow> ustr \<times> ustr" where
  "field_of l = (before 58 l, dropWhile blank (case after 58 l of None \<Rightarrow> [] | Some v \<Rightarrow> v))"

fun parse_fields :: "(ustr \<times> ustr) option \<Rightarrow> ustr list \<Rightarrow> headers" where
  "parse_fields cur [] = flush cur"
| "parse_fields cur (l # ls) =
     (if blank (hd l) then parse_fields (map_option (\<lambda>(n, v). (n, v @ l)) cur) ls
      else flush cur @
        (if py_startswith (us ''From '') l \<or> hd l = 58 then parse_fields None ls
         else parse_fields (Some (field_of l)) ls))"

definition email_headers :: "ustr \<Rightarrow> headers" where
  "email_headers text = parse_fields None (takeWhile header_match (text_lines text))"

section \<open>\<open>parse_request\<close>\<close>

text \<open>The two numbers of \<open>HTTP/<major>.<minor>\<close>, each of at most ten digits.\<close>

definition version_digits :: "ustr \<Rightarrow> bool" where
  "version_digits s \<longleftrightarrow> s \<noteq> [] \<and> list_all is_digit s \<and> length s \<le> 10"

definition http_version :: "ustr \<Rightarrow> (int \<times> int) option" where
  "http_version v =
     (if \<not> py_startswith (us ''HTTP/'') v then None
      else (case split_on 46 (drop 5 v) of
              [a, b] \<Rightarrow> if version_digits a \<and> version_digits b
                        then Some (digits_value a, digits_value b) else None
            | _ \<Rightarrow> None))"

text \<open>An error is answered and ends the parsing.\<close>

definition refuse_request ::
  "interp \<Rightarrow> hcls \<Rightarrow> bool \<Rightarrow> nat \<Rightarrow> ustr \<Rightarrow> ustr \<Rightarrow> ('a conn_scheme, request option) prog" where
  "refuse_request py cls is_head code message explain =
     seq_p (send_error_page py cls is_head code message explain) (return_p None)"

definition bad_request :: "interp \<Rightarrow> hcls \<Rightarrow> string \<Rightarrow> ustr \<Rightarrow> ('a conn_scheme, request option) prog" where
  "bad_request py cls what text =
     refuse_request py cls False 400 (us what @ us '' ('' @ py_repr text @ us '')'') (us (explanation 400))"

text \<open>Several slashes at the start of a target are one.\<close>

definition one_slash :: "ustr \<Rightarrow> ustr" where
  "one_slash p = (if py_startswith [47, 47] p then 47 # dropWhile (\<lambda>c. c = 47) p else p)"

definition parse_headers ::
  "interp \<Rightarrow> hcls \<Rightarrow> ustr \<Rightarrow> ustr \<Rightarrow> ('a conn_scheme, request option) prog" where
  "parse_headers py cls cmd target =
     bind_p (read_block MAXHEADERS) (\<lambda>b.
       case b of
         Line_too_long \<Rightarrow> refuse_request py cls (cmd = us ''HEAD'') 431 (us ''Line too long'')
           (us ''got more than 65536 bytes when reading header line'')
       | Too_many_headers \<Rightarrow> refuse_request py cls (cmd = us ''HEAD'') 431 (us ''Too many headers'')
           (us ''got more than 100 headers'')
       | Block text \<Rightarrow>
           (case email_fault py (us text) of
              Some e \<Rightarrow> raise_p e
            | None \<Rightarrow> return_p (Some \<lparr>command = cmd, path = one_slash target,
                                      headers = email_headers (us text)\<rparr>)))"

definition parse_words ::
  "interp \<Rightarrow> hcls \<Rightarrow> ustr \<Rightarrow> ustr list \<Rightarrow> ('a conn_scheme, request option) prog" where
  "parse_words py cls line words =
     (case words of
        [cmd, target] \<Rightarrow>
          if cmd \<noteq> us ''GET'' then bad_request py cls ''Bad HTTP/0.9 request type'' cmd
          else parse_headers py cls cmd target
      | [cmd, target, _] \<Rightarrow> parse_headers py cls cmd target
      | _ \<Rightarrow> bad_request py cls ''Bad request syntax'' line)"

definition parse_request :: "interp \<Rightarrow> hcls \<Rightarrow> bytes \<Rightarrow> ('a conn_scheme, request option) prog" where
  "parse_request py cls raw =
     (let line = rstrip_by line_end (us raw); words = py_words line in
      seq_p (modify_p (\<lambda>c. c\<lparr>request_version := us ''HTTP/0.9'', close_connection := True, requestline := line\<rparr>))
        (if words = [] then return_p None
         else if length words \<ge> 3 then
           (case http_version (last words) of
              None \<Rightarrow> bad_request py cls ''Bad request version'' (last words)
            | Some (major, _) \<Rightarrow>
                if major \<ge> 2 then
                  refuse_request py cls False 505
                    (us ''Invalid HTTP version ('' @ drop 5 (last words) @ us '')'') (us (explanation 505))
                else seq_p (modify_p (\<lambda>c. c\<lparr>request_version := last words\<rparr>))
                           (parse_words py cls line words))
         else parse_words py cls line words))"

section \<open>\<open>handle_one_request\<close>\<close>

text \<open>A timeout of the client, wherever it strikes, is logged and ends the connection.\<close>

definition timed :: "hcls \<Rightarrow> ('a conn_scheme, unit) prog \<Rightarrow> ('a conn_scheme, unit) prog" where
  "timed cls m =
     catch_p m
       (\<lambda>e. if is_os TimeoutError e
              then seq_p (log_error_p cls (us ''Request timed out: TimeoutError('' @ [39] @ exn_str e
                                            @ [39] @ us '')''))
                         (modify_p (\<lambda>c. c\<lparr>close_connection := True\<rparr>))
            else raise_p e)"

text \<open>
  \<open>run\<close> is what the class does with a parsed request. \<open>read_request\<close> is the body of the \<open>try\<close>, for a
  connection whose reads wait without end; \<open>handle_raw\<close> is the whole, for a class with a timeout.
\<close>

definition on_line ::
  "interp \<Rightarrow> hcls \<Rightarrow> (request \<Rightarrow> ('a conn_scheme, unit) prog) \<Rightarrow> bytes \<Rightarrow> ('a conn_scheme, unit) prog" where
  "on_line py cls run raw =
     (if length raw > MAXLINE then
        seq_p (modify_p (\<lambda>c. c\<lparr>requestline := [], request_version := []\<rparr>))
              (send_error py cls 414 (us (reason 414)))
      else if raw = [] then modify_p (\<lambda>c. c\<lparr>close_connection := True\<rparr>)
      else bind_p (parse_request py cls raw) (\<lambda>got.
             case got of None \<Rightarrow> return_p () | Some req \<Rightarrow> run req))"

definition read_request ::
  "interp \<Rightarrow> hcls \<Rightarrow> (request \<Rightarrow> ('a conn_scheme, unit) prog) \<Rightarrow> ('a conn_scheme, unit) prog" where
  "read_request py cls run = bind_p (rfile_readline (Suc MAXLINE)) (on_line py cls run)"

definition handle_raw ::
  "interp \<Rightarrow> hcls \<Rightarrow> (request \<Rightarrow> ('a conn_scheme, unit) prog) \<Rightarrow> ('a conn_scheme, unit) prog" where
  "handle_raw py cls run = timed cls (read_request py cls run)"

text \<open>A class has a method for some commands; any other is answered 501.\<close>

definition dispatch ::
  "interp \<Rightarrow> hcls \<Rightarrow> (ustr \<times> (request \<Rightarrow> ('a conn_scheme, unit) prog)) list \<Rightarrow> request
    \<Rightarrow> ('a conn_scheme, unit) prog" where
  "dispatch py cls methods req =
     (case map_of methods (command req) of
        Some run \<Rightarrow> run req
      | None \<Rightarrow> send_error_page py cls (command req = us ''HEAD'') 501
          (us ''Unsupported method ('' @ py_repr (command req) @ us '')'') (us (explanation 501)))"

end
