(* ===== verification/Handler.thy ===== *)
theory Handler
  imports Jobs Parse
begin

text \<open>
  The class \<open>Handler\<close>: logging, \<open>_send\<close>, and the three methods, with the part of
  \<open>BaseHTTPRequestHandler.handle_one_request\<close> that picks the method by name. To a method a request
  is its parsed form; the bytes of its body are still on the connection.
\<close>

section \<open>The class\<close>

text \<open>The socket timeout \<open>StreamRequestHandler.setup()\<close> applies, in seconds.\<close>

definition Handler_timeout :: "int option" where
  "Handler_timeout = Some 30"

section \<open>Logging\<close>

definition log_text :: "interp \<Rightarrow> ustr \<Rightarrow> ustr \<Rightarrow> ustr" where
  "log_text py addr m = addr @ us '' - - ['' @ log_date py @ us ''] '' @ m @ [10]"

definition handler_cls :: "interp \<Rightarrow> bool \<Rightarrow> hcls" where
  "handler_cls py verbose = \<lparr>
     server_version = SERVER_NAME,
     message_lines = (\<lambda>addr m. if verbose then [(Stdout, log_text py addr m)] else []),
     error_lines = (\<lambda>addr m. [(Stderr, log_text py addr m)])\<rparr>"

section \<open>\<open>_send\<close>\<close>

fun send_headers :: "headers \<Rightarrow> ('a conn_scheme, unit) prog" where
  "send_headers [] = return_p ()"
| "send_headers ((name, v) # hs) = seq_p (send_header name v) (send_headers hs)"

text \<open>Serialisation and encoding come before the \<open>try\<close>; only a broken pipe is swallowed.\<close>

definition send_p ::
  "interp \<Rightarrow> hcls \<Rightarrow> nat \<Rightarrow> json \<Rightarrow> headers \<Rightarrow> ('a conn_scheme, unit) prog" where
  "send_p py cls status body hs =
     bind_p (lift_p (utf8_encode (dumps body @ [10]))) (\<lambda>encoded.
       let data = to_bytes encoded in
       catch_p
         (seq_p (send_response py cls status None)
         (seq_p (send_header (us ''Content-Type'') (us ''application/json''))
         (seq_p (send_header (us ''Content-Length'') (str_int (int (length data))))
         (seq_p (send_headers hs)
         (seq_p end_headers (wfile_write data))))))
         (\<lambda>e. if is_os BrokenPipeError e then return_p () else raise_p e))"

definition send_reply :: "interp \<Rightarrow> hcls \<Rightarrow> reply \<Rightarrow> ('a conn_scheme, unit) prog" where
  "send_reply py cls r = (case r of (status, body, hs) \<Rightarrow> send_p py cls status body hs)"

section \<open>Running a route\<close>

text \<open>
  The two \<open>except\<close> clauses around a route, the same in the three methods: an \<open>OSError\<close> is
  an unreachable Flux, anything else is logged and answered with a plain 500.
\<close>

definition unavailable :: "exn \<Rightarrow> reply" where
  "unavailable e =
     (503, json_obj [(''error'', JStr (us ''flux unavailable'')), (''detail'', JStr (exn_str e))], [])"

definition guarded ::
  "hcls \<Rightarrow> ustr \<Rightarrow> (('w, 'h) srv, reply) prog \<Rightarrow> (('w, 'h) srv, reply) prog" where
  "guarded cls p run =
     catch_p run (\<lambda>e.
       if is_OSError e then return_p (unavailable e)
       else if e = KeyboardInterrupt then raise_p e
       else seq_p (log_error_p cls (us ''unhandled exception in '' @ p @ us '': '' @ exn_str e))
                  (return_p (error_reply 500 (us ''internal error''))))"

definition not_found :: "ustr \<Rightarrow> reply" where
  "not_found p = (404, json_obj [(''error'', JStr (us ''not found'')), (''path'', JStr p)], [])"

section \<open>\<open>do_GET\<close>\<close>

text \<open>\<open>routes\<close> is the dictionary \<open>ROUTES\<close> at the time of the request: a test adds a route of its own to it.\<close>

definition get_from ::
  "(ustr \<times> (('w, 'h) srv, reply) prog) list \<Rightarrow> interp \<Rightarrow> hcls \<Rightarrow> ('w, 'h, 's, 'i) flux_api \<Rightarrow> request
    \<Rightarrow> (('w, 'h) srv, unit) prog" where
  "get_from routes py cls api req =
     (let p = before 63 (path req) in
      case map_of routes p of
        Some run \<Rightarrow> bind_p (guarded cls p run) (send_reply py cls)
      | None \<Rightarrow>
          (case parse_job_path api p of
             Inl e \<Rightarrow> if is_ValueError e then send_reply py cls (error_reply 400 (exn_str e)) else raise_p e
           | Inr None \<Rightarrow> send_reply py cls (not_found p)
           | Inr (Some j) \<Rightarrow> bind_p (guarded cls p (jobs_state api j)) (send_reply py cls)))"

definition do_GET ::
  "interp \<Rightarrow> hcls \<Rightarrow> os_env \<Rightarrow> ('w, 'h, 's, 'i) flux_api \<Rightarrow> request \<Rightarrow> (('w, 'h) srv, unit) prog" where
  "do_GET py cls os api = get_from (ROUTES os api) py cls api"

section \<open>\<open>do_POST\<close>\<close>

definition content_length :: "request \<Rightarrow> exn + int" where
  "content_length req =
     (case header_get (us ''Content-Length'') req of None \<Rightarrow> Inr 0 | Some v \<Rightarrow> py_int v)"

definition malformed :: reply where
  "malformed = error_reply 400 (us ''malformed request'')"

text \<open>The first \<open>try\<close> of \<open>do_POST\<close>; \<open>None\<close> when it has already answered and returned.\<close>

definition post_body ::
  "interp \<Rightarrow> hcls \<Rightarrow> request \<Rightarrow> (('w, 'h) srv, json option) prog" where
  "post_body py cls req =
     catch_p
       (bind_p (lift_p (content_length req)) (\<lambda>clen.
          if clen < 0 then seq_p (send_reply py cls malformed) (return_p None)
          else if clen > MAX_BODY_SIZE
            then seq_p (send_reply py cls (error_reply 400 (us ''request body too large''))) (return_p None)
          else
            bind_p (if clen \<noteq> 0 then rfile_read (nat clen) else return_p ''{}'') (\<lambda>raw.
            bind_p (lift_p (json_loads py raw)) (\<lambda>body. return_p (Some body)))))
       (\<lambda>e. if is_ValueError e then seq_p (send_reply py cls malformed) (return_p None) else raise_p e)"

definition do_POST ::
  "interp \<Rightarrow> hcls \<Rightarrow> os_env \<Rightarrow> ('w, 'h, 's, 'i) flux_api \<Rightarrow> request \<Rightarrow> (('w, 'h) srv, unit) prog" where
  "do_POST py cls os api req =
     (let p = before 63 (path req) in
      case map_of (POST_ROUTES os api) p of
        None \<Rightarrow> send_reply py cls (not_found p)
      | Some run \<Rightarrow>
          bind_p (post_body py cls req) (\<lambda>got.
            case got of
              None \<Rightarrow> return_p ()
            | Some (JObj body) \<Rightarrow> bind_p (guarded cls p (run body)) (send_reply py cls)
            | Some _ \<Rightarrow>
                send_reply py cls (error_reply 400 (us ''request body must be a JSON object''))))"

section \<open>\<open>do_DELETE\<close>\<close>

definition delete_reason :: "ustr \<Rightarrow> ustr option" where
  "delete_reason query =
     (case map_of (parse_qs query) (us ''reason'') of Some (v # _) \<Rightarrow> Some v | _ \<Rightarrow> None)"

definition do_DELETE ::
  "interp \<Rightarrow> hcls \<Rightarrow> ('w, 'h, 's, 'i) flux_api \<Rightarrow> request \<Rightarrow> (('w, 'h) srv, unit) prog" where
  "do_DELETE py cls api req =
     bind_p (lift_p (urlsplit py (path req))) (\<lambda>(p, query).
       case parse_job_path api p of
         Inl e \<Rightarrow> if is_ValueError e then send_reply py cls (error_reply 400 (exn_str e)) else raise_p e
       | Inr None \<Rightarrow> send_reply py cls (not_found p)
       | Inr (Some j) \<Rightarrow>
           bind_p (guarded cls p (jobs_cancel api j (delete_reason query))) (send_reply py cls))"

section \<open>\<open>handle_one_request\<close>, after the request has been parsed\<close>

definition METHODS ::
  "interp \<Rightarrow> hcls \<Rightarrow> os_env \<Rightarrow> ('w, 'h, 's, 'i) flux_api \<Rightarrow> (ustr \<times> (request \<Rightarrow> (('w, 'h) srv, unit) prog)) list" where
  "METHODS py cls os api =
     [(us ''GET'', do_GET py cls os api), (us ''POST'', do_POST py cls os api), (us ''DELETE'', do_DELETE py cls api)]"

definition do_method ::
  "interp \<Rightarrow> hcls \<Rightarrow> os_env \<Rightarrow> ('w, 'h, 's, 'i) flux_api \<Rightarrow> request \<Rightarrow> (('w, 'h) srv, unit) prog" where
  "do_method py cls os api = dispatch py cls (METHODS py cls os api)"

definition handle_one_request ::
  "interp \<Rightarrow> hcls \<Rightarrow> os_env \<Rightarrow> ('w, 'h, 's, 'i) flux_api \<Rightarrow> request \<Rightarrow> (('w, 'h) srv, unit) prog" where
  "handle_one_request py cls os api req = timed cls (do_method py cls os api req)"

lemma do_method_simps:
  "command req = us ''GET'' \<Longrightarrow> do_method py cls os api req = do_GET py cls os api req"
  "command req = us ''POST'' \<Longrightarrow> do_method py cls os api req = do_POST py cls os api req"
  "command req = us ''DELETE'' \<Longrightarrow> do_method py cls os api req = do_DELETE py cls api req"
  by (simp_all add: do_method_def dispatch_def METHODS_def)

section \<open>One reply, one message\<close>

text \<open>The message a reply becomes, and the state of a connection no answer has started on.\<close>

definition body_bytes :: "json \<Rightarrow> bytes" where
  "body_bytes body = to_bytes (dumps body @ [10])"

definition json_message :: "interp \<Rightarrow> hcls \<Rightarrow> reply \<Rightarrow> nat \<times> ustr \<times> headers \<times> bytes" where
  "json_message py cls r = (case r of (code, body, hs) \<Rightarrow>
     (code, us (reason code),
      [(us ''Server'', server_version cls @ [32] @ sys_version py), (us ''Date'', http_date py),
       (us ''Content-Type'', us ''application/json''),
       (us ''Content-Length'', str_int (int (length (body_bytes body))))] @ hs,
      body_bytes body))"

definition connected :: "'a conn_scheme \<Rightarrow> bool" where
  "connected c \<longleftrightarrow> \<not> http09 c \<and> hbuf c = [] \<and> wfaults c = []"

text \<open>A connection on which no answer has been started and which takes writes, of any version.\<close>

definition ready :: "'a conn_scheme \<Rightarrow> bool" where
  "ready c \<longleftrightarrow> hbuf c = [] \<and> wfaults c = []"

lemma connected_ready: "connected c \<longleftrightarrow> \<not> http09 c \<and> ready c"
  by (auto simp: connected_def ready_def)

lemma ready_updates [simp]:
  "ready (c\<lparr>logs := l\<rparr>) = ready c" "ready (c\<lparr>rfile := b\<rparr>) = ready c" "ready (c\<lparr>sent := b\<rparr>) = ready c"
  "ready (c\<lparr>close_connection := f\<rparr>) = ready c" "ready (c\<lparr>requestline := r\<rparr>) = ready c"
  "ready (c\<lparr>request_version := r\<rparr>) = ready c"
  by (simp_all add: ready_def)

text \<open>The interpreter's version and date texts are plain header values.\<close>

definition texts_ok :: "interp \<Rightarrow> bool" where
  "texts_ok py \<longleftrightarrow> printable (sys_version py) \<and> printable (http_date py)
     \<and> (http_date py = [] \<or> hd (http_date py) \<noteq> 32)"

lemma printable_us_literal:
  "printable (us s) \<longleftrightarrow> list_all (\<lambda>c. 32 \<le> (of_char c :: int) \<and> of_char c \<le> (126 :: int)) s"
  by (induction s) (simp_all add: us_Cons)

lemma printable_reason [simp]: "printable (us (reason code))"
  by (simp add: reason_def printable_us_literal)

lemma ascii_reason [simp]: "ascii (us (reason code))"
  by (rule printable_ascii) simp

lemma ascii_status_line: "ascii m \<Longrightarrow> ascii (status_line code m)"
  by (simp add: status_line_def lit_simps)

lemma latin1_header_line:
  "header_ok (n, v) \<Longrightarrow> latin1_encode (header_line n v) = Inr (to_bytes (header_line n v))"
  by (simp add: header_ok_def header_line_def printable_ascii lit_simps)

text \<open>Sending a header that does not concern the connection appends its line.\<close>

lemma send_plain:
  assumes "header_ok (n, v)" and "ascii_lower n \<noteq> us ''connection''" and "\<not> http09 c"
  shows "send_header n v c = (Inr (), c\<lparr>hbuf := hbuf c @ to_bytes (header_line n v)\<rparr>)"
  using assms by (intro send_header_eq latin1_header_line)

text \<open>A header that does not concern the connection, for any version.\<close>

lemma send_any:
  assumes "header_ok (n, v)" and "ascii_lower n \<noteq> us ''connection''"
  shows "send_header n v c
    = (Inr (), c\<lparr>hbuf := hbuf c @ (if http09 c then [] else to_bytes (header_line n v))\<rparr>)"
proof (cases "http09 c")
  case True
  then show ?thesis by (simp add: send_header_def seq_p_def bind_p_def note_connection_other [OF assms(2)])
qed (use send_plain [OF assms] in simp)

lemma end_headers_09: "http09 c \<Longrightarrow> end_headers c = (Inr (), c)"
  by (simp add: end_headers_def)

lemma send_headers_ok:
  "plain_headers hs \<Longrightarrow> \<not> http09 c \<Longrightarrow>
   send_headers hs c =
     (Inr (), c\<lparr>hbuf := hbuf c @ to_bytes (concat (map (\<lambda>(n, v). header_line n v) hs))\<rparr>)"
proof (induction hs arbitrary: c)
  case (Cons h hs)
  obtain n v where h: "h = (n, v)" by (cases h)
  then have "send_header n v c = (Inr (), c\<lparr>hbuf := hbuf c @ to_bytes (header_line n v)\<rparr>)"
    using Cons.prems by (intro send_plain) (auto simp: plain_header_def)
  then show ?case using Cons h by (simp add: seq_p_Inr)
qed (simp add: return_p_def)

lemma server_header_ok:
  "texts_ok py \<Longrightarrow> server_version cls = SERVER_NAME \<Longrightarrow>
   header_ok (us ''Server'', server_version cls @ 32 # sys_version py)"
  "texts_ok py \<Longrightarrow> header_ok (us ''Date'', http_date py)"
  "header_ok (us ''Content-Type'', us ''application/json'')"
  "header_ok (us ''Content-Length'', str_int i)"
  using printable_str_int by (simp_all add: header_ok_def texts_ok_def SERVER_NAME_def lit_simps)

lemma server_header_names:
  "ascii_lower (us ''Server'') \<noteq> us ''connection''" "ascii_lower (us ''Date'') \<noteq> us ''connection''"
  "ascii_lower (us ''Content-Type'') \<noteq> us ''connection''"
  "ascii_lower (us ''Content-Length'') \<noteq> us ''connection''"
  by (simp_all add: ascii_lower_def lit_simps)

lemma send_response_ok:
  assumes "texts_ok py" and "server_version cls = SERVER_NAME" and "\<not> http09 c" and "hbuf c = []"
  shows "send_response py cls code None c =
    (Inr (), c\<lparr>logs := logs c @ message_lines cls (address_string c) (request_log code c),
               hbuf := to_bytes (status_line code (us (reason code)))
                 @ to_bytes (header_line (us ''Server'') (server_version cls @ 32 # sys_version py))
                 @ to_bytes (header_line (us ''Date'') (http_date py))\<rparr>)"
proof -
  have "latin1_encode (status_line code (us (reason code)))
      = Inr (to_bytes (status_line code (us (reason code))))"
    by (simp add: ascii_status_line)
  then show ?thesis
    unfolding send_response_def using assms(3,4)
    by (simp add: step_p http_simps send_plain server_header_names server_header_ok(1) [OF assms(1,2)]
        server_header_ok(2) [OF assms(1)])
qed

lemma send_reply_ok:
  assumes py: "texts_ok py" and cls: "server_version cls = SERVER_NAME"
    and c: "connected c" and hs: "plain_headers hs"
  shows "send_reply py cls (code, body, hs) c =
    (Inr (), c\<lparr>logs := logs c @ message_lines cls (address_string c) (request_log code c),
               sent := sent c @ render (json_message py cls (code, body, hs))\<rparr>)"
proof -
  have 1: "\<not> http09 c" "hbuf c = []" "wfaults c = []" using c by (simp_all add: connected_def)
  have 2: "utf8_encode (dumps body @ [10]) = Inr (dumps body @ [10])" by simp
  show ?thesis
    unfolding send_reply_def send_p_def 2
    using 1 hs
    by (simp add: lift_p_def bind_p_def catch_p_def seq_p_def send_response_ok [OF py cls] send_plain
        server_header_names server_header_ok send_headers_ok http_simps return_p_def json_message_def
        render_def head_text_def body_bytes_def Let_def)
qed

text \<open>To a request without a version goes the body alone.\<close>

lemma send_headers_09: "plain_headers hs \<Longrightarrow> http09 c \<Longrightarrow> send_headers hs c = (Inr (), c)"
proof (induction hs)
  case (Cons h hs)
  obtain n v where "h = (n, v)" by (cases h)
  with Cons show ?case by (simp add: seq_p_def bind_p_def plain_header_def send_any)
qed (simp add: return_p_def)

lemma send_reply_09:
  assumes "texts_ok py" and "server_version cls = SERVER_NAME" and "http09 c" and "wfaults c = []"
    and "plain_headers hs"
  shows "send_reply py cls (code, body, hs) c =
    (Inr (), c\<lparr>logs := logs c @ message_lines cls (address_string c) (request_log code c),
               sent := sent c @ body_bytes body\<rparr>)"
proof -
  have 1: "utf8_encode (dumps body @ [10]) = Inr (dumps body @ [10])" by simp
  let ?c = "c\<lparr>logs := logs c @ message_lines cls (address_string c) (request_log code c)\<rparr>"
  have 2: "http09 ?c" using assms(3) by simp
  then have "send_response py cls code None c = (Inr (), ?c)"
    unfolding send_response_def
    by (simp add: seq_p_def bind_p_def log_message_p_eq send_response_only_def send_any server_header_names
        server_header_ok(1) [OF assms(1,2)] server_header_ok(2) [OF assms(1)])
  then show ?thesis
    unfolding send_reply_def send_p_def 1
    using 2 assms(4,5)
    by (simp add: lift_p_def bind_p_def catch_p_def seq_p_def send_any server_header_names server_header_ok
        send_headers_09 end_headers_09 http_simps body_bytes_def Let_def)
qed

definition reply_bytes :: "interp \<Rightarrow> hcls \<Rightarrow> reply \<Rightarrow> 'a conn_scheme \<Rightarrow> bytes" where
  "reply_bytes py cls rep c = (if http09 c then body_bytes (fst (snd rep)) else render (json_message py cls rep))"

lemma send_reply_any:
  assumes "texts_ok py" and "server_version cls = SERVER_NAME" and "ready c" and "plain_headers hs"
  shows "send_reply py cls (code, body, hs) c =
    (Inr (), c\<lparr>logs := logs c @ message_lines cls (address_string c) (request_log code c),
               sent := sent c @ reply_bytes py cls (code, body, hs) c\<rparr>)"
  using send_reply_09 [OF assms(1,2) _ _ assms(4), of c] send_reply_ok [OF assms(1,2) _ assms(4), of c] assms(3)
  by (cases "http09 c") (simp_all add: reply_bytes_def connected_ready ready_def)

text \<open>A client reads the message back whole: the status, the headers, all of the body.\<close>

lemma json_message_ok:
  assumes "texts_ok py" and "server_version cls = SERVER_NAME" and "plain_headers hs"
  shows "message_ok (json_message py cls (code, body, hs))"
proof -
  have "value_ok (us ''Content-Length'', str_int (int n))" for n
    using dec_digits_digits [OF hd_in_set [OF dec_digits_not_Nil [of n]]]
    by (auto simp: value_ok_def str_int_def)
  moreover have "list_all header_ok hs" "list_all value_ok hs"
    using assms(3) by (auto simp: plain_headers_def plain_header_def list_all_iff)
  ultimately show ?thesis
    using assms(1) server_header_ok(1) [OF assms(1,2)] server_header_ok(2) [OF assms(1)]
      server_header_ok(3,4)
    by (simp add: message_ok_def json_message_def value_ok_def texts_ok_def SERVER_NAME_def assms(2)
        find_header_def ascii_lower_def lit_simps)
qed

lemma read_reply:
  assumes "texts_ok py" and "server_version cls = SERVER_NAME" and "plain_headers hs"
  shows "read_message (render (json_message py cls (code, body, hs)))
    = Inr (json_message py cls (code, body, hs))"
  by (rule wire.dec_enc) (rule json_message_ok [OF assms])

end
