(* ===== verification/Interrupt.thy ===== *)
theory Interrupt
  imports Handler
begin

text \<open>
  \<open>KeyboardInterrupt\<close>: which code it can come from. The server's signal handler raises it on a second
  signal, wherever the interpreter is; in a route, that is a call of the bindings. No \<open>except\<close>
  clause between there and the loop catches it.
\<close>

named_theorems calm_intros \<open>programs that no signal interrupts\<close>

definition calm :: "('s, 'a) prog \<Rightarrow> bool" where
  "calm m \<longleftrightarrow> (\<forall>s. fst (m s) \<noteq> Inl KeyboardInterrupt)"

lemma calm_return [calm_intros]: "calm (return_p x)"
  and calm_raise [calm_intros]: "e \<noteq> KeyboardInterrupt \<Longrightarrow> calm (raise_p e)"
  and calm_lift [calm_intros]: "r \<noteq> Inl KeyboardInterrupt \<Longrightarrow> calm (lift_p r)"
  by (simp_all add: calm_def prog_simps)

lemma calm_bind [calm_intros]: "calm m \<Longrightarrow> (\<And>x. calm (f x)) \<Longrightarrow> calm (bind_p m f)"
  unfolding calm_def bind_p_def by (auto split: prod.splits sum.splits) (metis fst_conv)+

lemma calm_catch [calm_intros]:
  assumes "calm m" and "\<And>e. e \<noteq> KeyboardInterrupt \<Longrightarrow> calm (h e)"
  shows "calm (catch_p m h)"
  unfolding calm_def
proof
  fix s
  obtain r t where m: "m s = (r, t)" by fastforce
  then have "r \<noteq> Inl KeyboardInterrupt" using assms(1) unfolding calm_def by (metis fst_conv)
  then show "fst (catch_p m h s) \<noteq> Inl KeyboardInterrupt"
    using assms(2) by (cases r) (auto simp: catch_p_def m calm_def)
qed

lemma calm_if [calm_intros]: "(b \<Longrightarrow> calm m) \<Longrightarrow> (\<not> b \<Longrightarrow> calm n) \<Longrightarrow> calm (if b then m else n)"
  by simp

lemma calm_case_sum [calm_intros]:
  "(\<And>x. r = Inl x \<Longrightarrow> calm (f x)) \<Longrightarrow> (\<And>y. r = Inr y \<Longrightarrow> calm (g y)) \<Longrightarrow> calm (case r of Inl x \<Rightarrow> f x | Inr y \<Rightarrow> g y)"
  by (cases r) auto

lemma calm_case_option [calm_intros]:
  "calm m \<Longrightarrow> (\<And>y. r = Some y \<Longrightarrow> calm (g y)) \<Longrightarrow> calm (case r of None \<Rightarrow> m | Some y \<Rightarrow> g y)"
  by (cases r) auto

lemma calm_on_world [calm_intros]: "calm m \<Longrightarrow> calm (on_world m)"
  by (auto simp: calm_def on_world_def split: prod.split) (metis fst_conv)

lemma calm_py_int [calm_intros]: "calm (lift_p (py_int s))"
  by (rule calm_lift) (auto dest: py_int_error)

section \<open>The routes\<close>

text \<open>A run in which no signal falls into a call of the bindings.\<close>

definition uninterrupted :: "('w, 'h, 's, 'i) flux_api \<Rightarrow> bool" where
  "uninterrupted api \<longleftrightarrow>
     calm (Flux api) \<and> (\<forall>h a. calm (attr_get api h a)) \<and> (\<forall>h s. calm (submit api h s))
     \<and> (\<forall>h j r. calm (cancel api h j r)) \<and> (\<forall>h j a. calm (job_list_id api h j a))
     \<and> (\<forall>c kw. from_command api c kw \<noteq> Inl KeyboardInterrupt) \<and> (\<forall>i. to_dict api i \<noteq> Inl KeyboardInterrupt)"

lemma uninterruptedD [calm_intros]:
  assumes "uninterrupted api"
  shows "calm (Flux api)" "calm (attr_get api h a)" "calm (submit api h s)" "calm (cancel api h j r)"
    "calm (job_list_id api h j l)" "from_command api c kw \<noteq> Inl KeyboardInterrupt" "to_dict api i \<noteq> Inl KeyboardInterrupt"
  using assms unfolding uninterrupted_def by blast+

lemma calm_flux_handle [calm_intros]:
  fixes api :: "('w, 'h, 's, 'i) flux_api"
  assumes "uninterrupted api"
  shows "calm (flux_handle api)"
  unfolding calm_def
proof
  fix s :: "('w, 'h) srv"
  obtain r t where m: "on_world (Flux api) s = (r, t)" by fastforce
  then have "r \<noteq> Inl KeyboardInterrupt"
    using calm_on_world [OF uninterruptedD(1) [OF assms]] unfolding calm_def by (metis fst_conv)
  then show "fst (flux_handle api s) \<noteq> Inl KeyboardInterrupt"
    by (auto simp: flux_handle_def m split: option.split sum.split)
qed

lemma calm_root: "uninterrupted api \<Longrightarrow> calm (root os api)"
  unfolding root_def by (intro calm_intros)

lemma calm_health: "calm health"
  unfolding health_def by (intro calm_intros)

lemma calm_cancel: "uninterrupted api \<Longrightarrow> calm (jobs_cancel api j rsn)"
  unfolding jobs_cancel_def by (intro calm_intros)

lemma calm_state: "uninterrupted api \<Longrightarrow> calm (jobs_state api j)"
  unfolding jobs_state_def by (intro calm_intros)

lemma calm_submit: "uninterrupted api \<Longrightarrow> calm (jobs_submit os api body)"
  unfolding jobs_submit_def submit_jobspec_def
  by (intro calm_intros) (auto dest: uninterruptedD(6))

end
