(* ===== verification/Answers.thy ===== *)
theory Answers
  imports Interrupt
begin

text \<open>
  What a client of the server observes: on a connection that takes writes, each method
  answers with exactly one complete HTTP message whose status is one the method documents
  (or 500) and whose body has the shape documented for it, or leaves the socket untouched. The proofs run through the contract of a route
  (\<open>route\<close>) and the fact that a reply is read back whole (\<open>read_reply\<close>).
\<close>

section \<open>Observing\<close>

text \<open>What the client reads off the socket between two states of the server.\<close>

definition client_reads ::
  "'a conn_scheme \<Rightarrow> 'a conn_scheme \<Rightarrow> exn + nat \<times> ustr \<times> headers \<times> bytes" where
  "client_reads s t =
     (if take (length (sent s)) (sent t) = sent s then read_message (drop (length (sent s)) (sent t))
      else Inl (ValueError (us ''sent bytes changed'')))"

definition answered ::
  "interp \<Rightarrow> hcls \<Rightarrow> nat set \<Rightarrow> 'a conn_scheme \<Rightarrow> 'a conn_scheme \<Rightarrow> bool" where
  "answered py cls codes s t \<longleftrightarrow>
     close_connection t = close_connection s
     \<and> (\<exists>code body hs. code \<in> codes \<and> plain_headers hs \<and> conforms code body hs
          \<and> client_reads s t = Inr (json_message py cls (code, body, hs)))"

lemma answered_mono: "answered py cls a s t \<Longrightarrow> a \<subseteq> b \<Longrightarrow> answered py cls b s t"
  unfolding answered_def by blast

text \<open>Nothing of an answer goes out between two states.\<close>

definition unanswered :: "'a conn_scheme \<Rightarrow> 'a conn_scheme \<Rightarrow> bool" where
  "unanswered s t \<longleftrightarrow> sent t = sent s \<and> hbuf t = hbuf s \<and> wfaults t = wfaults s
     \<and> request_version t = request_version s \<and> close_connection t = close_connection s \<and> rend t = rend s"

lemma unanswered_refl [simp]: "unanswered s s"
  by (simp add: unanswered_def)

lemma unanswered_trans: "unanswered s t \<Longrightarrow> unanswered t u \<Longrightarrow> unanswered s u"
  by (simp add: unanswered_def)

lemma unanswered_updates [simp]:
  "unanswered s (s\<lparr>rfile := b\<rparr>)" "unanswered s (s\<lparr>logs := l\<rparr>)" "unanswered s (t\<lparr>logs := l\<rparr>) = unanswered s t"
  by (simp_all add: unanswered_def)

lemma unanswered_sent: "unanswered s t \<Longrightarrow> sent t = sent s"
  and unanswered_close: "unanswered s t \<Longrightarrow> close_connection t = close_connection s"
  and unanswered_connected: "unanswered s t \<Longrightarrow> connected t = connected s"
  and unanswered_ready: "unanswered s t \<Longrightarrow> ready t = ready s"
  and unanswered_http09: "unanswered s t \<Longrightarrow> http09 t = http09 s"
  by (simp_all add: unanswered_def connected_def ready_def http09_def)

lemma same_conn_unanswered: "same_conn s t \<Longrightarrow> unanswered s t"
  using same_conn_fields [of s t] by (simp add: unanswered_def)

lemma answered_from:
  assumes "unanswered r s" and "answered py cls a s t"
  shows "answered py cls a r t"
proof -
  have "sent s = sent r" "close_connection s = close_connection r" using assms(1) by (simp_all add: unanswered_def)
  then have "client_reads s t = client_reads r t" by (simp add: client_reads_def)
  with assms(2) \<open>close_connection s = _\<close> show ?thesis unfolding answered_def by simp
qed

text \<open>A program that ends by sending a reply of one of these codes, and has sent nothing before.\<close>

definition replied ::
  "interp \<Rightarrow> hcls \<Rightarrow> nat set \<Rightarrow> 'a conn_scheme \<Rightarrow> exn + unit \<Rightarrow> 'a conn_scheme \<Rightarrow> bool" where
  "replied py cls codes s r t \<longleftrightarrow>
     (\<exists>u code body hs. unanswered s u \<and> code \<in> codes \<and> plain_headers hs \<and> conforms code body hs
        \<and> send_reply py cls (code, body, hs) u = (r, t))"

lemma repliedI:
  "send_reply py cls (code, body, hs) u = (r, t) \<Longrightarrow> unanswered s u \<Longrightarrow> code \<in> codes \<Longrightarrow> plain_headers hs
    \<Longrightarrow> conforms code body hs \<Longrightarrow> replied py cls codes s r t"
  unfolding replied_def by blast

lemma replied_mono: "replied py cls a s r t \<Longrightarrow> a \<subseteq> b \<Longrightarrow> replied py cls b s r t"
  unfolding replied_def by blast

lemma replied_error:
  "send_reply py cls (error_reply code m) s = (r, t) \<Longrightarrow> 400 \<le> code \<Longrightarrow> replied py cls {code} s r t"
  by (rule repliedI [of py cls code _ "[]" s]) (auto simp: error_reply_def)

section \<open>Sending\<close>

lemma send_reply_answers:
  assumes "texts_ok py" and "server_version cls = SERVER_NAME" and "connected c" and "plain_headers hs"
    and "send_reply py cls (code, body, hs) c = (r, t)"
  shows "r = Inr ()" and "client_reads c t = Inr (json_message py cls (code, body, hs))"
    and "conforms code body hs \<Longrightarrow> answered py cls {code} c t"
proof -
  have t: "t = c\<lparr>logs := logs c @ message_lines cls (address_string c) (request_log code c),
              sent := sent c @ render (json_message py cls (code, body, hs))\<rparr>" and "r = Inr ()"
    using assms(5) send_reply_ok [OF assms(1-4), of code body] by simp_all
  then show "r = Inr ()" and cr: "client_reads c t = Inr (json_message py cls (code, body, hs))"
    by (simp_all add: client_reads_def read_reply [OF assms(1,2,4)])
  show "conforms code body hs \<Longrightarrow> answered py cls {code} c t"
    unfolding answered_def cr using assms(4) by (auto simp: t)
qed

text \<open>On a connection that takes writes the reply goes out, in the form its version has.\<close>

lemma replied_sent:
  assumes "texts_ok py" and "server_version cls = SERVER_NAME" and "ready s" and "replied py cls codes s r t"
  obtains code body hs where "code \<in> codes" "plain_headers hs" "conforms code body hs"
    "r = Inr ()" "sent t = sent s @ reply_bytes py cls (code, body, hs) s" "close_connection t = close_connection s"
proof -
  obtain u code body hs where u: "unanswered s u" "code \<in> codes" "plain_headers hs" "conforms code body hs"
    "send_reply py cls (code, body, hs) u = (r, t)"
    using assms(4) unfolding replied_def by blast
  moreover from u have "ready u" using assms(3) by (simp add: unanswered_ready)
  ultimately show ?thesis
    using send_reply_any [OF assms(1,2) _ u(3), of u code body] unanswered_sent [OF u(1)]
      unanswered_close [OF u(1)] unanswered_http09 [OF u(1)]
    by (intro that [of code hs body]) (auto simp: reply_bytes_def)
qed

lemma replied_answered:
  assumes "texts_ok py" and "server_version cls = SERVER_NAME" and "connected s" and "replied py cls codes s r t"
  shows "r = Inr () \<and> answered py cls codes s t"
proof -
  obtain u code body hs where u: "unanswered s u" "code \<in> codes" "plain_headers hs" "conforms code body hs"
    "send_reply py cls (code, body, hs) u = (r, t)"
    using assms(4) unfolding replied_def by blast
  then have "connected u" using assms(3) by (simp add: unanswered_connected)
  from send_reply_answers [OF assms(1,2) this u(3,5)] u(2,4) show ?thesis
    by (auto intro: answered_mono answered_from [OF u(1)])
qed

lemma send_error_reply:
  assumes "texts_ok py" and "server_version cls = SERVER_NAME" and "connected c"
    and "send_reply py cls (error_reply code m) c = (r, t)" and "400 \<le> code"
  shows "r = Inr ()" and "answered py cls {code} c t"
  using replied_answered [OF assms(1-3) replied_error [OF assms(4,5)]] by blast+

lemma same_conn_connected: "same_conn s t \<Longrightarrow> connected t = connected s"
  using same_conn_fields [of s t] by (simp add: connected_def http09_def)

lemma connected_logs [simp]: "connected (c\<lparr>logs := l\<rparr>) = connected c"
  and connected_rfile [simp]: "connected (c\<lparr>rfile := b\<rparr>) = connected c"
  by (simp_all add: connected_def)

section \<open>Running a route\<close>

text \<open>
  A signal that arrives during a call of the bindings may raise a \<open>KeyboardInterrupt\<close> there. No handler
  of the code catches it on its way: then nothing has been sent.
\<close>

definition interrupted :: "'a conn_scheme \<Rightarrow> exn + unit \<Rightarrow> 'a conn_scheme \<Rightarrow> bool" where
  "interrupted s r t \<longleftrightarrow> r = Inl KeyboardInterrupt \<and> unanswered s t"

text \<open>\<open>ok\<close> says that this cannot happen.\<close>

definition served ::
  "bool \<Rightarrow> interp \<Rightarrow> hcls \<Rightarrow> nat set \<Rightarrow> 'a conn_scheme \<Rightarrow> exn + unit \<Rightarrow> 'a conn_scheme \<Rightarrow> bool" where
  "served ok py cls codes s r t \<longleftrightarrow> replied py cls codes s r t \<or> (\<not> ok \<and> interrupted s r t)"

lemma served_mono: "served ok py cls a s r t \<Longrightarrow> a \<subseteq> b \<Longrightarrow> served ok py cls b s r t"
  unfolding served_def using replied_mono by blast

lemma served_weaken: "served ok py cls a s r t \<Longrightarrow> (ok' \<Longrightarrow> ok) \<Longrightarrow> a \<subseteq> b \<Longrightarrow> served ok' py cls b s r t"
  unfolding served_def using replied_mono by blast

lemma served_replied: "replied py cls a s r t \<Longrightarrow> a \<subseteq> b \<Longrightarrow> served ok py cls b s r t"
  unfolding served_def using replied_mono by blast

context route begin

lemma serves:
  assumes "bind_p (guarded cls p run) (send_reply py cls) s = (r, t)"
  shows "served (calm run) py cls (codes \<union> {500, 503}) s r t"
proof -
  obtain q u where q: "run s = (q, u)" by (cases "run s")
  then have u: "unanswered s u" by (intro same_conn_unanswered quiet)
  show ?thesis
  proof (cases q)
    case (Inr v)
    obtain code body hs where v: "v = (code, body, hs)" by (cases v)
    then have "send_reply py cls (code, body, hs) u = (r, t)" using assms q Inr by (simp add: guarded_def step_p)
    then have "replied py cls codes s r t"
      using u q Inr v code_in headers_plain body_conforms by (auto intro: repliedI)
    then show ?thesis by (auto intro: served_replied)
  next
    case (Inl e)
    consider "is_OSError e" | "e = KeyboardInterrupt" | "\<not> is_OSError e" "e \<noteq> KeyboardInterrupt" by blast
    then show ?thesis
    proof cases
      case 2
      then show ?thesis
        using assms q u Inl
        by (auto simp: guarded_def step_p prog_simps served_def interrupted_def calm_def) (metis fst_conv)
    qed (use assms q u Inl in \<open>auto simp: guarded_def step_p http_simps prog_simps unavailable_def error_reply_def
        served_def intro: repliedI\<close>)
  qed
qed

end

section \<open>The methods\<close>

text \<open>What the documentation of \<open>JobID\<close> promises of a text that is not a job id.\<close>

definition jobid_raises_value_error :: "('w, 'h, 's, 'i) flux_api \<Rightarrow> bool" where
  "jobid_raises_value_error api \<longleftrightarrow> (\<forall>s e. JobID api s = Inl e \<longrightarrow> is_ValueError e)"

lemma parse_job_path_error:
  "jobid_raises_value_error api \<Longrightarrow> parse_job_path api p = Inl e \<Longrightarrow> is_ValueError e"
  unfolding parse_job_path_def jobid_raises_value_error_def
  by (cases "JobID api (unquote (drop (length JOBS_PREFIX) p))") (auto simp: Let_def split: if_splits)

lemma handler_version [simp]: "server_version (handler_cls py v) = SERVER_NAME"
  by (simp add: handler_cls_def)

lemma ROUTES_cases:
  assumes "map_of (ROUTES os api) p = Some run"
  shows "run = root os api \<or> run = health"
  using assms by (auto simp: ROUTES_def split: if_splits)

lemma replied_not_found: "send_reply py cls (not_found p) s = (r, t) \<Longrightarrow> replied py cls {404} s r t"
  by (rule repliedI [of py cls 404 _ "[]" s]) (auto simp: not_found_def)

text \<open>The common end of GET and DELETE: the target is a job path, or it is not.\<close>

lemma job_branch:
  assumes "jobid_raises_value_error api" and "\<And>j. route (run j) codes" and "\<And>j. ok \<Longrightarrow> calm (run j)"
    and "(case parse_job_path api p of
            Inl e \<Rightarrow> if is_ValueError e then send_reply py cls (error_reply 400 (exn_str e)) else raise_p e
          | Inr None \<Rightarrow> send_reply py cls (not_found p)
          | Inr (Some j) \<Rightarrow> bind_p (guarded cls p (run j)) (send_reply py cls)) s = (r, t)"
  shows "served ok py cls (codes \<union> {400, 404, 500, 503}) s r t"
proof (cases "parse_job_path api p")
  case (Inl e)
  with assms(4) parse_job_path_error [OF assms(1) Inl]
  have "send_reply py cls (error_reply 400 (exn_str e)) s = (r, t)" by simp
  from replied_error [OF this] show ?thesis by (auto intro: served_replied)
next
  case (Inr o1)
  show ?thesis
  proof (cases o1)
    case None
    with assms(4) Inr have "send_reply py cls (not_found p) s = (r, t)" by simp
    from replied_not_found [OF this] show ?thesis by (auto intro: served_replied)
  next
    case (Some j)
    with assms(4) Inr have "bind_p (guarded cls p (run j)) (send_reply py cls) s = (r, t)" by simp
    from route.serves [OF assms(2) this] show ?thesis by (rule served_weaken) (auto intro: assms(3))
  qed
qed

lemma fixed_route_served:
  assumes "map_of (ROUTES os api) p = Some run"
    and "bind_p (guarded cls p run) (send_reply py cls) s = (r, t)"
  shows "served (uninterrupted api) py cls {200, 500, 503} s r t"
proof -
  have "run = root os api \<or> run = health" using assms(1) by (rule ROUTES_cases)
  then have "served (uninterrupted api) py cls ({200} \<union> {500, 503}) s r t"
    using root_route.serves [THEN served_weaken, OF _ calm_root order_refl]
      health_route.serves [THEN served_weaken, OF _ calm_health order_refl] assms(2) by blast
  then show ?thesis by (simp add: insert_commute)
qed

lemma do_GET_served:
  assumes "jobid_raises_value_error api" and "do_GET py cls os api req s = (r, t)"
  shows "served (uninterrupted api) py cls {200, 400, 404, 500, 503} s r t"
proof (cases "map_of (ROUTES os api) (before 63 (path req))")
  case (Some run)
  with assms(2) have "bind_p (guarded cls (before 63 (path req)) run) (send_reply py cls) s = (r, t)"
    by (simp add: do_GET_def get_from_def Let_def)
  from fixed_route_served [OF Some this] show ?thesis by (auto intro: served_mono)
next
  case None
  with assms(2) have "(case parse_job_path api (before 63 (path req)) of
      Inl e \<Rightarrow> if is_ValueError e then send_reply py cls (error_reply 400 (exn_str e)) else raise_p e
    | Inr None \<Rightarrow> send_reply py cls (not_found (before 63 (path req)))
    | Inr (Some j) \<Rightarrow> bind_p (guarded cls (before 63 (path req)) (jobs_state api j)) (send_reply py cls)) s = (r, t)"
    by (simp add: do_GET_def get_from_def Let_def)
  from job_branch [OF assms(1) state_route.route_axioms calm_state this] show ?thesis by (auto intro: served_mono)
qed

lemma served_answered:
  assumes "texts_ok py" and "server_version cls = SERVER_NAME" and "connected s" and "served ok py cls codes s r t"
  shows "(r = Inr () \<and> answered py cls codes s t) \<or> (r = Inl KeyboardInterrupt \<and> sent t = sent s \<and> \<not> ok)"
  using assms(4) replied_answered [OF assms(1-3)] unanswered_sent unfolding served_def interrupted_def by blast

lemma do_GET_serves:
  assumes "texts_ok py" and "jobid_raises_value_error api" and "connected s"
    and "do_GET py (handler_cls py v) os api req s = (r, t)"
  shows "(r = Inr () \<and> answered py (handler_cls py v) {200, 400, 404, 500, 503} s t)
    \<or> (r = Inl KeyboardInterrupt \<and> sent t = sent s \<and> \<not> uninterrupted api)"
  by (rule served_answered [OF assms(1) handler_version assms(3) do_GET_served [OF assms(2,4)]])

text \<open>
  C9. A GET is answered, whatever the path, the broker or the routes do, with exactly one
  complete message: status 200, 400, 404, 500 or 503, its \<open>Content-Length\<close>, and a one-line
  JSON object that is typed as the API document says for the status (an \<open>error\<close> string from
  400 on). Only a signal within a call of the bindings gives it up, and then nothing is sent.
\<close>

theorem do_GET_answers:
  assumes "texts_ok py" and "jobid_raises_value_error api" and "connected s"
    and "do_GET py (handler_cls py v) os api req s = (r, t)"
  shows "(r = Inr () \<and> answered py (handler_cls py v) {200, 400, 404, 500, 503} s t)
    \<or> (r = Inl KeyboardInterrupt \<and> sent t = sent s \<and> \<not> uninterrupted api)"
  using assms by (rule do_GET_serves)

lemma do_DELETE_served:
  assumes "jobid_raises_value_error api" and "do_DELETE py cls api req s = (r, t)"
  shows "case urlsplit py (path req) of
      Inr _ \<Rightarrow> served (uninterrupted api) py cls {202, 400, 403, 404, 409, 500, 503} s r t
    | Inl e \<Rightarrow> is_ValueError e \<and> r = Inl e \<and> t = s"
proof (cases "urlsplit py (path req)")
  case (Inl e)
  with assms(2) urlsplit_error [OF Inl] show ?thesis by (simp add: do_DELETE_def lift_p_def bind_p_def)
next
  case (Inr pq)
  obtain p q where pq: "pq = (p, q)" by (cases pq)
  have "(case parse_job_path api p of
      Inl e \<Rightarrow> if is_ValueError e then send_reply py cls (error_reply 400 (exn_str e)) else raise_p e
    | Inr None \<Rightarrow> send_reply py cls (not_found p)
    | Inr (Some j) \<Rightarrow> bind_p (guarded cls p (jobs_cancel api j (delete_reason q))) (send_reply py cls)) s = (r, t)"
    using assms(2) Inr pq by (simp add: do_DELETE_def lift_p_def bind_p_def)
  from job_branch [OF assms(1) cancel_route.route_axioms calm_cancel this] show ?thesis
    by (auto simp: Inr intro: served_mono)
qed

text \<open>
  C8. A DELETE whose target \<open>urlsplit\<close> accepts is answered with exactly one complete message
  of status 202, 400, 403, 404, 409, 500 or 503, whose body is typed as documented: the job's
  id and the fixed word under 202, an \<open>error\<close> string otherwise. A target it refuses (an unbalanced or
  malformed bracketed host) raises a \<open>ValueError\<close> out of the method before anything is
  sent, so that client gets no response at all; neither does one whose request a second signal gives up
  in a call of the bindings.
\<close>

theorem do_DELETE_answers:
  assumes "texts_ok py" and "jobid_raises_value_error api" and "connected s"
    and "do_DELETE py (handler_cls py v) api req s = (r, t)"
  shows "case urlsplit py (path req) of
      Inr _ \<Rightarrow> (r = Inr () \<and> answered py (handler_cls py v) {202, 400, 403, 404, 409, 500, 503} s t)
        \<or> (r = Inl KeyboardInterrupt \<and> sent t = sent s \<and> \<not> uninterrupted api)
    | Inl e \<Rightarrow> is_ValueError e \<and> r = Inl e \<and> t = s"
  using do_DELETE_served [OF assms(2,4)] served_answered [OF assms(1) handler_version assms(3)]
  by (auto split: sum.splits)

section \<open>POST\<close>

text \<open>What can come out of reading the body: an answer, a value, or the failure of the read.\<close>

lemma rfile_read_frame:
  "rfile_read n c = (r, t) \<Longrightarrow> unanswered c t"
  by (auto simp: rfile_read_def split: if_splits read_end.splits)

text \<open>
  The exceptions that leave \<open>do_POST\<close> without an answer: the client stopped sending, it reset
  the connection, or it nested its JSON too deeply.
\<close>

fun lost :: "read_end \<Rightarrow> exn \<Rightarrow> bool" where
  "lost r (OSError c _ _) \<longleftrightarrow> (r = Peer_stalls \<and> c = TimeoutError) \<or> (r = Peer_resets \<and> c = ConnectionResetError)"
| "lost r (RecursionError _) \<longleftrightarrow> True"
| "lost r _ \<longleftrightarrow> False"

lemma rfile_read_error: "rfile_read n c = (Inl e, t) \<Longrightarrow> lost (rend c) e"
  by (auto simp: rfile_read_def split: if_splits read_end.splits)

lemma lost_not_ValueError: "lost q e \<Longrightarrow> \<not> is_ValueError e"
  by (cases e) auto

lemma json_fault_lost: "json_fault e \<Longrightarrow> is_ValueError e \<or> lost q e"
  by (cases e) auto

lemma content_length_error: "content_length req = Inl e \<Longrightarrow> is_ValueError e"
  by (auto simp: content_length_def split: option.splits dest: py_int_error)

text \<open>The three ways out of the first \<open>try\<close>.\<close>

definition body_outcome ::
  "interp \<Rightarrow> hcls \<Rightarrow> ('w, 'h) srv \<Rightarrow> (exn + json option) \<Rightarrow> ('w, 'h) srv \<Rightarrow> bool" where
  "body_outcome py cls s r t \<longleftrightarrow>
     (case r of
        Inr None \<Rightarrow> replied py cls {400} s (Inr ()) t
      | Inr (Some _) \<Rightarrow> unanswered s t
      | Inl e \<Rightarrow> lost (rend s) e \<and> sent t = sent s)"

lemma early_outcome:
  assumes "texts_ok py" and "server_version cls = SERVER_NAME" and "ready u" and "unanswered s u"
  shows "seq_p (send_reply py cls (error_reply 400 m)) (return_p None) u = (r, t) \<Longrightarrow> body_outcome py cls s r t"
    and "(case seq_p (send_reply py cls (error_reply 400 m)) (return_p None) u of
      (Inl e, w) \<Rightarrow> h e w | (Inr x, w) \<Rightarrow> (Inr x, w))
    = seq_p (send_reply py cls (error_reply 400 m)) (return_p None) u"
proof -
  obtain q w where q: "send_reply py cls (error_reply 400 m) u = (q, w)" by fastforce
  from replied_sent [OF assms(1-3) replied_error [OF q]] have "q = Inr ()" by auto
  moreover obtain v code body hs where "unanswered u v" "code = 400" "plain_headers hs" "conforms code body hs"
      "send_reply py cls (code, body, hs) v = (q, w)"
    using replied_error [OF q] unfolding replied_def by auto
  then have "replied py cls {400} s q w" using unanswered_trans [OF assms(4)] by (auto intro: repliedI)
  ultimately show "seq_p (send_reply py cls (error_reply 400 m)) (return_p None) u = (r, t)
      \<Longrightarrow> body_outcome py cls s r t"
    and "(case seq_p (send_reply py cls (error_reply 400 m)) (return_p None) u of
      (Inl e, w) \<Rightarrow> h e w | (Inr x, w) \<Rightarrow> (Inr x, w))
    = seq_p (send_reply py cls (error_reply 400 m)) (return_p None) u"
    using q by (auto simp: step_p prog_simps body_outcome_def)
qed

lemma post_body_outcome:
  assumes py: "texts_ok py" and cls: "server_version cls = SERVER_NAME" and c: "ready s"
    and run: "post_body py cls req s = (r, t)"
  shows "body_outcome py cls s r t"
proof (cases "content_length req")
  case (Inl e)
  with run content_length_error [OF Inl]
  have "seq_p (send_reply py cls malformed) (return_p None) s = (r, t)"
    by (simp add: post_body_def lift_p_def bind_p_def catch_p_def)
  then show ?thesis unfolding malformed_def by (rule early_outcome(1) [OF py cls c unanswered_refl])
next
  case (Inr n)
  note early = early_outcome [OF py cls c unanswered_refl]
  let ?early = "\<lambda>m. seq_p (send_reply py cls (error_reply 400 m)) (return_p None)"
  consider (neg) "n < 0" | (big) "\<not> n < 0" "n > MAX_BODY_SIZE" | (ok) "\<not> n < 0" "\<not> n > MAX_BODY_SIZE"
    by blast
  then show ?thesis
  proof cases
    case ok
    let ?read = "if n \<noteq> 0 then rfile_read (nat n) else return_p ''{}''"
    obtain q u where q: "?read s = (q, u)" by fastforce
    have u: "unanswered s u" "\<And>e. q = Inl e \<Longrightarrow> lost (rend s) e"
      using q rfile_read_frame [of "nat n" s] rfile_read_error [of "nat n" s]
      by (auto simp: prog_simps split: if_splits)
    have cu: "ready u" "sent u = sent s"
      using c by (simp_all add: unanswered_ready [OF u(1)] unanswered_sent [OF u(1)])
    show ?thesis
    proof (cases q)
      case (Inl e)
      then have "lost (rend s) e" by (rule u(2))
      with run Inr Inl q ok cu(2) show ?thesis
        by (auto simp: post_body_def lift_p_def bind_p_def catch_p_def lost_not_ValueError prog_simps
            body_outcome_def split: if_splits)
    next
      case raw: (Inr raw)
      have step: "post_body py cls req s = catch_p (bind_p (lift_p (json_loads py raw))
          (\<lambda>body. return_p (Some body)))
          (\<lambda>e. if is_ValueError e then seq_p (send_reply py cls malformed) (return_p None) else raise_p e) u"
        using Inr q ok raw
        by (simp add: post_body_def lift_p_def bind_p_def catch_p_def split: if_splits)
      show ?thesis
      proof (cases "json_loads py raw")
        case (Inr j)
        with run step u(1) show ?thesis
          by (auto simp: lift_p_def bind_p_def catch_p_def return_p_def body_outcome_def)
      next
        case (Inl e)
        with json_loads_fault have "json_fault e" by blast
        then consider "is_ValueError e" | "lost (rend s) e" "\<not> is_ValueError e" using json_fault_lost by blast
        then show ?thesis
        proof cases
          case 1
          with run step Inl have "?early (us ''malformed request'') u = (r, t)"
            by (simp add: lift_p_def bind_p_def catch_p_def malformed_def)
          then show ?thesis by (rule early_outcome(1) [OF py cls cu(1) u(1)])
        next
          case 2
          with run step Inl cu(2) show ?thesis
            by (auto simp: lift_p_def bind_p_def catch_p_def raise_p_def body_outcome_def)
        qed
      qed
    qed
  next
    case neg
    then have "post_body py cls req s = ?early (us ''malformed request'') s"
      using Inr early(2) by (simp add: post_body_def lift_p_def bind_p_def malformed_def catch_p_def)
    with run show ?thesis using early(1) by metis
  next
    case big
    then have "post_body py cls req s = ?early (us ''request body too large'') s"
      using Inr early(2) by (simp add: post_body_def lift_p_def bind_p_def catch_p_def)
    with run show ?thesis using early(1) by metis
  qed
qed

lemma submit_route: "f58_plain api \<Longrightarrow> route (jobs_submit os api body) {201, 400}"
  by unfold_locales (rule frames_submit, rule replies_submit)

lemma POST_ROUTES_cases:
  "map_of (POST_ROUTES os api) p = Some run \<longleftrightarrow> p = PREFIX @ us ''/jobs'' \<and> run = jobs_submit os api"
  by (auto simp: POST_ROUTES_def)

lemma replied_from: "unanswered s u \<Longrightarrow> replied py cls a u r t \<Longrightarrow> replied py cls a s r t"
  unfolding replied_def by (meson unanswered_trans)

lemma served_from: "unanswered s u \<Longrightarrow> served ok py cls a u r t \<Longrightarrow> served ok py cls a s r t"
  unfolding served_def interrupted_def by (meson unanswered_trans replied_from)

lemma do_POST_served:
  assumes "texts_ok py" and "server_version cls = SERVER_NAME" and "f58_plain api" and "ready s"
    and "do_POST py cls os api req s = (r, t)"
  shows "served (uninterrupted api) py cls {201, 400, 404, 500, 503} s r t \<or> (\<exists>e. r = Inl e \<and> lost (rend s) e \<and> sent t = sent s)"
proof (cases "map_of (POST_ROUTES os api) (before 63 (path req))")
  case None
  with assms(5) have "send_reply py cls (not_found (before 63 (path req))) s = (r, t)"
    by (simp add: do_POST_def Let_def)
  from replied_not_found [OF this] show ?thesis by (auto intro: served_replied)
next
  case (Some run)
  let ?p = "before 63 (path req)"
  have run: "run = jobs_submit os api" using Some by (simp add: POST_ROUTES_cases)
  obtain q u where q: "post_body py cls req s = (q, u)" by fastforce
  note out = post_body_outcome [OF assms(1,2,4) q, unfolded body_outcome_def]
  note post = assms(5) [unfolded do_POST_def Let_def Some option.case]
  show ?thesis
  proof (cases q)
    case (Inl e)
    with post q out show ?thesis by (auto simp: step_p)
  next
    case (Inr got)
    show ?thesis
    proof (cases got)
      case None
      with post q out Inr show ?thesis by (auto simp: step_p prog_simps intro: served_replied)
    next
      case (Some j)
      with out Inr have u: "unanswered s u" by simp
      show ?thesis
      proof (cases "\<exists>d. j = JObj d")
        case True
        then obtain d where "j = JObj d" ..
        with post q Inr Some have "bind_p (guarded cls ?p (jobs_submit os api d)) (send_reply py cls) u = (r, t)"
          by (simp add: step_p run)
        from route.serves [OF submit_route [OF assms(3)] this]
        have "served (uninterrupted api) py cls {201, 400, 404, 500, 503} u r t"
          by (rule served_weaken) (auto intro: calm_submit)
        then show ?thesis by (auto intro: served_from [OF u])
      next
        case False
        with post q Inr Some have "send_reply py cls
            (error_reply 400 (us ''request body must be a JSON object'')) u = (r, t)"
          by (simp add: step_p split: json.splits)
        from replied_error [OF this] show ?thesis by (auto intro: served_replied replied_from [OF u])
      qed
    qed
  qed
qed

text \<open>
  C7. A POST is answered with exactly one complete message of status 201, 400, 404, 500 or
  503, with the id of the job in the body and in \<open>Location\<close> under 201 and an \<open>error\<close> string
  otherwise; or the request is given up with nothing sent at all, and then the client stopped
  sending, reset the connection, or nested its JSON body deeper than the decoder allows, or a signal
  fell into a call of the bindings.
  A partial or a second response never happens.
\<close>

theorem do_POST_answers:
  assumes "texts_ok py" and "f58_plain api" and "connected s"
    and "do_POST py (handler_cls py v) os api req s = (r, t)"
  shows "(r = Inr () \<and> answered py (handler_cls py v) {201, 400, 404, 500, 503} s t)
    \<or> (\<exists>e. r = Inl e \<and> sent t = sent s \<and> (lost (rend s) e \<or> e = KeyboardInterrupt \<and> \<not> uninterrupted api))"
proof -
  have "ready s" using assms(3) by (simp add: connected_ready)
  from do_POST_served [OF assms(1) handler_version assms(2) this assms(4)] show ?thesis
    using served_answered [OF assms(1) handler_version assms(3)] by blast
qed

end
