(* ===== verification/Sample.thy ===== *)
theory Sample
  imports Answers
begin

text \<open>
  A concrete surrounding, on which the hypotheses of the properties hold and their
  conclusions are evaluated: a broker whose state is the list of its active jobs, with job
  ids written in unary after the \<open>f\<close>; an interpreter; a password database of one user; and
  a fresh connection.
\<close>

definition sample_py :: interp where
  "sample_py = \<lparr>float_repr = (\<lambda>_. FText (us ''0.0'')), json_depth = 2,
     bracketed_host_ok = (\<lambda>_. False), netloc_nfkc_ok = (\<lambda>_. False), email_fault = (\<lambda>_. None),
     sys_version = us ''Python/3.11.2'', http_date = us ''Thu, 01 Jan 1970 00:00:00 GMT'',
     log_date = us ''01/Jan/1970 00:00:00''\<rparr>"

definition sample_pw :: passwd where
  "sample_pw = \<lparr>pw_name = us ''alice'', pw_uid = 1000, pw_dir = us ''/home/alice'', pw_shell = us ''/bin/sh''\<rparr>"

definition sample_os :: os_env where
  "sample_os = \<lparr>getuid = 1000, getpwuid = (\<lambda>u. if u = 1000 then Some sample_pw else None),
     getpwnam = (\<lambda>n. if n = us ''alice'' then Some sample_pw else None)\<rparr>"

type_synonym broker = "nat list"

definition no_such_job :: exn where
  "no_such_job = OSError FileNotFoundError (Some 2) (us ''[Errno 2] unknown job id'')"

definition sample_api :: "(broker, unit, ustr list, nat) flux_api" where
  "sample_api = \<lparr>
     Flux = (\<lambda>w. (Inr (), w)),
     attr_get = (\<lambda>_ n w. (Inr (if n = us ''version'' then us ''0.70.0'' else us ''1''), w)),
     from_command = (\<lambda>c kw. if us ''bogus'' \<in> set (keys kw) then Inl (TypeError (us ''unexpected keyword'')) else Inr c),
     submit = (\<lambda>_ spec w. if spec = [us ''refused''] then (Inl (OSError PlainOSError (Some 22) (us ''Invalid argument'')), w)
                          else (Inr (Suc (length w)), w @ [Suc (length w)])),
     cancel = (\<lambda>_ j _ w. if j \<in> set w then (Inr (), filter (\<lambda>k. k \<noteq> j) w) else (Inl no_such_job, w)),
     job_list_id = (\<lambda>_ j _ w. if j \<in> set w then (Inr j, w) else (Inl no_such_job, w)),
     to_dict = (\<lambda>j. Inr [(us ''jobid'', JInt (int j)), (us ''state'', JStr (us ''RUN''))]),
     JobID = (\<lambda>s. if py_startswith [102] s \<and> list_all (\<lambda>c. c = 49) (drop 1 s)
                  then Inr (length s - 1) else Inl (ValueError (us ''invalid jobid''))),
     f58plain = (\<lambda>j. 102 # replicate j 49)\<rparr>"

definition sample_srv :: "(broker, unit) srv" where
  "sample_srv = \<lparr>request_version = us ''HTTP/1.1'', requestline = us ''GET /api/v1/ HTTP/1.1'',
     client_host = None, rfile = [], rend = Peer_EOF, hbuf = [], sent = [], wfaults = [], logs = [],
     close_connection = True, handle = None, world = [1, 2]\<rparr>"

definition sample_get :: "string \<Rightarrow> request" where
  "sample_get p = \<lparr>command = us ''GET'', path = us p, headers = []\<rparr>"

definition sample_delete :: "string \<Rightarrow> request" where
  "sample_delete p = \<lparr>command = us ''DELETE'', path = us p, headers = []\<rparr>"

definition sample_post :: "string \<Rightarrow> string \<Rightarrow> request" where
  "sample_post p n = \<lparr>command = us ''POST'', path = us p, headers = [(us ''content-length'', us n)]\<rparr>"

lemma sample_texts [simp]: "texts_ok sample_py"
  by (simp add: texts_ok_def sample_py_def lit_simps)

lemma sample_connected [simp]: "connected sample_srv"
  by (simp add: connected_def http09_def sample_srv_def)

lemma sample_uninterrupted [simp]: "uninterrupted sample_api"
  by (simp add: uninterrupted_def calm_def sample_api_def no_such_job_def)

lemma sample_jobid [simp]: "jobid_raises_value_error sample_api"
  by (simp add: jobid_raises_value_error_def sample_api_def)

lemma sample_f58 [simp]: "f58_plain sample_api"
  by (simp add: f58_plain_def sample_api_def list_all_iff base58_def)

lemma sample_jobid_f58 [simp]: "JobID sample_api (f58plain sample_api j) = Inr j"
  by (simp add: sample_api_def py_startswith_def list_all_iff)

section \<open>The methods on the sample\<close>

lemma do_GET_answers_witness:
  "answered sample_py (handler_cls sample_py True) {200, 400, 404, 500, 503} sample_srv
     (snd (do_GET sample_py (handler_cls sample_py True) sample_os sample_api (sample_get ''/nowhere'') sample_srv))"
  using do_GET_answers [OF sample_texts sample_jobid sample_connected prod.collapse [symmetric]] sample_uninterrupted by blast

lemma do_DELETE_answers_witness:
  "answered sample_py (handler_cls sample_py True) {202, 400, 403, 404, 409, 500, 503} sample_srv
     (snd (do_DELETE sample_py (handler_cls sample_py True) sample_api (sample_delete ''/api/v1/jobs/f1'') sample_srv))"
proof -
  have "urlsplit sample_py (us ''/api/v1/jobs/f1'') = Inr (us ''/api/v1/jobs/f1'', [])"
    by (simp add: urlsplit_def Let_def drop_scheme_def after_def before_def py_startswith_def
        netloc_end_def check_netloc_def ascii_alpha_def lit_simps)
  with do_DELETE_answers [OF sample_texts sample_jobid sample_connected prod.collapse [symmetric],
      of True "sample_delete ''/api/v1/jobs/f1''"]
  show ?thesis by (simp add: sample_delete_def)
qed

lemma do_POST_answers_witness:
  "answered sample_py (handler_cls sample_py True) {201, 400, 404, 500, 503} sample_srv
     (snd (do_POST sample_py (handler_cls sample_py True) sample_os sample_api (sample_post ''/x'' ''9'') sample_srv))"
proof -
  let ?run = "do_POST sample_py (handler_cls sample_py True) sample_os sample_api (sample_post ''/x'' ''9'') sample_srv"
  have p: "before 63 (path (sample_post ''/x'' ''9'')) = us ''/x''"
    by (simp add: sample_post_def before_id lit_simps)
  then have "?run = send_reply sample_py (handler_cls sample_py True) (not_found (us ''/x'')) sample_srv"
    by (simp add: do_POST_def POST_ROUTES_def PREFIX_def API_VERSION_def lit_simps)
  moreover from this have "fst ?run = Inr ()"
    using replied_answered [OF sample_texts handler_version sample_connected
        replied_not_found [OF prod.collapse [symmetric]]] by metis
  ultimately show ?thesis
    using do_POST_answers [OF sample_texts sample_f58 sample_connected prod.collapse [symmetric],
        of True sample_os "sample_post ''/x'' ''9''"] by auto
qed

end
