(* ===== verification/Job_Spec.thy ===== *)
theory Job_Spec
  imports Sample
begin

text \<open>
  What the job routes promise: which submissions reach the broker and what they carry, how
  every failure of the broker maps to a status, that a job's \<open>Location\<close> leads back to it
  however a client escapes it, and what a job's record contains.
\<close>

section \<open>Submission\<close>

text \<open>
  The \<open>command\<close> check accepts exactly the requests whose \<open>command\<close> is a non-empty
  JSON array of strings, and hands on those strings in order.
\<close>

lemma command_of_iff:
  "command_of body = Some cs \<longleftrightarrow>
     map_of body (us ''command'') = Some (JArr (map JStr cs)) \<and> cs \<noteq> []"
proof -
  have strs: "list_all is_JStr xs \<Longrightarrow> xs = map JStr (map str_of xs)" for xs
    by (induction xs) (auto simp: is_JStr_def str_of_def split: json.splits)
  have "list_all is_JStr (map JStr cs)" "map str_of (map JStr cs) = cs"
    by (auto simp: list_all_iff is_JStr_def str_of_def map_idI)
  then show ?thesis
    unfolding command_of_def
    using strs by (auto split: option.splits json.splits)
qed

text \<open>
  C29. The keyword arguments of \<open>from_command\<close> are the request's other non-null fields;
  \<open>cwd\<close> and \<open>environment\<close> are filled in from the password entry exactly when the request
  leaves them out or null, so a null never overrides a default and no field is lost.
\<close>

theorem submit_kwargs_lookup:
  assumes "distinct (keys body)"
  shows "map_of (submit_kwargs pw body) k =
    (if k \<noteq> us ''command'' \<and> map_of body k \<notin> {None, Some JNull} then map_of body k
     else if k = us ''cwd'' then Some (JStr (pw_dir pw))
     else if k = us ''environment'' then Some (default_environment pw)
     else None)"
proof -
  have "map_of (request_kwargs body) k =
      (if k \<noteq> us ''command'' \<and> map_of body k \<notin> {None, Some JNull} then map_of body k else None)" for k
    unfolding request_kwargs_def map_of_filter_keys [OF assms] by (auto split: option.splits)
  then show ?thesis by (simp add: submit_kwargs_def map_of_setdefault)
qed

lemma submit_kwargs_lookup_witness:
  "map_of (submit_kwargs sample_pw [(us ''command'', JArr []), (us ''cwd'', JNull)]) (us ''cwd'')
     = Some (JStr (us ''/home/alice''))"
  by (subst submit_kwargs_lookup) (simp_all add: sample_pw_def)

text \<open>A submission whose jobspec was accepted, by what the broker does with it.\<close>

lemma jobs_submit_reached:
  assumes "command_of body = Some cmd" and "getpwuid os (getuid os) = Some pw"
    and "from_command api cmd (submit_kwargs pw body) = Inr spec"
    and "flux_handle api s = (Inr h, u)"
  shows "jobs_submit os api body s =
    (case submit api h spec (world u) of
       (Inr j, w) \<Rightarrow> (Inr (created api j), u\<lparr>world := w\<rparr>)
     | (Inl e, w) \<Rightarrow>
         (if (is_OSError e \<and> exn_errno e = Some EINVAL) \<or> is_RuntimeError e \<or> is_ValueError e
            then Inr (error_reply 400 (exn_str e)) else Inl e, u\<lparr>world := w\<rparr>))"
  using assms
  by (cases "fst (submit api h spec (world u))"; cases "submit api h spec (world u)")
    (auto simp: jobs_submit_def submit_jobspec_def bind_p_def catch_p_def prog_simps on_world_def
      elim: is_OSError.elims is_RuntimeError.elims is_ValueError.elims)

text \<open>
  C27. A submission answers 201 exactly when the command is valid, the server's uid has a
  password entry, the jobspec is accepted, Flux can be reached and the broker accepts the
  job; then exactly one job was submitted, the body is its plain F58 id and the only extra
  header is the \<open>Location\<close> of that job.
\<close>

theorem jobs_submit_created:
  "jobs_submit os api body s = (Inr (201, resp, hs), t) \<longleftrightarrow>
     (\<exists>cmd pw spec h u j w.
        command_of body = Some cmd \<and> getpwuid os (getuid os) = Some pw
        \<and> from_command api cmd (submit_kwargs pw body) = Inr spec
        \<and> flux_handle api s = (Inr h, u) \<and> submit api h spec (world u) = (Inr j, w)
        \<and> t = u\<lparr>world := w\<rparr> \<and> resp = json_obj [(''id'', JStr (f58plain api j))]
        \<and> hs = [(us ''Location'', PREFIX @ us ''/jobs/'' @ f58plain api j)])"
  (is "?L \<longleftrightarrow> ?R")
proof
  assume run: ?L
  then obtain cmd pw spec where c: "command_of body = Some cmd"
    "getpwuid os (getuid os) = Some pw" "from_command api cmd (submit_kwargs pw body) = Inr spec"
    by (auto simp: jobs_submit_def error_reply_def prog_simps split: option.splits sum.splits if_splits)
  obtain q u where h: "flux_handle api s = (q, u)" by fastforce
  from run c h obtain k where k: "q = Inr k"
    by (cases q) (auto simp: jobs_submit_def submit_jobspec_def bind_p_def catch_p_def prog_simps
        error_reply_def split: if_splits)
  from run jobs_submit_reached [OF c h [unfolded k]] show ?R
    using c h k by (auto simp: error_reply_def created_def Let_def split: prod.splits sum.splits if_splits)
next
  assume ?R
  then show ?L using jobs_submit_reached by (fastforce simp: created_def Let_def)
qed

text \<open>
  A request that the server itself or the jobspec builder refuses (no valid command, or
  \<open>ValueError\<close> or \<open>TypeError\<close> from \<open>from_command\<close>) is answered 400 without opening Flux,
  without a word to the broker and without any other effect.
\<close>

theorem jobs_submit_refused:
  assumes "command_of body = None \<or>
    (\<exists>cmd pw e. command_of body = Some cmd \<and> getpwuid os (getuid os) = Some pw
       \<and> from_command api cmd (submit_kwargs pw body) = Inl e \<and> (is_ValueError e \<or> is_TypeError e))"
  shows "\<exists>m. jobs_submit os api body s = (Inr (error_reply 400 m), s)"
  using assms by (auto simp: jobs_submit_def prog_simps)

lemma jobs_submit_refused_witness:
  "\<exists>m. jobs_submit sample_os sample_api [(us ''command'', JArr [])] sample_srv = (Inr (error_reply 400 m), sample_srv)"
  by (rule jobs_submit_refused) (simp add: command_of_def)

text \<open>
  C28. The failures of a submission that reached the broker: \<open>EINVAL\<close>, \<open>RuntimeError\<close> and
  \<open>ValueError\<close> are the client's fault and answered 400 with the broker's text; every other
  exception leaves the route, for its caller to turn into 503 or 500. Nothing is retried.
\<close>

theorem jobs_submit_failure:
  assumes "command_of body = Some cmd" and "getpwuid os (getuid os) = Some pw"
    and "from_command api cmd (submit_kwargs pw body) = Inr spec"
    and "flux_handle api s = (Inr h, u)" and "submit api h spec (world u) = (Inl e, w)"
  shows "jobs_submit os api body s =
    (if exn_errno e = Some EINVAL \<or> is_RuntimeError e \<or> is_ValueError e
       then Inr (error_reply 400 (exn_str e)) else Inl e, u\<lparr>world := w\<rparr>)"
proof -
  have "exn_errno e = Some EINVAL \<Longrightarrow> is_OSError e" by (cases e) auto
  then show ?thesis using jobs_submit_reached [OF assms(1-4)] assms(5) by auto
qed

definition refused_body :: "(ustr \<times> json) list" where
  "refused_body = [(us ''command'', JArr [JStr (us ''refused'')])]"

lemma refused_run:
  "command_of refused_body = Some [us ''refused'']"
  "getpwuid sample_os (getuid sample_os) = Some sample_pw"
  "from_command sample_api [us ''refused''] (submit_kwargs sample_pw refused_body) = Inr [us ''refused'']"
  "flux_handle sample_api sample_srv = (Inr (), sample_srv\<lparr>handle := Some ()\<rparr>)"
  "submit sample_api () [us ''refused''] (world (sample_srv\<lparr>handle := Some ()\<rparr>))
     = (Inl (OSError PlainOSError (Some 22) (us ''Invalid argument'')), [1, 2])"
proof -
  show "command_of refused_body = Some [us ''refused'']"
    by (simp add: command_of_iff [of _ "[us ''refused'']"] refused_body_def)
  show "from_command sample_api [us ''refused''] (submit_kwargs sample_pw refused_body) = Inr [us ''refused'']"
    by (simp add: sample_api_def submit_kwargs_def request_kwargs_def refused_body_def setdefault_def)
qed (simp_all add: sample_os_def flux_handle_def on_world_def sample_srv_def sample_api_def)

lemma jobs_submit_failure_witness:
  "fst (jobs_submit sample_os sample_api refused_body sample_srv)
     = Inr (error_reply 400 (us ''Invalid argument''))"
  using jobs_submit_failure [OF refused_run] by (simp add: EINVAL_def)

section \<open>Job paths\<close>

text \<open>A job id a client may put in a path: characters, at least one, and no slash.\<close>

definition path_id :: "ustr \<Rightarrow> bool" where
  "path_id t \<longleftrightarrow> list_all is_scalar t \<and> t \<noteq> [] \<and> 47 \<notin> set t"

lemma parse_encoded:
  "path_id t \<Longrightarrow> parse_job_path api (JOBS_PREFIX @ pct_encode keep t) = map_sum id Some (JobID api t)"
  by (simp add: parse_job_path_def path_id_def unquote_pct_encode)

text \<open>
  Routing to a job does not depend on what a client escapes: two clients that write the
  same id and differ in which characters they leave as they are and which they
  percent-encode reach the same job, namely the one \<open>JobID\<close> makes of the plain id.
\<close>

theorem parse_job_path_encoded:
  assumes "path_id t"
  shows "parse_job_path api (JOBS_PREFIX @ pct_encode keep t) = map_sum id Some (JobID api t)
    \<and> parse_job_path api (JOBS_PREFIX @ pct_encode keep' t) = parse_job_path api (JOBS_PREFIX @ pct_encode keep t)"
  by (simp add: parse_encoded [OF assms])

lemma parse_job_path_encoded_witness:
  "parse_job_path sample_api (JOBS_PREFIX @ pct_encode (\<lambda>c. c = 49) (us ''f11'')) = Inr (Some 2)"
proof -
  have "path_id (us ''f11'')" by (simp add: path_id_def is_scalar_def is_surrogate_def lit_simps)
  from parse_job_path_encoded [OF this, of sample_api "\<lambda>c. c = 49"]
  show ?thesis by (simp add: sample_api_def py_startswith_def lit_simps)
qed

lemma parse_iff:
  "parse_job_path api p = Inr (Some j) \<longleftrightarrow>
     (\<exists>r. p = us ''/api/v1/jobs/'' @ r \<and> unquote r \<noteq> [] \<and> 47 \<notin> set (unquote r)
        \<and> JobID api (unquote r) = Inr j)"
proof -
  have pre: "JOBS_PREFIX = us ''/api/v1/jobs/''"
    by (simp add: JOBS_PREFIX_def PREFIX_def API_VERSION_def flip: us_append)
  have some: "map_sum id Some x = Inr (Some j) \<longleftrightarrow> x = Inr j" for x :: "exn + nat"
    by (cases x) auto
  show ?thesis
  proof (cases "py_startswith JOBS_PREFIX p")
    case True
    then obtain r where r: "p = JOBS_PREFIX @ r" by (auto simp: py_startswith_iff)
    show ?thesis unfolding r unfolding pre [symmetric] by (simp add: parse_job_path_def Let_def some)
  next
    case False
    then show ?thesis unfolding pre [symmetric] by (auto simp: parse_job_path_def)
  qed
qed

text \<open>
  A path is a job path exactly when it starts with \<open>/api/v1/jobs/\<close> and what follows,
  decoded, is not empty and has no slash; then the result is what \<open>JobID\<close> says of it.
\<close>

theorem parse_job_path_iff:
  "parse_job_path api p = Inr (Some j) \<longleftrightarrow>
     (\<exists>r. p = us ''/api/v1/jobs/'' @ r \<and> unquote r \<noteq> [] \<and> 47 \<notin> set (unquote r)
        \<and> JobID api (unquote r) = Inr j)"
  by (rule parse_iff)

text \<open>
  The \<open>Location\<close> of a 201 leads back to the job that was created, whatever the client
  escapes of its id.
\<close>

theorem location_roundtrip:
  assumes "f58_plain api" and "JobID api (f58plain api j) = Inr j"
  shows "(case created api j of (_, _, hs) \<Rightarrow>
      map_of hs (us ''Location'') = Some (PREFIX @ us ''/jobs/'' @ f58plain api j))
    \<and> parse_job_path api (PREFIX @ us ''/jobs/'' @ f58plain api j) = Inr (Some j)
    \<and> parse_job_path api (PREFIX @ us ''/jobs/'' @ pct_encode keep (f58plain api j)) = Inr (Some j)"
proof -
  have "path_id (f58plain api j)"
    using f58_chars [OF assms(1)] f58_not_Nil [OF assms(1)] ascii_scalar [OF f58_ascii [OF assms(1)]]
    by (auto simp: path_id_def)
  moreover have "37 \<notin> set (f58plain api j)" "47 \<notin> set (f58plain api j)"
    using f58_chars [OF assms(1)] by blast+
  ultimately show ?thesis
    using assms(2) f58_not_Nil [OF assms(1)]
    by (simp add: created_def Let_def parse_job_path_def JOBS_PREFIX_def path_id_def unquote_pct_encode
        unquote_plain flip: append_assoc)
qed

lemma location_roundtrip_witness:
  "parse_job_path sample_api (PREFIX @ us ''/jobs/'' @ f58plain sample_api 3) = Inr (Some 3)"
  using location_roundtrip [OF sample_f58 sample_jobid_f58] by blast

section \<open>Cancellation\<close>

text \<open>What a method answers to an exception its route lets through.\<close>

definition failure_reply :: "exn \<Rightarrow> reply" where
  "failure_reply e = (if is_OSError e then unavailable e else error_reply 500 (us ''internal error''))"

lemma guarded_failure:
  assumes "run s = (Inl e, u)" and "e \<noteq> KeyboardInterrupt"
  obtains l where "guarded cls p run s = (Inr (failure_reply e), u\<lparr>logs := l\<rparr>)"
proof (cases "is_OSError e")
  case True
  then have "guarded cls p run s = (Inr (failure_reply e), u\<lparr>logs := logs u\<rparr>)"
    using assms by (simp add: guarded_def catch_p_def prog_simps failure_reply_def)
  then show ?thesis by (rule that)
next
  case False
  then have "guarded cls p run s = (Inr (failure_reply e), u\<lparr>logs := logs u
      @ error_lines cls (address_string u) (us ''unhandled exception in '' @ p @ us '': '' @ exn_str e)\<rparr>)"
    using assms by (simp add: guarded_def catch_p_def seq_p_def bind_p_def prog_simps failure_reply_def
        http_simps)
  then show ?thesis by (rule that)
qed

lemma guarded_interrupted:
  "run s = (Inl KeyboardInterrupt, u) \<Longrightarrow> guarded cls p run s = (Inl KeyboardInterrupt, u)"
  by (simp add: guarded_def catch_p_def prog_simps)

lemma guarded_success:
  "run s = (Inr x, u) \<Longrightarrow> guarded cls p run s = (Inr x, u\<lparr>logs := logs u\<rparr>)"
  by (simp add: guarded_def catch_p_def)

text \<open>
  The contract of \<open>DELETE /jobs/<id>\<close>, as a function of what the broker did: accepted, no
  such job, job already inactive, job of another user, Flux failing, anything else.
\<close>

definition cancel_reply :: "('w, 'h, 's, 'i) flux_api \<Rightarrow> jobid \<Rightarrow> exn + unit \<Rightarrow> reply" where
  "cancel_reply api j res =
     (case res of
        Inr _ \<Rightarrow> (202, json_obj [(''id'', JStr (f58plain api j)),
                                 (''status'', JStr (us ''cancel requested''))], [])
      | Inl e \<Rightarrow>
          if is_os FileNotFoundError e \<and> py_in (us ''inactive'') (exn_str e)
            then error_reply 409 (us ''job '' @ f58plain api j @ us '' is already inactive, cannot cancel'')
          else if is_os FileNotFoundError e then error_reply 404 (us ''no such job: '' @ f58plain api j)
          else if is_os PermissionError e then error_reply 403 (exn_str e)
          else failure_reply e)"

lemma cancel_reply_plain: "snd (snd (cancel_reply api j res)) = []"
  by (simp add: cancel_reply_def error_reply_def unavailable_def failure_reply_def split: sum.splits)

lemma guarded_cancel:
  assumes "flux_handle api s = (Inr h, u)" and "cancel api h j rsn (world u) = (res, w)"
    and "res \<noteq> Inl KeyboardInterrupt"
  obtains l where "guarded cls p (jobs_cancel api j rsn) s
    = (Inr (cancel_reply api j res), u\<lparr>world := w, logs := l\<rparr>)"
proof (cases "\<exists>e. res = Inl e \<and> \<not> is_os FileNotFoundError e \<and> \<not> is_os PermissionError e")
  case True
  then obtain e where e: "res = Inl e" "\<not> is_os FileNotFoundError e" "\<not> is_os PermissionError e" by blast
  then have "jobs_cancel api j rsn s = (Inl e, u\<lparr>world := w\<rparr>)"
    using assms by (simp add: jobs_cancel_def bind_p_def catch_p_def on_world_def prog_simps)
  then obtain l where "guarded cls p (jobs_cancel api j rsn) s
      = (Inr (failure_reply e), (u\<lparr>world := w\<rparr>)\<lparr>logs := l\<rparr>)"
    using assms(3) e(1) by (auto intro: guarded_failure [of "jobs_cancel api j rsn"])
  then show ?thesis using that e by (simp add: cancel_reply_def)
next
  case False
  then have "jobs_cancel api j rsn s = (Inr (cancel_reply api j res), u\<lparr>world := w\<rparr>)"
    using assms by (auto simp: jobs_cancel_def bind_p_def catch_p_def on_world_def prog_simps
        cancel_reply_def split: sum.splits)
  from guarded_success [of "jobs_cancel api j rsn", OF this] that [of "logs u"] show ?thesis by simp
qed

text \<open>A route that has run, and the one message its reply becomes.\<close>

lemma route_then_send:
  assumes "texts_ok py" and "connected s" and "flux_handle api s = (Inr h, u)"
    and "guarded (handler_cls py v) p run s = (Inr rep, u\<lparr>world := w, logs := l\<rparr>)"
    and "snd (snd rep) = []"
    and "bind_p (guarded (handler_cls py v) p run) (send_reply py (handler_cls py v)) s = (r, t)"
  shows "r = Inr () \<and> world t = w \<and> handle t = Some h
    \<and> client_reads s t = Inr (json_message py (handler_cls py v) rep)"
proof -
  let ?cls = "handler_cls py v" and ?u = "u\<lparr>world := w, logs := l\<rparr>"
  have same: "same_conn s u" using frames_flux_handle assms(3) by (rule framesD)
  then have u: "sent ?u = sent s" "connected ?u"
    using assms(2) same_conn_connected [OF same] same_conn_fields(1) [OF same]
    by (simp_all add: connected_def http09_def)
  have handle: "handle u = Some h" using assms(3) by (rule flux_handle_result)
  obtain code body hs where rep: "rep = (code, body, hs)" by (cases rep)
  then have hs: "plain_headers hs" using assms(5) by simp
  note sent = send_reply_ok [OF assms(1) handler_version [of py v] u(2) hs]
  have r: "send_reply py ?cls (code, body, hs) ?u = (r, t)"
    using assms(4,6) by (simp add: step_p rep)
  show ?thesis
    using send_reply_answers [OF assms(1) handler_version u(2) hs r] r sent handle u(1)
    by (auto simp: rep client_reads_def)
qed

text \<open>The characters a client may leave as they are in a path segment or a query value.\<close>

definition unreserved :: "int \<Rightarrow> bool" where
  "unreserved c \<longleftrightarrow> is_digit c \<or> ascii_alpha c \<or> c \<in> {45, 46, 95, 126}"

lemma set_pct_encode:
  assumes "\<forall>c. keep c \<longrightarrow> unreserved c" and "list_all is_scalar s" and "c \<in> set (pct_encode keep s)"
  shows "unreserved c \<or> c = 37"
proof -
  have hex: "unreserved (hex_digit n)" if "0 \<le> n" "n < 16" for n
    using that by (auto simp: unreserved_def hex_digit_def is_digit_def ascii_alpha_def)
  have "unreserved d \<or> d = 37" if "d \<in> set (pct_byte b)" "0 \<le> b" "b < 256" for b d
    using that hex [of "b div 16"] hex [of "b mod 16"] by (auto simp: pct_byte_def)
  moreover have "\<forall>b \<in> set (utf8_char a). 0 \<le> b \<and> b < 256" if "a \<in> set s" for a
    using assms(2) that utf8_char_range by (auto simp: list_all_iff)
  ultimately show ?thesis
    using assms(1,3) by (fastforce simp: pct_encode_def split: if_splits)
qed

lemma unreserved_not: "unreserved c \<or> c = 37 \<Longrightarrow> c \<notin> {9, 10, 13, 35, 38, 43, 47, 61, 63}"
  by (auto simp: unreserved_def is_digit_def ascii_alpha_def)

lemma delete_reason_encoded:
  assumes "\<forall>c. keep c \<longrightarrow> unreserved c" and "list_all is_scalar r" and "r \<noteq> []"
  shows "delete_reason (us ''reason='' @ pct_encode keep r) = Some r"
proof -
  have chars: "c \<in> set (pct_encode keep r) \<Longrightarrow> c \<notin> {38, 43, 61}" for c
    using set_pct_encode [OF assms(1,2)] unreserved_not by blast
  have q: "38 \<notin> set (us ''reason='' @ pct_encode keep r)" using chars by (auto simp: lit_simps)
  have e: "us ''reason='' @ pct_encode keep r = us ''reason'' @ 61 # pct_encode keep r"
    by (simp add: lit_simps)
  have "61 \<notin> set (us ''reason'')" by (simp add: lit_simps)
  then have ba: "before 61 (us ''reason='' @ pct_encode keep r) = us ''reason''"
    "after 61 (us ''reason='' @ pct_encode keep r) = Some (pct_encode keep r)"
    unfolding e by (simp_all add: before_append after_append)
  have plus: "unquote_plus (pct_encode keep r) = r"
  proof -
    have "map (\<lambda>c. if c = 43 then 32 else c) (pct_encode keep r) = pct_encode keep r"
      using chars by (auto intro: map_idI)
    then show ?thesis by (simp add: unquote_plus_def unquote_pct_encode assms(2))
  qed
  have "pct_encode keep r \<noteq> []"
    using plus assms(3) by (auto simp: unquote_plus_def unquote_def)
  moreover have "unquote_plus (us ''reason'') = us ''reason''"
    by (simp add: unquote_plus_def unquote_def lit_simps)
  ultimately have "parse_qsl (us ''reason='' @ pct_encode keep r) = [(us ''reason'', r)]"
    unfolding parse_qsl_def split_on_single [OF q] by (simp add: ba plus)
  then show ?thesis by (simp add: delete_reason_def map_of_parse_qs)
qed

text \<open>The target of a DELETE with a reason, as a client writes it, and how it is taken apart.\<close>

definition delete_target :: "(int \<Rightarrow> bool) \<Rightarrow> ustr \<Rightarrow> ustr \<Rightarrow> ustr" where
  "delete_target keep t rsn = JOBS_PREFIX @ pct_encode keep t @ us ''?reason='' @ pct_encode keep rsn"

lemma urlsplit_delete_target:
  assumes "\<forall>c. keep c \<longrightarrow> unreserved c" and "list_all is_scalar t" and "list_all is_scalar rsn"
  shows "urlsplit py (delete_target keep t rsn)
    = Inr (JOBS_PREFIX @ pct_encode keep t, us ''reason='' @ pct_encode keep rsn)"
proof -
  let ?path = "JOBS_PREFIX @ pct_encode keep t" and ?q = "us ''reason='' @ pct_encode keep rsn"
  have c1: "c \<in> set (pct_encode keep t) \<Longrightarrow> c \<notin> {9, 10, 13, 35, 63}" for c
    using set_pct_encode [OF assms(1,2)] unreserved_not by blast
  have c2: "c \<in> set (pct_encode keep rsn) \<Longrightarrow> c \<notin> {9, 10, 13, 35, 63}" for c
    using set_pct_encode [OF assms(1,3)] unreserved_not by blast
  have pre: "set JOBS_PREFIX \<inter> {9, 10, 13, 35, 63} = {}"
    by (auto simp: JOBS_PREFIX_def PREFIX_def API_VERSION_def lit_simps)
  have path: "set ?path \<inter> {9, 10, 13, 35, 63} = {}" using c1 pre by auto
  have q: "set ?q \<inter> {9, 10, 13, 35, 63} = {}" using c2 by (auto simp: lit_simps)
  have t: "delete_target keep t rsn = ?path @ 63 # ?q"
    by (simp add: delete_target_def lit_simps)
  define rest where "rest = tl (?path @ 63 # ?q)"
  have slash: "?path @ 63 # ?q = 47 # rest" "\<not> py_startswith [47] rest"
    by (simp_all add: rest_def JOBS_PREFIX_def PREFIX_def API_VERSION_def lit_simps py_startswith_def)
  have "set (47 # rest) \<inter> {9, 10, 13} = {}"
    unfolding slash(1) [symmetric] using path q by auto
  from urlsplit_origin_form [OF slash(2) this, of py] have "urlsplit py (47 # rest) =
    Inr (let u = before 35 (47 # rest) in (before 63 u, case after 63 u of None \<Rightarrow> [] | Some v \<Rightarrow> v))" .
  moreover have "before 35 (47 # rest) = ?path @ 63 # ?q"
    unfolding slash(1) [symmetric] using path q by (intro before_id) auto
  moreover have "before 63 (?path @ 63 # ?q) = ?path" "after 63 (?path @ 63 # ?q) = Some ?q"
    using path by (intro before_append after_append; blast)+
  ultimately show ?thesis unfolding t slash(1) by (simp add: Let_def)
qed

text \<open>
  C13. \<open>DELETE /api/v1/jobs/<id>?reason=...\<close>, with id and reason escaped in any way, asks the
  broker once to cancel that job with that reason, and answers the contract of cancellation:
  202 when it was accepted, 404 or 409 for a job that is unknown or inactive, 403 for a job
  of another user, 503 when Flux fails and 500 for anything else. If a signal ends that call, the
  request ends with it and nothing is sent, whatever the broker has done by then.
\<close>

theorem do_DELETE_job:
  assumes "texts_ok py" and "connected s"
    and "\<forall>c. keep c \<longrightarrow> unreserved c" and "path_id id_text" and "list_all is_scalar rsn" and "rsn \<noteq> []"
    and "path req = delete_target keep id_text rsn" and "JobID api id_text = Inr j"
    and "flux_handle api s = (Inr h, u)" and "cancel api h j (Some rsn) (world u) = (res, w)"
    and "do_DELETE py (handler_cls py v) api req s = (r, t)"
  shows "world t = w \<and> handle t = Some h
    \<and> (if res = Inl KeyboardInterrupt then r = Inl KeyboardInterrupt \<and> sent t = sent s
       else r = Inr () \<and> client_reads s t = Inr (json_message py (handler_cls py v) (cancel_reply api j res)))"
proof -
  let ?p = "JOBS_PREFIX @ pct_encode keep id_text" and ?cls = "handler_cls py v"
  have id: "list_all is_scalar id_text" using assms(4) by (simp add: path_id_def)
  have split: "urlsplit py (path req) = Inr (?p, us ''reason='' @ pct_encode keep rsn)"
    using urlsplit_delete_target [OF assms(3) id assms(5)] assms(7) by simp
  have "parse_job_path api ?p = Inr (Some j)"
    using parse_encoded [OF assms(4), of api keep] assms(8) by simp
  then have run: "do_DELETE py ?cls api req s
      = bind_p (guarded ?cls ?p (jobs_cancel api j (Some rsn))) (send_reply py ?cls) s"
    using delete_reason_encoded [OF assms(3,5,6)]
    by (simp add: do_DELETE_def lift_p_def bind_p_def split)
  show ?thesis
  proof (cases "res = Inl KeyboardInterrupt")
    case True
    then have "jobs_cancel api j (Some rsn) s = (Inl KeyboardInterrupt, u\<lparr>world := w\<rparr>)"
      using assms(9,10) by (simp add: jobs_cancel_def bind_p_def catch_p_def on_world_def prog_simps)
    from guarded_interrupted [of "jobs_cancel api j (Some rsn)", OF this] have "(r, t) = (Inl KeyboardInterrupt, u\<lparr>world := w\<rparr>)"
      using run assms(11) by (simp add: bind_p_def)
    moreover have "same_conn s u" using frames_flux_handle assms(9) by (rule framesD)
    ultimately show ?thesis using True flux_handle_result [OF assms(9)] same_conn_fields(1) by simp
  next
    case False
    obtain l where "guarded ?cls ?p (jobs_cancel api j (Some rsn)) s
        = (Inr (cancel_reply api j res), u\<lparr>world := w, logs := l\<rparr>)"
      using guarded_cancel [OF assms(9,10) False] by blast
    moreover have "bind_p (guarded ?cls ?p (jobs_cancel api j (Some rsn))) (send_reply py ?cls) s = (r, t)"
      using run assms(11) by simp
    ultimately have "r = Inr () \<and> world t = w \<and> handle t = Some h
        \<and> client_reads s t = Inr (json_message py ?cls (cancel_reply api j res))"
      by (rule route_then_send [OF assms(1,2,9) _ cancel_reply_plain])
    with False show ?thesis by simp
  qed
qed

definition sample_target :: ustr where
  "sample_target = delete_target (\<lambda>_. False) (us ''f1'') (us ''done'')"

definition sample_cancel :: request where
  "sample_cancel = \<lparr>command = us ''DELETE'', path = sample_target, headers = []\<rparr>"

lemma sample_path_id: "path_id (us ''f1'')"
  and sample_rsn: "list_all is_scalar (us ''done'')"
  by (simp_all add: path_id_def is_scalar_def is_surrogate_def lit_simps)

lemma sample_flux: "flux_handle sample_api sample_srv = (Inr (), sample_srv\<lparr>handle := Some ()\<rparr>)"
  by (simp add: flux_handle_def on_world_def sample_api_def sample_srv_def)

lemma do_DELETE_job_witness:
  "client_reads sample_srv (snd (do_DELETE sample_py (handler_cls sample_py False) sample_api sample_cancel sample_srv))
     = Inr (json_message sample_py (handler_cls sample_py False)
         (202, json_obj [(''id'', JStr (us ''f1'')), (''status'', JStr (us ''cancel requested''))], []))"
proof -
  have id: "JobID sample_api (us ''f1'') = Inr 1"
    by (simp add: sample_api_def py_startswith_def lit_simps)
  have c: "cancel sample_api () 1 (Some (us ''done'')) (world (sample_srv\<lparr>handle := Some ()\<rparr>)) = (Inr (), [2])"
    by (simp add: sample_api_def sample_srv_def)
  have f: "f58plain sample_api (Suc 0) = us ''f1''"
    by (simp add: sample_api_def lit_simps)
  have "client_reads sample_srv (snd (do_DELETE sample_py (handler_cls sample_py False) sample_api sample_cancel sample_srv))
     = Inr (json_message sample_py (handler_cls sample_py False) (cancel_reply sample_api 1 (Inr ())))"
    using do_DELETE_job [OF sample_texts sample_connected _ sample_path_id sample_rsn _ _ id sample_flux c
        prod.collapse [symmetric], of "\<lambda>_. False" sample_cancel False]
    by (simp add: sample_cancel_def sample_target_def)
  then show ?thesis by (simp add: cancel_reply_def f)
qed

section \<open>Job info\<close>

text \<open>
  The record of a job is the broker's, with \<open>id\<close> replaced by the plain F58 id and the
  redundant \<open>jobid\<close> dropped: no other field is lost, added or changed, and names stay
  distinct.
\<close>

theorem job_body_lookup:
  "map_of (job_body fluid d) k =
     (if k = us ''jobid'' then None else if k = us ''id'' then Some (JStr fluid) else map_of d k)"
  by (simp add: job_body_def delete_conv' update_conv)

lemma job_body_distinct: "distinct (keys d) \<Longrightarrow> distinct (keys (job_body fluid d))"
  unfolding job_body_def by (intro distinct_delete distinct_update)

text \<open>The contract of \<open>GET /jobs/<id>\<close>.\<close>

definition state_reply :: "('w, 'h, 's, 'i) flux_api \<Rightarrow> jobid \<Rightarrow> exn + 'i \<Rightarrow> reply" where
  "state_reply api j res =
     (case res of
        Inl e \<Rightarrow>
          if is_os FileNotFoundError e then error_reply 404 (us ''no such job: '' @ f58plain api j)
          else failure_reply e
      | Inr info \<Rightarrow>
          (case to_dict api info of
             Inl e \<Rightarrow> failure_reply e
           | Inr d \<Rightarrow> (200, JObj (job_body (f58plain api j) d), [])))"

lemma state_reply_plain: "snd (snd (state_reply api j res)) = []"
  by (simp add: state_reply_def error_reply_def unavailable_def failure_reply_def split: sum.splits)

lemma guarded_state:
  assumes "flux_handle api s = (Inr h, u)" and "job_list_id api h j [us ''all''] (world u) = (res, w)"
    and "res \<noteq> Inl KeyboardInterrupt" and "\<And>i. res = Inr i \<Longrightarrow> to_dict api i \<noteq> Inl KeyboardInterrupt"
  obtains l where "guarded cls p (jobs_state api j) s
    = (Inr (state_reply api j res), u\<lparr>world := w, logs := l\<rparr>)"
proof (cases "jobs_state api j s")
  case (Pair q t)
  have t: "t = u\<lparr>world := w\<rparr>"
    using Pair assms by (auto simp: jobs_state_def bind_p_def catch_p_def on_world_def prog_simps
        split: sum.splits if_splits)
  show ?thesis
  proof (cases q)
    case (Inl e)
    then have "failure_reply e = state_reply api j res" and e: "e \<noteq> KeyboardInterrupt"
      using Pair assms by (auto simp: jobs_state_def bind_p_def catch_p_def on_world_def prog_simps
          state_reply_def split: sum.splits if_splits)
    moreover obtain l where "guarded cls p (jobs_state api j) s = (Inr (failure_reply e), t\<lparr>logs := l\<rparr>)"
      using Pair Inl e by (auto intro: guarded_failure [of "jobs_state api j"])
    ultimately show ?thesis using that by (simp add: t)
  next
    case (Inr rep)
    then have "rep = state_reply api j res"
      using Pair assms by (auto simp: jobs_state_def bind_p_def catch_p_def on_world_def prog_simps
          state_reply_def split: sum.splits if_splits)
    then show ?thesis
      using that [of "logs u"] guarded_success [of "jobs_state api j" s rep t] Pair Inr by (simp add: t)
  qed
qed

lemma job_path_not_fixed: "map_of (ROUTES os api) (JOBS_PREFIX @ r) = None"
  by (simp add: ROUTES_def JOBS_PREFIX_def lit_simps)

text \<open>
  C14. \<open>GET /api/v1/jobs/<id>\<close>, with the id escaped in any way and any query behind it, asks
  the broker once for all attributes of that job and answers the contract of job info: 200
  with the record, 404 for an unknown job, 503 when Flux fails, 500 for anything else, unless a signal
  ends the request in the call.
\<close>

theorem do_GET_job:
  assumes "texts_ok py" and "connected s"
    and "\<forall>c. keep c \<longrightarrow> unreserved c" and "path_id id_text" and "query = [] \<or> hd query = 63"
    and "path req = JOBS_PREFIX @ pct_encode keep id_text @ query" and "JobID api id_text = Inr j"
    and "flux_handle api s = (Inr h, u)" and "job_list_id api h j [us ''all''] (world u) = (res, w)"
    and "res \<noteq> Inl KeyboardInterrupt" and "\<And>i. res = Inr i \<Longrightarrow> to_dict api i \<noteq> Inl KeyboardInterrupt"
    and "do_GET py (handler_cls py v) os api req s = (r, t)"
  shows "r = Inr () \<and> world t = w \<and> handle t = Some h
    \<and> client_reads s t = Inr (json_message py (handler_cls py v) (state_reply api j res))"
proof -
  let ?p = "JOBS_PREFIX @ pct_encode keep id_text" and ?cls = "handler_cls py v"
  have id: "list_all is_scalar id_text" using assms(4) by (simp add: path_id_def)
  have "63 \<notin> set (pct_encode keep id_text)"
    using set_pct_encode [OF assms(3) id] unreserved_not by blast
  then have "63 \<notin> set ?p" by (auto simp: JOBS_PREFIX_def PREFIX_def API_VERSION_def lit_simps)
  then have "before 63 (?p @ query) = ?p"
    using assms(5) by (cases query) (use before_id before_append [of 63 ?p] in auto)
  then have p: "before 63 (path req) = ?p" using assms(6) by simp
  have "parse_job_path api ?p = Inr (Some j)"
    using parse_encoded [OF assms(4), of api keep] assms(7) by simp
  then have run: "bind_p (guarded ?cls ?p (jobs_state api j)) (send_reply py ?cls) s = (r, t)"
    using assms(12) by (simp add: do_GET_def get_from_def p job_path_not_fixed)
  obtain l where "guarded ?cls ?p (jobs_state api j) s
      = (Inr (state_reply api j res), u\<lparr>world := w, logs := l\<rparr>)"
    using guarded_state [OF assms(8-11)] by blast
  then show ?thesis by (rule route_then_send [OF assms(1,2,8) _ state_reply_plain run])
qed

definition sample_info :: request where
  "sample_info = \<lparr>command = us ''GET'', path = JOBS_PREFIX @ pct_encode (\<lambda>_. False) (us ''f11'') @ us ''?x'',
     headers = []\<rparr>"

lemma do_GET_job_witness:
  "client_reads sample_srv (snd (do_GET sample_py (handler_cls sample_py True) sample_os sample_api sample_info sample_srv))
     = Inr (json_message sample_py (handler_cls sample_py True)
         (200, json_obj [(''state'', JStr (us ''RUN'')), (''id'', JStr (us ''f11''))], []))"
proof -
  have id: "JobID sample_api (us ''f11'') = Inr 2"
    by (simp add: sample_api_def py_startswith_def lit_simps)
  have pid: "path_id (us ''f11'')"
    by (simp add: path_id_def is_scalar_def is_surrogate_def lit_simps)
  have g: "job_list_id sample_api () 2 [us ''all''] (world (sample_srv\<lparr>handle := Some ()\<rparr>)) = (Inr 2, [1, 2])"
    by (simp add: sample_api_def sample_srv_def)
  have "client_reads sample_srv (snd (do_GET sample_py (handler_cls sample_py True) sample_os sample_api sample_info sample_srv))
     = Inr (json_message sample_py (handler_cls sample_py True) (state_reply sample_api 2 (Inr 2)))"
    using do_GET_job [OF sample_texts sample_connected _ pid _ _ id sample_flux g _ sample_uninterrupted [THEN uninterruptedD(7)] prod.collapse [symmetric],
        of "\<lambda>_. False" "us ''?x''" sample_info True sample_os]
    by (simp add: sample_info_def lit_simps)
  moreover have "state_reply sample_api 2 (Inr 2)
      = (200, json_obj [(''state'', JStr (us ''RUN'')), (''id'', JStr (us ''f11''))], [])"
    by (simp add: state_reply_def sample_api_def job_body_def json_obj_def lit_simps eval_nat_numeral)
  ultimately show ?thesis by simp
qed

end
