(* ===== verification/Frame.thy ===== *)
theory Frame
  imports Handler
begin

text \<open>
  What answering leaves alone: every operation of \<open>Http\<close> and \<open>Handler\<close> that writes a
  response keeps each state property that does not look at the header buffer, the bytes
  sent, the writer's faults, the log or the connection flag.
\<close>

definition conn_indifferent :: "('a conn_scheme \<Rightarrow> bool) \<Rightarrow> bool" where
  "conn_indifferent P \<longleftrightarrow> (\<forall>c. P c \<longrightarrow>
     (\<forall>x. P (c\<lparr>hbuf := x\<rparr>)) \<and> (\<forall>x. P (c\<lparr>sent := x\<rparr>)) \<and> (\<forall>x. P (c\<lparr>wfaults := x\<rparr>))
     \<and> (\<forall>x. P (c\<lparr>logs := x\<rparr>)) \<and> (\<forall>x. P (c\<lparr>close_connection := x\<rparr>)))"

named_theorems keeps_intros \<open>programs that keep what answering does not touch\<close>

lemma indifferent_rfile [simp]: "conn_indifferent (\<lambda>c. rfile c = b)"
  and indifferent_handle [simp]: "conn_indifferent (\<lambda>s. handle s = h)"
  and indifferent_world [simp]: "conn_indifferent (\<lambda>s. handle s = h \<and> world s = w)"
  by (simp_all add: conn_indifferent_def)

lemma indifferentD:
  assumes "conn_indifferent P" and "P c"
  shows "P (c\<lparr>hbuf := x1\<rparr>)" "P (c\<lparr>sent := x2\<rparr>)" "P (c\<lparr>wfaults := x3\<rparr>)" "P (c\<lparr>logs := x4\<rparr>)"
    "P (c\<lparr>close_connection := x5\<rparr>)"
  using assms unfolding conn_indifferent_def by blast+

lemma keeps_modify: "(\<And>s. P s \<Longrightarrow> P (f s)) \<Longrightarrow> keeps P (modify_p f)"
  by (simp add: keeps_def prog_simps)

lemma keeps_case_bool: "keeps P m \<Longrightarrow> keeps P n \<Longrightarrow> keeps P (\<lambda>c. if b c then m c else n c)"
  by (simp add: keeps_def)

lemma keeps_reader: "(\<And>x. keeps P (m x)) \<Longrightarrow> keeps P (\<lambda>c. m (f c) c)"
  by (simp add: keeps_def)

lemma keeps_write [keeps_intros]:
  assumes "conn_indifferent P"
  shows "keeps P (wfile_write bs)"
  unfolding keeps_def wfile_write_def
  by (auto split: list.splits option.splits simp: indifferentD [OF assms])

lemma keeps_buffer_line [keeps_intros]:
  assumes "conn_indifferent P"
  shows "keeps P (buffer_line l)"
  unfolding buffer_line_def
  by (rule keeps_bind, rule keeps_lift, rule keeps_modify, rule indifferentD(1) [OF assms])

lemma keeps_log [keeps_intros]:
  assumes "conn_indifferent P"
  shows "keeps P (log_message_p cls m)" and "keeps P (log_error_p cls m)"
  unfolding keeps_def by (simp_all add: http_simps indifferentD [OF assms])

lemma keeps_send_header [keeps_intros]:
  assumes "conn_indifferent P"
  shows "keeps P (send_header n v)"
proof -
  have "keeps P (note_connection n v)"
    unfolding note_connection_def by (rule keeps_modify) (simp add: indifferentD [OF assms])
  moreover have "keeps P (\<lambda>c. if http09 c then (Inr (), c) else buffer_line (header_line n v) c)"
    using keeps_buffer_line [OF assms, of "header_line n v"] by (simp add: keeps_def)
  ultimately show ?thesis unfolding send_header_def by (rule keeps_seq [rotated])
qed

lemma keeps_send_response [keeps_intros]:
  assumes "conn_indifferent P"
  shows "keeps P (send_response py cls code message)"
proof -
  have 1: "keeps P (send_response_only code message)"
    using keeps_buffer_line [OF assms] by (simp add: keeps_def send_response_only_def)
  have 2: "keeps P (\<lambda>c. log_message_p cls (request_log code c) c)"
    by (rule keeps_reader) (rule keeps_log [OF assms])
  show ?thesis
    unfolding send_response_def by (intro keeps_seq 1 2 keeps_send_header [OF assms])
qed

lemma keeps_end_headers [keeps_intros]:
  assumes "conn_indifferent P"
  shows "keeps P end_headers"
proof -
  have "keeps P (modify_p (\<lambda>c. c\<lparr>hbuf := []\<rparr>))"
    by (rule keeps_modify) (rule indifferentD(1) [OF assms])
  then have "keeps P (seq_p (wfile_write b) (modify_p (\<lambda>c. c\<lparr>hbuf := []\<rparr>)))" for b
    by (rule keeps_seq [OF keeps_write [OF assms]])
  then have "keeps P (\<lambda>c. seq_p (wfile_write (hbuf c)) (modify_p (\<lambda>c. c\<lparr>hbuf := []\<rparr>)) c)"
    by (simp add: keeps_def)
  then have "keeps P (seq_p (buffer_line crlf)
      (\<lambda>c. seq_p (wfile_write (hbuf c)) (modify_p (\<lambda>c. c\<lparr>hbuf := []\<rparr>)) c))"
    by (rule keeps_seq [OF keeps_buffer_line [OF assms]])
  then show ?thesis by (simp add: keeps_def end_headers_def)
qed

lemma keeps_send_headers [keeps_intros]: "conn_indifferent P \<Longrightarrow> keeps P (send_headers hs)"
  by (induction hs rule: send_headers.induct) (simp_all add: keeps_seq keeps_intros)

lemma keeps_send_reply [keeps_intros]:
  assumes "conn_indifferent P"
  shows "keeps P (send_reply py cls rep)"
proof -
  note ops = keeps_send_response [OF assms] keeps_send_header [OF assms] keeps_send_headers [OF assms]
    keeps_end_headers [OF assms] keeps_write [OF assms]
  have "keeps P (send_p py cls status body hs)" for status body hs
    unfolding send_p_def Let_def
    by (rule keeps_bind [OF keeps_lift], rule keeps_catch, intro keeps_seq ops) simp
  then show ?thesis by (cases rep) (simp add: send_reply_def)
qed

lemma keeps_send_error [keeps_intros]:
  assumes "conn_indifferent P"
  shows "keeps P (send_error_page py cls h code m x)"
  unfolding send_error_page_def Let_def
  by (intro keeps_seq keeps_if keeps_return keeps_send_response [OF assms] keeps_send_header [OF assms]
      keeps_end_headers [OF assms] keeps_write [OF assms] keeps_log [OF assms])

lemma keeps_guarded [keeps_intros]:
  assumes "conn_indifferent P" and "keeps P run"
  shows "keeps P (guarded cls p run)"
  unfolding guarded_def using keeps_log(2) [OF assms(1)]
  by (intro keeps_catch [OF assms(2)]) (simp add: keeps_seq)

text \<open>A route leaves the input alone.\<close>

lemma frames_keeps_rfile: "frames m \<Longrightarrow> keeps (\<lambda>s. rfile s = b) m"
  unfolding frames_def keeps_def using same_conn_fields(5) by metis

section \<open>Reading\<close>

text \<open>A property of the state that reading a request does not touch either.\<close>

definition input_indifferent :: "('a conn_scheme \<Rightarrow> bool) \<Rightarrow> bool" where
  "input_indifferent P \<longleftrightarrow> (\<forall>c. P c \<longrightarrow> (\<forall>x. P (c\<lparr>rfile := x\<rparr>)) \<and> (\<forall>x. P (c\<lparr>request_version := x\<rparr>))
     \<and> (\<forall>x. P (c\<lparr>requestline := x\<rparr>)))"

lemma input_indifferentD:
  assumes "input_indifferent P" and "P c"
  shows "P (c\<lparr>rfile := x1\<rparr>)" "P (c\<lparr>request_version := x2\<rparr>)" "P (c\<lparr>requestline := x3\<rparr>)"
  using assms unfolding input_indifferent_def by blast+

lemma keeps_read: "input_indifferent P \<Longrightarrow> keeps P (rfile_read n)"
  unfolding keeps_def by (auto simp: rfile_read_def input_indifferentD split: read_end.splits)

lemma keeps_readline: "input_indifferent P \<Longrightarrow> keeps P (rfile_readline n)"
  using keeps_read [of P] unfolding keeps_def by (auto simp: rfile_readline_def Let_def input_indifferentD)

lemma keeps_read_block: "input_indifferent P \<Longrightarrow> keeps P (read_block n)"
  by (induction n) (auto intro!: keeps_bind keeps_readline keeps_return keeps_if)

lemma keeps_refuse_request:
  "conn_indifferent P \<Longrightarrow> keeps P (refuse_request py cls h code m x)"
  unfolding refuse_request_def by (intro keeps_seq keeps_send_error keeps_return)

lemma keeps_bad_request: "conn_indifferent P \<Longrightarrow> keeps P (bad_request py cls what t)"
  unfolding bad_request_def by (rule keeps_refuse_request)

lemma keeps_parse_headers:
  assumes "conn_indifferent P" and "input_indifferent P"
  shows "keeps P (parse_headers py cls cmd target)"
  unfolding parse_headers_def
proof (intro keeps_bind keeps_read_block [OF assms(2)])
  fix b
  show "keeps P (case b of Block text \<Rightarrow> (case email_fault py (us text) of Some e \<Rightarrow> raise_p e
        | None \<Rightarrow> return_p (Some \<lparr>command = cmd, path = one_slash target, headers = email_headers (us text)\<rparr>))
      | Line_too_long \<Rightarrow> refuse_request py cls (cmd = us ''HEAD'') 431 (us ''Line too long'')
           (us ''got more than 65536 bytes when reading header line'')
      | Too_many_headers \<Rightarrow> refuse_request py cls (cmd = us ''HEAD'') 431 (us ''Too many headers'')
           (us ''got more than 100 headers''))"
    by (cases b) (auto intro: keeps_refuse_request [OF assms(1)] keeps_return keeps_raise split: option.splits)
qed

lemma keeps_parse_words:
  assumes "conn_indifferent P" and "input_indifferent P"
  shows "keeps P (parse_words py cls line words)"
  unfolding parse_words_def
  by (auto intro: keeps_parse_headers [OF assms] keeps_bad_request [OF assms(1)] split: list.splits)

lemma keeps_parse_request:
  assumes "conn_indifferent P" and "input_indifferent P"
  shows "keeps P (parse_request py cls raw)"
proof -
  have "keeps P (modify_p (\<lambda>c. c\<lparr>request_version := v, close_connection := True, requestline := l\<rparr>))" for v l
    by (rule keeps_modify) (simp add: input_indifferentD [OF assms(2)] indifferentD [OF assms(1)])
  moreover have "keeps P (modify_p (\<lambda>c. c\<lparr>request_version := v\<rparr>))" for v
    by (rule keeps_modify) (simp add: input_indifferentD [OF assms(2)])
  ultimately show ?thesis
    unfolding parse_request_def Let_def
    by (auto intro!: keeps_seq keeps_return keeps_parse_words [OF assms] keeps_bad_request [OF assms(1)]
        keeps_refuse_request [OF assms(1)] split: option.splits)
qed

section \<open>One effect at most\<close>

text \<open>\<open>m\<close> takes a state with \<open>P\<close> to one with \<open>Q\<close>, whether it returns or raises.\<close>

definition leads :: "('s \<Rightarrow> bool) \<Rightarrow> ('s, 'a) prog \<Rightarrow> ('s \<Rightarrow> bool) \<Rightarrow> bool" where
  "leads P m Q \<longleftrightarrow> (\<forall>s. P s \<longrightarrow> Q (snd (m s)))"

lemma leads_keeps: "keeps P m \<Longrightarrow> (\<And>s. P s \<Longrightarrow> Q s) \<Longrightarrow> leads P m Q"
  by (simp add: leads_def keeps_def)

lemma leads_bind:
  assumes "keeps P m" and "\<And>x. leads P (f x) Q" and "\<And>s. P s \<Longrightarrow> Q s"
  shows "leads P (bind_p m f) Q"
  unfolding leads_def
proof (intro allI impI)
  fix s assume "P s"
  obtain r t where m: "m s = (r, t)" by fastforce
  then have "P t" using keepsD [OF assms(1) \<open>P s\<close>] by simp
  then show "Q (snd (bind_p m f s))" using assms(2,3) by (cases r) (auto simp: bind_p_def m leads_def)
qed

lemma leads_catch:
  assumes "leads P m Q" and "\<And>e. keeps Q (h e)"
  shows "leads P (catch_p m h) Q"
  unfolding leads_def
proof (intro allI impI)
  fix s assume "P s"
  obtain r t where m: "m s = (r, t)" by fastforce
  then have "Q t" using assms(1) \<open>P s\<close> by (metis leads_def snd_conv)
  then show "Q (snd (catch_p m h s))"
    using assms(2) by (cases r) (auto simp: catch_p_def m keeps_def)
qed

text \<open>Reading and refusing requests has no effect of its own: what a connection brings about is what one method does.\<close>

lemma keeps_close: "conn_indifferent P \<Longrightarrow> keeps P (modify_p (\<lambda>c. c\<lparr>close_connection := b\<rparr>))"
  by (rule keeps_modify) (simp add: indifferentD)

lemma leads_read_request:
  assumes "conn_indifferent P" and "input_indifferent P"
    and "\<And>req. leads P (run req) Q" and "\<And>s. P s \<Longrightarrow> Q s"
  shows "leads P (read_request py cls run) Q"
proof -
  have blank: "keeps P (modify_p (\<lambda>c. c\<lparr>requestline := [], request_version := []\<rparr>))"
    by (rule keeps_modify) (simp add: input_indifferentD [OF assms(2)])
  have got: "leads P (case got of None \<Rightarrow> return_p () | Some req \<Rightarrow> run req) Q" for got
    by (cases got) (auto intro: assms(3) leads_keeps [OF keeps_return assms(4)])
  show ?thesis unfolding read_request_def
  proof (intro leads_bind keeps_readline [OF assms(2)])
    fix raw
    show "leads P (on_line py cls run raw) Q"
      unfolding on_line_def using leads_keeps [OF keeps_seq [OF blank keeps_send_error [OF assms(1)]] assms(4)]
        leads_keeps [OF keeps_close [OF assms(1)] assms(4)]
        leads_bind [OF keeps_parse_request [OF assms(1,2)] got assms(4)] by simp
  qed (rule assms(4))
qed

lemma leads_handle_raw:
  assumes "conn_indifferent P" and "input_indifferent P" and "conn_indifferent Q"
    and "\<And>req. leads P (run req) Q" and "\<And>s. P s \<Longrightarrow> Q s"
  shows "leads P (handle_raw py cls run) Q"
  unfolding handle_raw_def timed_def
  by (rule leads_catch [OF leads_read_request [OF assms(1,2,4,5)]])
    (auto intro!: keeps_if keeps_seq keeps_raise keeps_log [OF assms(3)] keeps_close [OF assms(3)])

lemma leads_dispatch:
  assumes "\<And>n run. (n, run) \<in> set methods \<Longrightarrow> leads P (run req) Q" and "conn_indifferent P" and "\<And>s. P s \<Longrightarrow> Q s"
  shows "leads P (dispatch py cls methods req) Q"
  unfolding dispatch_def
  using leads_keeps [OF keeps_send_error [OF assms(2)] assms(3)]
  by (auto split: option.splits dest: map_of_SomeD intro: assms(1))

end
