(* ===== verification/Request_Spec.thy ===== *)
theory Request_Spec
  imports Job_Spec Frame
begin

text \<open>
  What a whole request does: a submission from the bytes of its body to the created job, the
  bound on what is read, the requests that need no Flux, the cached handle, and the requests
  on which the code does something other than its comments say.
\<close>

section \<open>Submitting\<close>

lemma readable_content_length:
  assumes "header_get (us ''Content-Length'') req = Some (str_int (int n))" and "int n \<le> MAX_BODY_SIZE"
  shows "content_length req = Inr (int n)"
proof -
  have "int n < 10 ^ 7" using assms(2) by (simp add: MAX_BODY_SIZE_def)
  also have "\<dots> \<le> (10 :: int) ^ int_max_str_digits"
    by (rule power_increasing) (simp_all add: int_max_str_digits_def)
  finally have "py_int (str_int (int n)) = Inr (int n)"
    by (intro int_text.dec_enc) simp
  then show ?thesis by (simp add: content_length_def assms(1))
qed

lemma post_body_json:
  assumes "header_get (us ''Content-Length'') req = Some (str_int (int (length (dumps j))))"
    and "int (length (dumps j)) \<le> MAX_BODY_SIZE" and "dumps j \<noteq> []"
    and "readable py (json_depth py) j" and "rfile s = to_bytes (dumps j) @ extra"
  shows "post_body py cls req s = (Inr (Some j), s\<lparr>rfile := extra\<rparr>)"
  using readable_content_length [OF assms(1,2)] json_loads_dumps [OF assms(4)] assms(2,3,5)
  by (simp add: post_body_def lift_p_def bind_p_def catch_p_def return_p_def rfile_read_def)

text \<open>
  From body to job: a POST whose \<open>Content-Length\<close> bytes are the JSON text of an object with a
  valid command, sent to a reachable Flux.
\<close>

lemma do_POST_job:
  assumes "texts_ok py" and "f58_plain api" and "connected s"
    and "path req = us ''/api/v1/jobs''"
    and "header_get (us ''Content-Length'') req = Some (str_int (int (length (dumps (JObj d)))))"
    and "int (length (dumps (JObj d))) \<le> MAX_BODY_SIZE"
    and "readable py (json_depth py) (JObj d)" and "rfile s = to_bytes (dumps (JObj d)) @ extra"
    and "command_of d = Some cmd" and "getpwuid os (getuid os) = Some pw"
    and "from_command api cmd (submit_kwargs pw d) = Inr spec"
    and "flux_handle api (s\<lparr>rfile := extra\<rparr>) = (Inr h, u)" and "submit api h spec (world u) = (Inr j, w)"
    and "do_POST py (handler_cls py v) os api req s = (r, t)"
  shows "r = Inr () \<and> world t = w \<and> handle t = Some h \<and> rfile t = extra
    \<and> client_reads s t = Inr (json_message py (handler_cls py v) (created api j))"
proof -
  let ?cls = "handler_cls py v" and ?p = "us ''/api/v1/jobs''" and ?s = "s\<lparr>rfile := extra\<rparr>"
  let ?u = "u\<lparr>world := w\<rparr>"
  have p: "before 63 (path req) = ?p" using assms(4) by (simp add: before_id lit_simps)
  have prefix: "PREFIX @ us ''/jobs'' = ?p"
    by (simp add: PREFIX_def API_VERSION_def flip: us_append)
  have "dumps (JObj d) \<noteq> []" by simp
  then have body: "post_body py ?cls req s = (Inr (Some (JObj d)), ?s)"
    by (rule post_body_json [OF assms(5,6) _ assms(7,8)])
  have sub: "guarded ?cls ?p (jobs_submit os api d) ?s = (Inr (created api j), ?u)"
    using jobs_submit_reached [OF assms(9-12)] assms(13) by (simp add: guarded_def catch_p_def)
  have same: "same_conn ?s u" using frames_flux_handle assms(12) by (rule framesD)
  then have u: "sent ?u = sent s" "connected ?u" "rfile ?u = extra"
    using assms(3) same_conn_connected [OF same] same_conn_fields [OF same]
    by (simp_all add: connected_def http09_def)
  obtain code body hs where rep: "created api j = (code, body, hs)" by (cases "created api j")
  have "jobs_submit os api d ?s = (Inr (code, body, hs), ?u)"
    using jobs_submit_reached [OF assms(9-12)] assms(13) rep by simp
  with replies_submit [OF assms(2)] have hs: "plain_headers hs" by (blast dest: repliesD)
  have send: "send_reply py ?cls (code, body, hs) ?u = (r, t)"
    using assms(14) body sub rep prefix by (simp add: do_POST_def p POST_ROUTES_def step_p)
  note sent = send_reply_ok [OF assms(1) handler_version [of py v] u(2) hs]
  have "handle ?u = Some h" using flux_handle_result [OF assms(12)] by simp
  then show ?thesis
    using send_reply_answers [OF assms(1) handler_version u(2) hs send] send sent u(1,3)
    by (auto simp: rep client_reads_def)
qed

definition sample_job :: "(ustr \<times> json) list" where
  "sample_job = [(us ''command'', JArr [JStr (us ''hostname'')])]"

definition sample_submit :: request where
  "sample_submit = \<lparr>command = us ''POST'', path = us ''/api/v1/jobs'',
     headers = [(us ''content-length'', str_int (int (length (dumps (JObj sample_job)))))]\<rparr>"

section \<open>What is read\<close>

text \<open>The input after a request: \<open>n\<close> bytes of it are gone.\<close>

definition consumed :: "nat \<Rightarrow> bytes \<Rightarrow> 'a conn_scheme \<Rightarrow> bool" where
  "consumed n b c \<longleftrightarrow> rfile c = drop n b"

lemma indifferent_consumed [simp]: "conn_indifferent (consumed n b)"
  by (simp add: conn_indifferent_def consumed_def)

lemma keeps_reply_consumed:
  "consumed n b c \<Longrightarrow> send_reply py cls rep c = (r, t) \<Longrightarrow> consumed n b t"
  by (rule keepsD [OF keeps_send_reply [OF indifferent_consumed]])

lemma rfile_read_consumed:
  "rfile_read n c = (r, t) \<Longrightarrow> consumed (min n (length (rfile c))) (rfile c) t"
  by (auto simp: rfile_read_def consumed_def split: if_splits read_end.splits)

lemma keeps_early_consumed:
  "keeps (consumed n b) (seq_p (send_reply py cls rep) (return_p x))"
  by (intro keeps_seq keeps_send_reply) simp_all

text \<open>How much of the input \<open>post_body\<close> may take.\<close>

definition read_size :: "request \<Rightarrow> nat" where
  "read_size req = (case content_length req of
     Inr n \<Rightarrow> if 0 \<le> n \<and> n \<le> MAX_BODY_SIZE then nat n else 0
   | Inl _ \<Rightarrow> 0)"

lemma read_size_bound: "int (read_size req) \<le> MAX_BODY_SIZE"
  by (cases "content_length req") (simp_all add: read_size_def MAX_BODY_SIZE_def nat_le_iff)

lemma post_body_consumed:
  assumes "post_body py cls req s = (r, t)"
  shows "consumed (min (read_size req) (length (rfile s))) (rfile s) t"
proof -
  let ?k = "min (read_size req) (length (rfile s))"
  let ?P = "consumed ?k (rfile s)"
  have start: "read_size req = 0 \<Longrightarrow> ?P s" by (simp add: consumed_def)
  let ?h = "\<lambda>e. if is_ValueError e then seq_p (send_reply py cls malformed) (return_p None) else raise_p e"
  have h: "keeps ?P (?h e)" for e by (simp add: keeps_early_consumed)
  consider (err) e where "content_length req = Inl e"
    | (early) n where "content_length req = Inr n" "n < 0 \<or> n > MAX_BODY_SIZE"
    | (zero) "content_length req = Inr 0"
    | (ok) n where "content_length req = Inr n" "n > 0" "n \<le> MAX_BODY_SIZE"
    by (cases "content_length req") (auto, force)
  then show ?thesis
  proof cases
    case err
    then have "post_body py cls req s = ?h e s" "?P s"
      by (simp_all add: post_body_def lift_p_def bind_p_def catch_p_def consumed_def read_size_def)
    with h assms show ?thesis by (metis keepsD)
  next
    case early
    have P: "?P s" using early by (intro start) (auto simp: read_size_def MAX_BODY_SIZE_def)
    have "keeps ?P (catch_p (if n < 0 then seq_p (send_reply py cls malformed) (return_p None)
        else seq_p (send_reply py cls (error_reply 400 (us ''request body too large''))) (return_p None)) ?h)"
      using h by (intro keeps_catch) (simp_all add: keeps_early_consumed)
    from keepsD [OF this P] assms early show ?thesis
      by (auto simp: post_body_def lift_p_def bind_p_def catch_p_def split: if_splits)
  next
    case zero
    have P: "?P s" using zero by (intro start) (simp add: read_size_def)
    have "keeps ?P (catch_p (bind_p (lift_p (json_loads py ''{}'')) (\<lambda>body. return_p (Some body))) ?h)"
      using h by (intro keeps_catch keeps_bind keeps_lift keeps_return)
    from keepsD [OF this P] assms zero show ?thesis
      by (simp add: post_body_def lift_p_def bind_p_def catch_p_def return_p_def MAX_BODY_SIZE_def)
  next
    case ok
    obtain q u where q: "rfile_read (nat n) s = (q, u)" by fastforce
    have P: "?P u" using rfile_read_consumed [OF q] ok by (simp add: read_size_def)
    have "keeps ?P (catch_p (bind_p (lift_p q) (\<lambda>raw.
        bind_p (lift_p (json_loads py raw)) (\<lambda>body. return_p (Some body)))) ?h)"
      using h by (intro keeps_catch keeps_bind keeps_lift keeps_return)
    from keepsD [OF this P] assms ok q show ?thesis
      by (cases q) (auto simp: post_body_def lift_p_def bind_p_def catch_p_def)
  qed
qed

text \<open>
  C30. \<open>do_POST\<close> never reads more than the 1 MiB limit, whatever \<open>Content-Length\<close> says: it
  takes exactly the declared bytes (or what the client sent before it stopped), and none
  at all when the length is not a number, is negative or is over the limit, or when the path
  has no POST route. In particular a negative length never reads until end of file.
\<close>

theorem do_POST_reads:
  assumes "do_POST py cls os api req s = (r, t)"
  shows "rfile t = drop (if before 63 (path req) = PREFIX @ us ''/jobs'' then read_size req else 0) (rfile s)
    \<and> int (read_size req) \<le> MAX_BODY_SIZE"
proof -
  have "rfile t = drop (if before 63 (path req) = PREFIX @ us ''/jobs'' then read_size req else 0) (rfile s)"
  proof (cases "before 63 (path req) = PREFIX @ us ''/jobs''")
    case False
    then have "send_reply py cls (not_found (before 63 (path req))) s = (r, t)"
      using assms by (simp add: do_POST_def Let_def POST_ROUTES_def)
    then have "consumed 0 (rfile s) t" by (rule keeps_reply_consumed [rotated]) (simp add: consumed_def)
    then show ?thesis using False by (simp add: consumed_def)
  next
    case True
    obtain q u where q: "post_body py cls req s = (q, u)" by fastforce
    let ?P = "consumed (min (read_size req) (length (rfile s))) (rfile s)"
    have u: "?P u" by (rule post_body_consumed [OF q])
    let ?rest = "\<lambda>got. case got of None \<Rightarrow> return_p ()
      | Some (JObj body) \<Rightarrow> bind_p (guarded cls (PREFIX @ us ''/jobs'') (jobs_submit os api body)) (send_reply py cls)
      | Some _ \<Rightarrow> send_reply py cls (error_reply 400 (us ''request body must be a JSON object''))"
    have g: "keeps ?P (bind_p (guarded cls p (jobs_submit os api body)) (send_reply py cls))" for p body
      using frames_keeps_rfile [OF frames_submit [of os api body]]
      by (intro keeps_bind keeps_guarded keeps_send_reply) (simp_all add: consumed_def [abs_def])
    have rest: "keeps ?P (?rest got)" for got
      using g by (auto split: option.splits json.splits intro: keeps_send_reply)
    have "bind_p (lift_p q) ?rest u = (r, t)"
      using assms True q
      by (cases q) (simp_all add: do_POST_def POST_ROUTES_def step_p lift_p_def)
    moreover have "keeps ?P (bind_p (lift_p q) ?rest)" using rest by (intro keeps_bind keeps_lift)
    ultimately have "?P t" using u by (meson keepsD)
    then show ?thesis
      using True by (simp add: consumed_def min_def)
  qed
  then show ?thesis using read_size_bound by blast
qed

lemma do_POST_reads_witness:
  "rfile (snd (do_POST sample_py (handler_cls sample_py False) sample_os sample_api
     (sample_post ''/api/v1/jobs'' ''-1'') (sample_srv\<lparr>rfile := ''{}''\<rparr>))) = ''{}''"
proof -
  have l: "content_length (sample_post ''/api/v1/jobs'' ''-1'') = Inr (- 1)"
    by (simp add: content_length_def sample_post_def header_get_def find_header_def ascii_lower_def
        lit_simps py_int_def py_strip_def rstrip_by_def is_space_def split_sign_def is_digit_def
        int_max_str_digits_def digits_value_def)
  show ?thesis
    using do_POST_reads [OF prod.collapse [symmetric], of sample_py "handler_cls sample_py False" sample_os
        sample_api "sample_post ''/api/v1/jobs'' ''-1''" "sample_srv\<lparr>rfile := ''{}''\<rparr>"]
    by (simp add: read_size_def l)
qed

section \<open>Requests that need no Flux\<close>

text \<open>
  \<open>GET /api/v1/health\<close>, with any query, answers 200 and \<open>{"status": "ok"}\<close> without
  opening Flux and without asking the broker anything, so it works when Flux is down.
\<close>

theorem health_answers:
  assumes "texts_ok py" and "connected s" and "query = [] \<or> hd query = 63"
    and "path req = us ''/api/v1/health'' @ query"
    and "do_GET py (handler_cls py v) os api req s = (r, t)"
  shows "r = Inr () \<and> handle t = handle s \<and> world t = world s
    \<and> client_reads s t = Inr (json_message py (handler_cls py v)
        (200, json_obj [(''status'', JStr (us ''ok''))], []))"
proof -
  let ?p = "us ''/api/v1/health''" and ?cls = "handler_cls py v"
  have "63 \<notin> set ?p" by (simp add: lit_simps)
  then have p: "before 63 (path req) = ?p"
    using assms(3,4) by (cases query) (use before_id before_append [of 63 ?p] in auto)
  have route: "map_of (ROUTES os api) ?p = Some health"
    by (simp add: ROUTES_def PREFIX_def API_VERSION_def lit_simps)
  have "guarded ?cls ?p health s = (Inr (200, json_obj [(''status'', JStr (us ''ok''))], []), s)"
    by (simp add: guarded_def health_def catch_p_def prog_simps)
  then have send: "send_reply py ?cls (200, json_obj [(''status'', JStr (us ''ok''))], []) s = (r, t)"
    using assms(5) by (simp add: do_GET_def get_from_def p route step_p)
  from keepsD [OF keeps_send_reply [OF indifferent_world] _ send, of "handle s" "world s"]
    send_reply_answers [OF assms(1) handler_version assms(2) plain_headers_simps(1) send]
  show ?thesis by simp
qed

lemma health_answers_witness:
  "client_reads sample_srv (snd (do_GET sample_py (handler_cls sample_py False) sample_os sample_api
      (sample_get ''/api/v1/health?x=1'') sample_srv))
   = Inr (json_message sample_py (handler_cls sample_py False) (200, json_obj [(''status'', JStr (us ''ok''))], []))"
  using health_answers [OF sample_texts sample_connected _ _ prod.collapse [symmetric],
      of "us ''?x=1''" "sample_get ''/api/v1/health?x=1''" False sample_os sample_api]
  by (simp add: sample_get_def lit_simps)

section \<open>The cached handle\<close>

text \<open>
  With a handle in the cache, \<open>flux.Flux()\<close> is not called: replacing it by anything changes
  nothing.
\<close>

lemma bind_handle_cached:
  "handle s = Some h \<Longrightarrow> bind_p (flux_handle (api\<lparr>Flux := f\<rparr>)) g s = bind_p (flux_handle api) g s"
  by (simp add: bind_p_def flux_handle_def)

lemma root_cached: "handle s = Some h \<Longrightarrow> root os (api\<lparr>Flux := f\<rparr>) s = root os api s"
  unfolding root_def by (simp add: bind_handle_cached)

lemma cancel_cached: "handle s = Some h \<Longrightarrow> jobs_cancel (api\<lparr>Flux := f\<rparr>) j rsn s = jobs_cancel api j rsn s"
  unfolding jobs_cancel_def by (simp add: bind_handle_cached cong: if_cong)

lemma state_cached: "handle s = Some h \<Longrightarrow> jobs_state (api\<lparr>Flux := f\<rparr>) j s = jobs_state api j s"
  unfolding jobs_state_def by (simp add: bind_handle_cached cong: if_cong sum.case_cong)

lemma submit_cached:
  assumes "handle s = Some h"
  shows "jobs_submit os (api\<lparr>Flux := f\<rparr>) body s = jobs_submit os api body s"
proof -
  have "submit_jobspec (api\<lparr>Flux := f\<rparr>) spec s = submit_jobspec api spec s" for spec
    unfolding submit_jobspec_def using assms by (simp add: catch_p_def bind_handle_cached)
  then show ?thesis
    by (auto simp: jobs_submit_def bind_p_def created_def split: option.splits sum.splits)
qed

lemma guarded_cached: "m s = n s \<Longrightarrow> bind_p (guarded cls p m) g s = bind_p (guarded cls p n) g s"
  by (simp add: bind_p_def guarded_def catch_p_def)

lemma parse_job_path_cached [simp]: "parse_job_path (api\<lparr>Flux := f\<rparr>) p = parse_job_path api p"
  by (simp add: parse_job_path_def Let_def)

lemma job_branch_cached:
  assumes "\<And>j. run' j s = run j s"
  shows "(case x of Inl e \<Rightarrow> f e | Inr None \<Rightarrow> g | Inr (Some j) \<Rightarrow> bind_p (guarded cls p (run' j)) k) s
    = (case x of Inl e \<Rightarrow> f e | Inr None \<Rightarrow> g | Inr (Some j) \<Rightarrow> bind_p (guarded cls p (run j)) k) s"
  by (auto split: sum.splits option.splits intro: guarded_cached assms)

lemma job_branch_state:
  assumes "handle s = Some h"
  shows "(case x of Inl e \<Rightarrow> f e | Inr None \<Rightarrow> g
      | Inr (Some j) \<Rightarrow> bind_p (guarded cls p (jobs_state (api\<lparr>Flux := q\<rparr>) j)) k) s
    = (case x of Inl e \<Rightarrow> f e | Inr None \<Rightarrow> g | Inr (Some j) \<Rightarrow> bind_p (guarded cls p (jobs_state api j)) k) s"
  by (rule job_branch_cached) (rule state_cached [OF assms])

lemma job_branch_cancel:
  assumes "handle s = Some h"
  shows "(case x of Inl e \<Rightarrow> f e | Inr None \<Rightarrow> g
      | Inr (Some j) \<Rightarrow> bind_p (guarded cls p (jobs_cancel (api\<lparr>Flux := q\<rparr>) j rsn)) k) s
    = (case x of Inl e \<Rightarrow> f e | Inr None \<Rightarrow> g | Inr (Some j) \<Rightarrow> bind_p (guarded cls p (jobs_cancel api j rsn)) k) s"
  by (rule job_branch_cached) (rule cancel_cached [OF assms])

lemma ROUTES_None:
  "p \<noteq> PREFIX @ us ''/'' \<Longrightarrow> p \<noteq> PREFIX @ us ''/health'' \<Longrightarrow> map_of (ROUTES os api) p = None"
  by (simp add: ROUTES_def)

lemma keeps_handle_post_body: "keeps (\<lambda>s. handle s = h) (post_body py cls req)"
proof -
  have early: "keeps (\<lambda>s. handle s = h) (seq_p (send_reply py cls rep) (return_p x))" for rep x
    by (intro keeps_seq keeps_send_reply) simp_all
  have "keeps (\<lambda>s. handle s = h) (rfile_read n)" for n
    by (simp add: keeps_def rfile_read_def split: read_end.splits)
  then show ?thesis
    unfolding post_body_def by (intro keeps_catch keeps_bind keeps_lift) (auto intro: early)
qed

lemma do_GET_cached:
  assumes "handle s = Some h"
  shows "do_GET py cls os (api\<lparr>Flux := f\<rparr>) req s = do_GET py cls os api req s"
proof (cases "before 63 (path req) = PREFIX @ us ''/''")
  case True
  then show ?thesis
    by (simp add: do_GET_def get_from_def ROUTES_def guarded_cached [of "root os (api\<lparr>Flux := f\<rparr>)" s "root os api"]
        root_cached [OF assms])
next
  case False
  show ?thesis
  proof (cases "before 63 (path req) = PREFIX @ us ''/health''")
    case True
    then show ?thesis by (simp add: do_GET_def get_from_def ROUTES_def lit_simps)
  next
    case False
    then show ?thesis
      using \<open>before 63 (path req) \<noteq> PREFIX @ us ''/''\<close>
      by (simp add: do_GET_def get_from_def Let_def ROUTES_None job_branch_state [OF assms])
  qed
qed

lemma do_POST_cached:
  assumes "handle s = Some h"
  shows "do_POST py cls os (api\<lparr>Flux := f\<rparr>) req s = do_POST py cls os api req s"
proof -
  obtain q u where q: "post_body py cls req s = (q, u)" by fastforce
  have "handle u = Some h" using keepsD [OF keeps_handle_post_body assms q] .
  then have sub: "bind_p (guarded cls p (jobs_submit os (api\<lparr>Flux := f\<rparr>) body)) g u
      = bind_p (guarded cls p (jobs_submit os api body)) g u" for p body g
    by (intro guarded_cached submit_cached)
  show ?thesis
  proof (cases "before 63 (path req) = PREFIX @ us ''/jobs''")
    case False
    then show ?thesis by (simp add: do_POST_def POST_ROUTES_def)
  next
    case True
    then show ?thesis
      using q sub by (cases q) (auto simp: do_POST_def POST_ROUTES_def step_p split: option.splits json.splits)
  qed
qed

lemma do_DELETE_cached:
  assumes "handle s = Some h"
  shows "do_DELETE py cls (api\<lparr>Flux := f\<rparr>) req s = do_DELETE py cls api req s"
proof (cases "urlsplit py (path req)")
  case (Inr pq)
  show ?thesis
    by (cases pq) (simp add: do_DELETE_def lift_p_def bind_p_Inr Inr job_branch_cancel [OF assms])
qed (simp add: do_DELETE_def lift_p_def bind_p_def)

lemma keeps_handle_routes:
  "keeps (\<lambda>s. handle s = Some h) (root os api)" "keeps (\<lambda>s. handle s = Some h) health"
  "keeps (\<lambda>s. handle s = Some h) (jobs_state api j)"
  "keeps (\<lambda>s. handle s = Some h) (jobs_cancel api j rsn)"
  "keeps (\<lambda>s. handle s = Some h) (jobs_submit os api body)"
proof -
  note ops = keeps_handle_flux keeps_handle_on_world keeps_return keeps_raise keeps_lift
  show "keeps (\<lambda>s. handle s = Some h) (root os api)" "keeps (\<lambda>s. handle s = Some h) health"
    unfolding root_def health_def by (intro keeps_bind ops)+
  show "keeps (\<lambda>s. handle s = Some h) (jobs_state api j)"
    unfolding jobs_state_def by (intro keeps_bind keeps_catch ops) (auto split: sum.splits intro: ops keeps_bind)
  show "keeps (\<lambda>s. handle s = Some h) (jobs_cancel api j rsn)"
    unfolding jobs_cancel_def by (intro keeps_bind keeps_catch ops) (auto intro: ops)
  have "keeps (\<lambda>s. handle s = Some h) (submit_jobspec api spec)" for spec
    unfolding submit_jobspec_def by (intro keeps_bind keeps_catch ops) (auto intro: ops)
  then show "keeps (\<lambda>s. handle s = Some h) (jobs_submit os api body)"
    unfolding jobs_submit_def by (auto split: option.splits sum.splits intro!: keeps_bind intro: ops)
qed

lemma keeps_handle_route:
  "keeps (\<lambda>s. handle s = Some h) run \<Longrightarrow>
   keeps (\<lambda>s. handle s = Some h) (bind_p (guarded cls p run) (send_reply py cls))"
  by (intro keeps_bind keeps_guarded keeps_send_reply) simp_all

lemma keeps_handle_send:
  "keeps (\<lambda>s. handle s = Some h) (send_reply py cls rep)"
  "keeps (\<lambda>s. handle s = Some h) (send_error_page py cls b code m x)"
  by (intro keeps_send_reply keeps_send_error, simp)+

lemma keeps_handle_method: "keeps (\<lambda>s. handle s = Some h) (do_method py cls os api req)"
proof -
  note ops = keeps_handle_route keeps_handle_routes keeps_handle_send keeps_return keeps_raise
  have "keeps (\<lambda>s. handle s = Some h) (do_GET py cls os api req)"
    unfolding do_GET_def get_from_def Let_def
    by (auto simp: ROUTES_def split: option.splits sum.splits intro: ops)
  moreover have "keeps (\<lambda>s. handle s = Some h) (do_POST py cls os api req)"
    unfolding do_POST_def Let_def
    using keeps_bind [OF keeps_handle_post_body]
    by (auto simp: POST_ROUTES_def split: option.splits json.splits intro!: keeps_bind [OF keeps_handle_post_body]
        ops)
  moreover have "keeps (\<lambda>s. handle s = Some h) (do_DELETE py cls api req)"
    unfolding do_DELETE_def
    by (auto split: option.splits sum.splits intro!: keeps_bind [OF keeps_lift] ops)
  ultimately show ?thesis
    by (auto simp: do_method_def dispatch_def METHODS_def keeps_handle_send(2) split: option.splits if_splits)
qed

text \<open>
  Flux is opened at most once: when a handle is cached, no request calls \<open>flux.Flux()\<close>
  (whatever it would do, the outcome is the same) and no request replaces or drops the handle.
\<close>

theorem handle_opened_once:
  assumes "handle s = Some h" and "do_method py cls os api req s = (r, t)"
  shows "do_method py cls os (api\<lparr>Flux := f\<rparr>) req s = (r, t) \<and> handle t = Some h"
proof
  show "do_method py cls os (api\<lparr>Flux := f\<rparr>) req s = (r, t)"
    using assms(2)
    by (auto simp: do_method_def dispatch_def METHODS_def do_GET_cached [OF assms(1)]
        do_POST_cached [OF assms(1)] do_DELETE_cached [OF assms(1)] split: option.splits if_splits)
  show "handle t = Some h"
    using keepsD [OF keeps_handle_method assms] .
qed

lemma handle_opened_once_witness:
  "handle (snd (do_method sample_py (handler_cls sample_py False) sample_os sample_api (sample_get ''/api/v1/'')
     (sample_srv\<lparr>handle := Some ()\<rparr>))) = Some ()"
  using handle_opened_once [of "sample_srv\<lparr>handle := Some ()\<rparr>" "()" sample_py "handler_cls sample_py False"
      sample_os sample_api "sample_get ''/api/v1/''", OF _ prod.collapse [symmetric]]
  by simp

end
