(* ===== verification/Divergence.thy ===== *)
theory Divergence
  imports Request_Spec
begin

text \<open>
  Requests on which the handler does something its comments, its documentation or the rest
  of the code do not lead one to expect. Each theorem is a statement about the modelled code
  on a whole class of inputs.
\<close>

section \<open>A body nested too deeply\<close>

lemma take_all: "length xs = n \<Longrightarrow> take n xs = xs"
  by simp

text \<open>
  A body of opening brackets, one more than the decoder's nesting limit and far below the
  1 MiB limit, makes \<open>json.loads\<close> raise \<open>RecursionError\<close>, which the \<open>except\<close> clause for
  malformed bodies does not name: the exception leaves the handler and the client gets no
  response at all, where every other malformed body is answered 400.
\<close>

theorem deep_body_unanswered:
  assumes "command req = us ''POST''" and "path req = us ''/api/v1/jobs''"
    and "header_get (us ''Content-Length'') req = Some (str_int (int (Suc (json_depth py))))"
    and "int (Suc (json_depth py)) \<le> MAX_BODY_SIZE"
    and "rfile s = replicate (Suc (json_depth py)) (CHR ''['')"
    and "handle_one_request py cls os api req s = (r, t)"
  shows "(\<exists>m. r = Inl (RecursionError m)) \<and> sent t = sent s"
proof -
  obtain m where m: "json_loads py (replicate (Suc (json_depth py)) (CHR ''['')) = Inl (RecursionError m)"
    using json_loads_brackets by blast
  have p: "before 63 (path req) = PREFIX @ us ''/jobs''"
    by (simp add: assms(2) before_id PREFIX_def API_VERSION_def lit_simps)
  have "post_body py cls req s = (Inl (RecursionError m), s\<lparr>rfile := []\<rparr>)"
    using readable_content_length [OF assms(3,4)] assms(4,5) m
    by (simp add: post_body_def lift_p_def bind_p_def catch_p_def raise_p_def rfile_read_def
        del: replicate.simps of_nat_Suc)
  then have "do_POST py cls os api req s = (Inl (RecursionError m), s\<lparr>rfile := []\<rparr>)"
    by (simp add: do_POST_def p POST_ROUTES_def step_p)
  then have "handle_one_request py cls os api req s = (Inl (RecursionError m), s\<lparr>rfile := []\<rparr>)"
    by (simp add: handle_one_request_def timed_def catch_p_def do_method_simps(2) [OF assms(1)] raise_p_def)
  with assms(6) show ?thesis by auto
qed

lemma deep_body_unanswered_witness:
  "sent (snd (handle_one_request sample_py (handler_cls sample_py False) sample_os sample_api
      (sample_post ''/api/v1/jobs'' ''3'') (sample_srv\<lparr>rfile := ''[[[''\<rparr>))) = []"
proof -
  have h: "header_get (us ''Content-Length'') (sample_post ''/api/v1/jobs'' ''3'')
      = Some (str_int (int (Suc (json_depth sample_py))))"
    by (simp add: header_get_def sample_post_def find_header_def ascii_lower_def sample_py_def
        str_int_def dec_digits.simps [of 3] lit_simps)
  have "rfile (sample_srv\<lparr>rfile := ''[[[''\<rparr>) = replicate (Suc (json_depth sample_py)) (CHR ''['')"
    by (simp add: sample_py_def eval_nat_numeral)
  from deep_body_unanswered [OF _ _ h _ this prod.collapse [symmetric], of "handler_cls sample_py False"
      sample_os sample_api]
  show ?thesis by (simp add: sample_post_def sample_py_def MAX_BODY_SIZE_def sample_srv_def)
qed

section \<open>The target of a DELETE\<close>

text \<open>
  A DELETE whose target has an unbalanced bracket in its authority gets no response:
  \<open>urlsplit\<close> raises before the first \<open>try\<close> of \<open>do_DELETE\<close>, where GET answers 404 for the
  same target. (The request reader makes one slash of several at the start of a target, so it
  takes an absolute form to get there.)
\<close>

lemma urlsplit_open_bracket: "urlsplit py (us ''http://['') = Inl (ValueError (us ''Invalid IPv6 URL''))"
  by (simp add: urlsplit_def Let_def drop_scheme_def after_def before_def py_startswith_def scheme_char_def
      ascii_alpha_def netloc_end_def check_netloc_def lit_simps split: option.splits)

theorem delete_bad_authority_unanswered:
  "command req = us ''DELETE'' \<Longrightarrow> path req = us ''http://['' \<Longrightarrow>
   handle_one_request py cls os api req s = (Inl (ValueError (us ''Invalid IPv6 URL'')), s)"
  by (simp add: handle_one_request_def timed_def catch_p_def do_method_simps(3) do_DELETE_def
      urlsplit_open_bracket lift_p_def bind_p_def raise_p_def)

lemma delete_bad_authority_unanswered_witness:
  "handle_one_request sample_py (handler_cls sample_py False) sample_os sample_api (sample_delete ''http://['') sample_srv
     = (Inl (ValueError (us ''Invalid IPv6 URL'')), sample_srv)"
  by (rule delete_bad_authority_unanswered) (simp_all add: sample_delete_def)

text \<open>
  The raw path of a DELETE is not matched as it is: an absolute-form target loses its
  scheme and host on the way, and is routed to the job it names, while GET, which only cuts
  the query off, finds no route for the same target.
\<close>

theorem delete_absolute_form_routed:
  assumes "JobID api (us ''f1'') = Inr j"
  shows "urlsplit py (us ''http://h/api/v1/jobs/f1'') = Inr (us ''/api/v1/jobs/f1'', [])
    \<and> parse_job_path api (us ''/api/v1/jobs/f1'') = Inr (Some j)
    \<and> parse_job_path api (before 63 (us ''http://h/api/v1/jobs/f1'')) = Inr None
    \<and> map_of (ROUTES os api) (before 63 (us ''http://h/api/v1/jobs/f1'')) = None"
proof (intro conjI)
  show "urlsplit py (us ''http://h/api/v1/jobs/f1'') = Inr (us ''/api/v1/jobs/f1'', [])"
    by (simp add: urlsplit_def Let_def drop_scheme_def after_def before_def py_startswith_def
        netloc_end_def check_netloc_def scheme_char_def ascii_alpha_def lit_simps)
  show "parse_job_path api (us ''/api/v1/jobs/f1'') = Inr (Some j)"
    unfolding parse_iff using assms
    by (intro exI [of _ "us ''f1''"]) (simp add: unquote_def lit_simps)
  show "parse_job_path api (before 63 (us ''http://h/api/v1/jobs/f1'')) = Inr None"
    by (simp add: parse_job_path_def before_def py_startswith_def JOBS_PREFIX_def PREFIX_def lit_simps)
  show "map_of (ROUTES os api) (before 63 (us ''http://h/api/v1/jobs/f1'')) = None"
    by (simp add: ROUTES_def before_def PREFIX_def lit_simps)
qed

lemma delete_absolute_form_routed_witness:
  "parse_job_path sample_api (us ''/api/v1/jobs/f1'') = Inr (Some 1)"
  using delete_absolute_form_routed [of sample_api 1 sample_py sample_os]
  by (simp add: sample_api_def py_startswith_def lit_simps)

section \<open>Submission when Flux or the password entry is missing\<close>

text \<open>
  \<open>_flux()\<close> is called inside the \<open>try\<close> that classifies the broker's answers, so a
  failure to open Flux whose errno happens to be \<open>EINVAL\<close> is reported to the submitter as
  the request's fault (400), while the same failure on GET is 503.
\<close>

theorem submit_blames_client_for_open:
  assumes "handle s = None" and "Flux api (world s) = (Inl e, w)" and "exn_errno e = Some EINVAL"
    and "command_of body = Some cmd" and "getpwuid os (getuid os) = Some pw"
    and "from_command api cmd (submit_kwargs pw body) = Inr spec"
  shows "fst (guarded cls p (jobs_submit os api body) s) = Inr (error_reply 400 (exn_str e))
    \<and> fst (guarded cls p (root os api) s) = Inr (unavailable e)"
proof
  have e: "is_OSError e" using assms(3) by (cases e) auto
  have f: "flux_handle api s = (Inl e, s\<lparr>world := w\<rparr>)"
    using assms(1,2) by (rule flux_handle_fail)
  show "fst (guarded cls p (jobs_submit os api body) s) = Inr (error_reply 400 (exn_str e))"
    using assms e f by (simp add: guarded_def jobs_submit_def submit_jobspec_def bind_p_def catch_p_def
        prog_simps)
  show "fst (guarded cls p (root os api) s) = Inr (unavailable e)"
    using e f by (simp add: guarded_def root_def bind_p_def catch_p_def prog_simps)
qed

definition einval_api :: "(broker, unit, ustr list, nat) flux_api" where
  "einval_api = sample_api\<lparr>Flux := (\<lambda>w. (Inl (OSError PlainOSError (Some 22) (us ''bad FLUX_URI'')), w))\<rparr>"

lemma einval_commands:
  "command_of [(us ''command'', JArr [JStr (us ''id'')])] = Some [us ''id'']"
  "from_command einval_api [us ''id''] (submit_kwargs sample_pw [(us ''command'', JArr [JStr (us ''id'')])])
     = Inr [us ''id'']"
proof -
  show "command_of [(us ''command'', JArr [JStr (us ''id'')])] = Some [us ''id'']"
    by (simp add: command_of_iff [of _ "[us ''id'']"])
  show "from_command einval_api [us ''id''] (submit_kwargs sample_pw [(us ''command'', JArr [JStr (us ''id'')])])
     = Inr [us ''id'']"
    by (simp add: einval_api_def sample_api_def submit_kwargs_def request_kwargs_def setdefault_def)
qed

lemma submit_blames_client_for_open_witness:
  "fst (guarded (handler_cls sample_py False) [] (jobs_submit sample_os einval_api
      [(us ''command'', JArr [JStr (us ''id'')])]) sample_srv)
     = Inr (error_reply 400 (us ''bad FLUX_URI''))"
proof -
  let ?e = "OSError PlainOSError (Some 22) (us ''bad FLUX_URI'')"
  have "Flux einval_api (world sample_srv) = (Inl ?e, world sample_srv)" by (simp add: einval_api_def)
  then show ?thesis
    using submit_blames_client_for_open [of sample_srv einval_api ?e "world sample_srv" _ "[us ''id'']"
        sample_os sample_pw "[us ''id'']" "handler_cls sample_py False" "[]"] einval_commands
    by (simp add: sample_srv_def sample_os_def EINVAL_def)
qed

text \<open>
  For a uid without a password entry every submission with a valid command is answered
  500, even one that gives \<open>cwd\<close> and \<open>environment\<close> itself: the entry is looked up before it
  is known to be needed, and the \<open>KeyError\<close> is caught nowhere but in the catch-all. The
  same uid is no error for \<open>GET /\<close>, which falls back to the number.
\<close>

theorem submit_needs_passwd_entry:
  assumes "getpwuid os (getuid os) = None" and "command_of body = Some cmd"
  shows "fst (guarded cls p (jobs_submit os api body) s) = Inr (error_reply 500 (us ''internal error''))
    \<and> user os = str_int (int (getuid os))"
  using assms by (simp add: guarded_def jobs_submit_def catch_p_def seq_p_def bind_p_def prog_simps
      http_simps user_def)

lemma submit_needs_passwd_entry_witness:
  "fst (guarded (handler_cls sample_py False) [] (jobs_submit (sample_os\<lparr>getpwuid := (\<lambda>_. None)\<rparr>) sample_api
      [(us ''command'', JArr [JStr (us ''id'')])]) sample_srv)
     = Inr (error_reply 500 (us ''internal error''))"
  using submit_needs_passwd_entry [of "sample_os\<lparr>getpwuid := (\<lambda>_. None)\<rparr>"
      "[(us ''command'', JArr [JStr (us ''id'')])]" "[us ''id'']" "handler_cls sample_py False" "[]"
      sample_api sample_srv] einval_commands(1)
  by simp

end
