(* ===== verification/Refuse.thy ===== *)
theory Refuse
  imports Sample "HOL-Library.Word" "HOL-Library.Multiset"
begin

text \<open>
  The admission of connections: reading a peer's credentials, and what \<open>_Server\<close> does with a
  peer it does not admit. A refused connection gets a fixed 403 and is held in a queue until
  its linger is over, so that the client can read the response.

  Time is the monotonic clock, a rational number of seconds; sockets are numbers, and what
  is done to them is appended to a trace.
\<close>

section \<open>Sockets and peers\<close>

datatype sock_event =
    Accepted nat
  | Sent nat bytes
  | Shut_wr nat
  | Closed nat

text \<open>
  A peer: its connection, what \<open>getsockopt(SO_PEERCRED)\<close> says of it, and whether sending to
  it or half-closing it fails.
\<close>

record peer =
  sock :: nat
  peercred :: "exn + bytes"
  send_fault :: "(nat \<times> exn) option"
  shut_fault :: "exn option"

record server =
  allowed_peer_uid :: "nat option"
  idle_timeout :: "rat option"
  idle :: bool
  stopping :: bool
  in_request :: bool
  refused :: "(nat \<times> rat) list"
  clock :: rat
  alarm :: "rat option"
  listening :: bool
  trace :: "sock_event list"
  errlog :: "ustr list"

definition emit :: "sock_event \<Rightarrow> server \<Rightarrow> server" where
  "emit ev s = s\<lparr>trace := trace s @ [ev]\<rparr>"

definition sock_sendall :: "peer \<Rightarrow> bytes \<Rightarrow> (server, unit) prog" where
  "sock_sendall p data s =
     (case send_fault p of
        None \<Rightarrow> (Inr (), emit (Sent (sock p) data) s)
      | Some (n, e) \<Rightarrow> (Inl e, emit (Sent (sock p) (take n data)) s))"

definition sock_shutdown_wr :: "peer \<Rightarrow> (server, unit) prog" where
  "sock_shutdown_wr p s =
     (case shut_fault p of None \<Rightarrow> (Inr (), emit (Shut_wr (sock p)) s) | Some e \<Rightarrow> (Inl e, s))"

text \<open>\<open>_close\<close>: whatever \<open>close\<close> raises is swallowed, and the descriptor is gone.\<close>

definition close_sock :: "nat \<Rightarrow> server \<Rightarrow> server" where
  "close_sock c = emit (Closed c)"

section \<open>The 403 of a refused peer\<close>

definition forbidden_body :: bytes where
  "forbidden_body = to_bytes (dumps (json_obj
     [(''error'', JStr (us ''forbidden'')), (''detail'', JStr (us ''peer uid is not permitted to connect''))])
     @ [10])"

definition forbidden_response :: bytes where
  "forbidden_response =
     to_bytes (us ''HTTP/1.0 403 Forbidden'' @ crlf
       @ us ''Server: '' @ SERVER_NAME @ crlf
       @ us ''Content-Type: application/json'' @ crlf
       @ us ''Content-Length: '' @ str_int (int (length forbidden_body)) @ crlf
       @ us ''Connection: close'' @ crlf
       @ crlf) @ forbidden_body"

definition FORBIDDEN :: bytes where
  "FORBIDDEN = forbidden_response"

section \<open>The queue of refused connections\<close>

definition REFUSE_LINGER :: rat where
  "REFUSE_LINGER = 1"

definition REFUSE_MAX :: nat where
  "REFUSE_MAX = 16"

text \<open>\<open>while len(self._refused) > _REFUSE_MAX\<close>: close the oldest.\<close>

function trim_refused :: "server \<Rightarrow> server" where
  "trim_refused s =
     (if length (refused s) > REFUSE_MAX
      then trim_refused (close_sock (fst (hd (refused s))) (s\<lparr>refused := tl (refused s)\<rparr>))
      else s)"
  by pat_completeness auto
termination
  by (relation "measure (\<lambda>s. length (refused s))") (auto simp: close_sock_def emit_def REFUSE_MAX_def)

declare trim_refused.simps [simp del]

definition refuse :: "peer \<Rightarrow> (server, unit) prog" where
  "refuse p =
     seq_p
       (catch_p (seq_p (sock_sendall p FORBIDDEN) (sock_shutdown_wr p))
          (\<lambda>e. if is_OSError e then return_p () else raise_p e))
     (seq_p
       (modify_p (\<lambda>s. s\<lparr>refused := refused s @ [(sock p, clock s + REFUSE_LINGER)]\<rparr>))
       (modify_p trim_refused))"

text \<open>\<open>_reap\<close>: one pass that closes what is due, then the rest is kept.\<close>

definition due :: "rat \<Rightarrow> nat \<times> rat \<Rightarrow> bool" where
  "due now e \<longleftrightarrow> snd e \<le> now"

definition reap :: "server \<Rightarrow> server" where
  "reap s =
     (let now = clock s;
          s' = foldl (\<lambda>s e. if due now e then close_sock (fst e) s else s) s (refused s)
      in s'\<lparr>refused := filter (\<lambda>e. now < snd e) (refused s)\<rparr>)"

definition service_actions :: "server \<Rightarrow> server" where
  "service_actions = reap"

text \<open>\<open>get_request\<close>: reap, then accept.\<close>

definition get_request :: "peer \<Rightarrow> server \<Rightarrow> server" where
  "get_request p s = emit (Accepted (sock p)) (reap s)"

text \<open>
  \<open>shutdown_request\<close>: nothing for a connection in the queue; otherwise
  \<open>TCPServer.shutdown_request\<close>, whose half-close may fail silently.
\<close>

definition shutdown_request :: "peer \<Rightarrow> server \<Rightarrow> server" where
  "shutdown_request p s =
     (if \<exists>e \<in> set (refused s). fst e = sock p then s
      else close_sock (sock p) (if shut_fault p = None then emit (Shut_wr (sock p)) s else s))"

section \<open>Who may connect\<close>

text \<open>\<open>struct.unpack("iII", creds)\<close>: a signed and two unsigned 32-bit fields, little-endian.\<close>

definition le32 :: "bytes \<Rightarrow> 32 word" where
  "le32 b = word_of_int (foldr (\<lambda>c a. of_char c + 256 * a) b 0)"

definition unpack_iII :: "bytes \<Rightarrow> exn + int \<times> nat \<times> nat" where
  "unpack_iII b =
     (if length b = 12
      then Inr (sint (le32 (take 4 b)), unat (le32 (take 4 (drop 4 b))), unat (le32 (drop 8 b)))
      else Inl (OtherException (us ''unpack requires a buffer of 12 bytes'')))"

definition peer_uid :: "peer \<Rightarrow> exn + nat" where
  "peer_uid p = (case peercred p of
      Inl e \<Rightarrow> Inl e
    | Inr creds \<Rightarrow> map_sum id (\<lambda>(pid, uid, gid). uid) (unpack_iII creds))"

definition rejection_text :: "string \<Rightarrow> nat \<Rightarrow> nat \<Rightarrow> ustr" where
  "rejection_text prog uid allowed =
     us prog @ us '': rejected connection from uid '' @ str_int (int uid) @ us ''; only uid ''
     @ str_int (int allowed) @ us '' may connect'' @ [10]"

definition log_stderr :: "ustr \<Rightarrow> (server, unit) prog" where
  "log_stderr m = modify_p (\<lambda>s. s\<lparr>errlog := errlog s @ [m]\<rparr>)"

definition verify_request :: "peer \<Rightarrow> (server, bool) prog" where
  "verify_request p s =
     (case allowed_peer_uid s of
        None \<Rightarrow> (Inr True, s)
      | Some allowed \<Rightarrow>
          (case peer_uid p of
             Inl e \<Rightarrow>
               if is_OSError e then seq_p (refuse p) (return_p False) s else (Inl e, s)
           | Inr uid \<Rightarrow>
               if uid \<noteq> allowed
                 then seq_p (log_stderr (rejection_text ''flux-rest-server'' uid allowed))
                        (seq_p (refuse p) (return_p False)) s
               else (Inr True, s)))"

section \<open>How long to wait\<close>

definition serve_timeout :: "server \<Rightarrow> rat option" where
  "serve_timeout s =
     (if refused s = [] then idle_timeout s
      else let linger = max 0 (snd (hd (refused s)) - clock s)
           in case idle_timeout s of None \<Rightarrow> Some linger | Some t \<Rightarrow> Some (min t linger))"

definition handle_timeout :: "server \<Rightarrow> server" where
  "handle_timeout s = (if refused s \<noteq> [] then reap s else s\<lparr>idle := True\<rparr>)"

section \<open>Closed forms\<close>

abbreviation closes :: "(nat \<times> rat) list \<Rightarrow> sock_event list" where
  "closes es \<equiv> map (\<lambda>e. Closed (fst e)) es"

lemma reap_eq:
  "reap s = s\<lparr>refused := filter (\<lambda>e. clock s < snd e) (refused s),
              trace := trace s @ closes (filter (due (clock s)) (refused s))\<rparr>"
proof -
  have "foldl (\<lambda>s e. if due now e then close_sock (fst e) s else s) s es
      = s\<lparr>trace := trace s @ closes (filter (due now) es)\<rparr>" for now es and s :: server
    by (induction es arbitrary: s) (simp_all add: close_sock_def emit_def)
  then show ?thesis by (simp add: reap_def Let_def)
qed

lemma trim_refused_eq:
  "trim_refused s = (let k = length (refused s) - REFUSE_MAX
     in s\<lparr>refused := drop k (refused s), trace := trace s @ closes (take k (refused s))\<rparr>)"
proof (induction s rule: trim_refused.induct)
  case (1 s)
  show ?case
  proof (cases "length (refused s) > REFUSE_MAX")
    case True
    then obtain e es where "refused s = e # es" by (cases "refused s") auto
    moreover from this True have "Suc (length es) - REFUSE_MAX = Suc (length es - REFUSE_MAX)" by simp
    ultimately show ?thesis
      using "1.IH" [OF True] True
      by (subst trim_refused.simps) (simp add: Let_def close_sock_def emit_def)
  qed (subst trim_refused.simps, simp)
qed

definition only_os_faults :: "peer \<Rightarrow> bool" where
  "only_os_faults p \<longleftrightarrow> (\<forall>n e. send_fault p = Some (n, e) \<longrightarrow> is_OSError e)
     \<and> (\<forall>e. shut_fault p = Some e \<longrightarrow> is_OSError e)"

text \<open>What a refused peer is sent: the 403 and a half-close, or as much as the socket took.\<close>

definition refusal_events :: "peer \<Rightarrow> sock_event list" where
  "refusal_events p =
     (case send_fault p of
        Some (n, _) \<Rightarrow> [Sent (sock p) (take n FORBIDDEN)]
      | None \<Rightarrow> Sent (sock p) FORBIDDEN # (if shut_fault p = None then [Shut_wr (sock p)] else []))"

lemma refuse_eq:
  assumes "only_os_faults p"
  shows "refuse p s =
    (Inr (), trim_refused (s\<lparr>trace := trace s @ refusal_events p,
                             refused := refused s @ [(sock p, clock s + REFUSE_LINGER)]\<rparr>))"
  using assms
  by (auto simp: refuse_def seq_p_def bind_p_def catch_p_def sock_sendall_def sock_shutdown_wr_def
      prog_simps emit_def refusal_events_def only_os_faults_def split: option.splits)

section \<open>The invariant of the queue\<close>

definition opened :: "sock_event list \<Rightarrow> nat list" where
  "opened tr = concat (map (\<lambda>e. case e of Accepted c \<Rightarrow> [c] | _ \<Rightarrow> []) tr)"

definition closed :: "sock_event list \<Rightarrow> nat list" where
  "closed tr = concat (map (\<lambda>e. case e of Closed c \<Rightarrow> [c] | _ \<Rightarrow> []) tr)"

lemma opened_simps [simp]:
  "opened [] = []" "opened (a @ b) = opened a @ opened b" "opened (Accepted c # tr) = c # opened tr"
  "opened (Sent c d # tr) = opened tr" "opened (Shut_wr c # tr) = opened tr"
  "opened (Closed c # tr) = opened tr" "opened (closes es) = []"
  by (simp_all add: opened_def comp_def)

lemma closed_simps [simp]:
  "closed [] = []" "closed (a @ b) = closed a @ closed b" "closed (Accepted c # tr) = closed tr"
  "closed (Sent c d # tr) = closed tr" "closed (Shut_wr c # tr) = closed tr"
  "closed (Closed c # tr) = c # closed tr" "closed (closes es) = map fst es"
  by (simp_all add: closed_def comp_def)

lemma refusal_events_quiet [simp]: "opened (refusal_events p) = []" "closed (refusal_events p) = []"
  by (simp_all add: refusal_events_def split: option.splits)

text \<open>
  The queue is in order of deadline, within its cap and its linger, and the sockets are
  accounted for: each was accepted once, each accepted one is closed once or is still open
  in the queue or in the hands of the loop (\<open>held\<close>).
\<close>

definition queue_inv :: "nat list \<Rightarrow> server \<Rightarrow> bool" where
  "queue_inv held s \<longleftrightarrow>
     sorted (map snd (refused s))
     \<and> length (refused s) \<le> REFUSE_MAX
     \<and> (\<forall>e \<in> set (refused s). snd e \<le> clock s + REFUSE_LINGER)
     \<and> distinct (opened (trace s))
     \<and> distinct (closed (trace s) @ map fst (refused s) @ held)
     \<and> set (opened (trace s)) = set (closed (trace s) @ map fst (refused s) @ held)"

text \<open>Moving part of the queue to the closed sockets keeps the account.\<close>

definition accounted :: "nat list \<Rightarrow> nat list \<Rightarrow> nat list \<Rightarrow> nat list \<Rightarrow> bool" where
  "accounted op cl qu held \<longleftrightarrow> distinct op \<and> distinct (cl @ qu @ held) \<and> set op = set (cl @ qu @ held)"

lemma accounted_close:
  "accounted op cl qu held \<Longrightarrow> mset qu = mset ds + mset ks \<Longrightarrow> accounted op (cl @ ds) ks held"
proof -
  assume acc: "accounted op cl qu held" and q: "mset qu = mset ds + mset ks"
  then have "mset (cl @ qu @ held) = mset ((cl @ ds) @ ks @ held)" by simp
  then show ?thesis
    using acc unfolding accounted_def by (metis mset_eq_imp_distinct_iff mset_eq_setD)
qed

lemma queue_inv_iff:
  "queue_inv held s \<longleftrightarrow> sorted (map snd (refused s)) \<and> length (refused s) \<le> REFUSE_MAX
     \<and> (\<forall>e \<in> set (refused s). snd e \<le> clock s + REFUSE_LINGER)
     \<and> accounted (opened (trace s)) (closed (trace s)) (map fst (refused s)) held"
  by (auto simp: queue_inv_def accounted_def)

lemma mset_filter_split:
  "mset (map f xs) = mset (map f (filter (\<lambda>e. \<not> P e) xs)) + mset (map f (filter P xs))"
  by (induction xs) auto

lemma queue_inv_reap:
  assumes "queue_inv held s"
  shows "queue_inv held (reap s)"
proof -
  let ?k = "filter (\<lambda>e. clock s < snd e) (refused s)"
  have "filter (due (clock s)) (refused s) = filter (\<lambda>e. \<not> clock s < snd e) (refused s)"
    by (rule filter_cong) (auto simp: due_def)
  then have "mset (map fst (refused s)) = mset (map fst (filter (due (clock s)) (refused s))) + mset (map fst ?k)"
    using mset_filter_split by metis
  then have "accounted (opened (trace s)) (closed (trace s) @ map fst (filter (due (clock s)) (refused s)))
      (map fst ?k) held"
    using assms unfolding queue_inv_iff by (blast intro: accounted_close)
  moreover have "sorted (map snd ?k)"
    using assms by (simp add: queue_inv_iff sorted_filter)
  moreover have "length ?k \<le> REFUSE_MAX"
    using assms length_filter_le le_trans unfolding queue_inv_iff by blast
  ultimately show ?thesis
    using assms unfolding queue_inv_iff reap_eq by simp
qed

lemma sorted_append_last:
  "sorted (map snd es) \<Longrightarrow> \<forall>e \<in> set es. snd e \<le> d \<Longrightarrow> sorted (map snd (es @ [(c, d)]))"
  by (simp add: sorted_append)

lemma queue_inv_refuse:
  assumes "queue_inv (sock p # held) s" and "only_os_faults p"
  shows "queue_inv held (snd (refuse p s))"
proof -
  let ?q = "refused s @ [(sock p, clock s + REFUSE_LINGER)]"
  define k where "k = Suc (length (refused s)) - REFUSE_MAX"
  define ds ks where "ds = take k ?q" and "ks = drop k ?q"
  have q: "?q = ds @ ks" by (simp only: ds_def ks_def append_take_drop_id)
  have eq: "snd (refuse p s) = s\<lparr>refused := ks, trace := trace s @ refusal_events p @ closes ds\<rparr>"
    by (simp add: refuse_eq [OF assms(2)] trim_refused_eq Let_def ds_def ks_def k_def)
  have "sorted (map snd ?q)"
    using assms(1) by (intro sorted_append_last) (auto simp: queue_inv_iff)
  then have sorted: "sorted (map snd ks)" unfolding q by (simp add: sorted_append)
  have len: "length ks \<le> REFUSE_MAX" by (simp add: ks_def k_def)
  have "\<forall>e \<in> set ?q. snd e \<le> clock s + REFUSE_LINGER"
    using assms(1) by (auto simp: queue_inv_iff)
  then have bound: "\<forall>e \<in> set ks. snd e \<le> clock s + REFUSE_LINGER" unfolding q by simp
  have "accounted (opened (trace s)) (closed (trace s)) (map fst ?q) held"
    using assms(1) by (auto simp: queue_inv_iff accounted_def)
  moreover have "mset (map fst ?q) = mset (map fst ds) + mset (map fst ks)"
    unfolding q by simp
  ultimately have "accounted (opened (trace s)) (closed (trace s) @ map fst ds) (map fst ks) held"
    by (rule accounted_close)
  with sorted len bound show ?thesis unfolding queue_inv_iff eq by simp
qed

section \<open>The gate\<close>

text \<open>
  What both servers of the repository promise of their \<open>verify_request\<close>: with an owner set,
  a peer is let in exactly when its credentials can be read and name that uid, and letting it
  in has no effect.
\<close>

locale peer_gate =
  fixes verify :: "'p \<Rightarrow> ('s, bool) prog" and owner :: "'s \<Rightarrow> nat option" and uid :: "'p \<Rightarrow> exn + nat"
  assumes admits_owner: "owner s = Some a \<Longrightarrow> uid p = Inr a \<Longrightarrow> verify p s = (Inr True, s)"
    and admits_only: "owner s = Some a \<Longrightarrow> verify p s = (Inr True, t) \<Longrightarrow> uid p = Inr a"
    and open_gate: "owner s = None \<Longrightarrow> verify p s = (Inr True, s)"
begin

lemma admitted_iff:
  "owner s = Some a \<Longrightarrow> (\<exists>t. verify p s = (Inr True, t)) \<longleftrightarrow> uid p = Inr a"
  using admits_owner admits_only by blast

lemma admitted_quiet: "owner s = Some a \<Longrightarrow> verify p s = (Inr True, t) \<Longrightarrow> t = s"
  using admits_owner admits_only by (metis prod.inject)

lemma unreadable_refused: "owner s = Some a \<Longrightarrow> uid p = Inl e \<Longrightarrow> verify p s \<noteq> (Inr True, t)"
  using admits_only by fastforce

end

interpretation server_gate: peer_gate verify_request allowed_peer_uid peer_uid
proof unfold_locales
  fix s t :: server and a p
  assume o: "allowed_peer_uid s = Some a"
  show "verify_request p s = (Inr True, s)" if "peer_uid p = Inr a"
    using o that by (simp add: verify_request_def)
  show "peer_uid p = Inr a" if "verify_request p s = (Inr True, t)"
    using o that by (auto simp: verify_request_def seq_p_def bind_p_def return_p_def
        split: sum.splits if_splits prod.splits)
qed (simp add: verify_request_def)

lemma verify_refuses:
  assumes "allowed_peer_uid s = Some a" and "peer_uid p \<noteq> Inr a" and "only_os_faults p"
    and "\<forall>e. peer_uid p = Inl e \<longrightarrow> is_OSError e"
  shows "\<exists>l. verify_request p s = (Inr False, snd (refuse p (s\<lparr>errlog := l\<rparr>)))"
proof (cases "peer_uid p")
  case (Inl e)
  have "s\<lparr>errlog := errlog s\<rparr> = s" by simp
  with assms Inl show ?thesis
    by (intro exI [of _ "errlog s"]) (simp add: verify_request_def seq_p_def bind_p_def return_p_def
        refuse_eq [OF assms(3)])
next
  case (Inr uid)
  with assms show ?thesis
    by (intro exI [of _ "errlog s @ [rejection_text ''flux-rest-server'' uid a]"])
      (simp add: verify_request_def seq_p_def bind_p_def return_p_def log_stderr_def modify_p_def
        refuse_eq [OF assms(3)])
qed

section \<open>The refusal on the wire\<close>

text \<open>The refusal as a message, with the headers in the order they are written.\<close>

definition forbidden_message :: "nat \<times> ustr \<times> headers \<times> bytes" where
  "forbidden_message =
     (403, us ''Forbidden'',
      [(us ''Server'', SERVER_NAME), (us ''Content-Type'', us ''application/json''),
       (us ''Content-Length'', str_int (int (length forbidden_body))), (us ''Connection'', us ''close'')],
      forbidden_body)"

lemma str_int_403: "str_int 403 = us ''403''"
  by (simp add: str_int_def dec_digits.simps [of 403] dec_digits.simps [of 40] dec_digits.simps [of 4] lit_simps)

lemma forbidden_render: "FORBIDDEN = render forbidden_message"
  by (simp add: FORBIDDEN_def forbidden_response_def render_def forbidden_message_def head_text_def
      status_line_def header_line_def str_int_403 lit_simps to_bytes_def)

lemma forbidden_ok: "message_ok forbidden_message"
proof -
  have "value_ok (us ''Content-Length'', str_int (int n))" for n
    using dec_digits_digits [OF hd_in_set [OF dec_digits_not_Nil [of n]]]
    by (auto simp: value_ok_def str_int_def)
  moreover have "printable (str_int i)" for i by (rule printable_str_int)
  ultimately show ?thesis
    by (simp add: message_ok_def forbidden_message_def header_ok_def value_ok_def find_header_def
        ascii_lower_def SERVER_NAME_def lit_simps)
qed

lemma printable_one_line:
  assumes "printable s"
  shows "CHR 10 \<notin> set (to_bytes s)"
proof
  assume "CHR 10 \<in> set (to_bytes s)"
  then obtain c where c: "c \<in> set s" "char_of c = (CHR 10 :: char)" by (auto simp: to_bytes_def)
  then have "32 \<le> c \<and> c \<le> 126" using assms by (auto simp: printable_def list_all_iff)
  then have "of_char (char_of c :: char) = c" by (simp add: of_char_char_of)
  moreover have "of_char (CHR 10) = (10 :: int)" by simp
  ultimately have "c = 10" using c(2) by simp
  with \<open>32 \<le> c \<and> c \<le> 126\<close> show False by simp
qed

text \<open>
  C32. The 403 a refused peer is sent, which the code assembles by hand, is a complete HTTP
  message like the ones \<open>_send\<close> writes: a client reads status 403, \<open>Connection: close\<close>, a
  \<open>Content-Length\<close> that is the length of the body, and a one-line JSON body that parses back
  to the error it was made from.
\<close>

theorem forbidden_complete:
  assumes "json_depth py > 0"
  shows "read_message FORBIDDEN = Inr forbidden_message
    \<and> (\<exists>line. forbidden_body = line @ [CHR 10] \<and> CHR 10 \<notin> set line
         \<and> json_loads py line = Inr (json_obj
             [(''error'', JStr (us ''forbidden'')),
              (''detail'', JStr (us ''peer uid is not permitted to connect''))]))"
proof
  show "read_message FORBIDDEN = Inr forbidden_message"
    unfolding forbidden_render by (rule wire.dec_enc) (rule forbidden_ok)
  let ?j = "json_obj [(''error'', JStr (us ''forbidden'')),
    (''detail'', JStr (us ''peer uid is not permitted to connect''))]"
  obtain d where d: "json_depth py = Suc d" using assms by (cases "json_depth py") auto
  have "readable py (json_depth py) ?j"
    by (simp add: d json_obj_def is_scalar_def is_surrogate_def lit_simps)
  then have "json_loads py (to_bytes (dumps ?j)) = Inr ?j" by (rule json_loads_dumps)
  moreover have "CHR 10 \<notin> set (to_bytes (dumps ?j))"
    using printable_dumps(1) by (rule printable_one_line)
  moreover have "forbidden_body = to_bytes (dumps ?j) @ [CHR 10]"
    by (simp add: forbidden_body_def to_bytes_def char_of_def)
  ultimately show "\<exists>line. forbidden_body = line @ [CHR 10] \<and> CHR 10 \<notin> set line \<and> json_loads py line = Inr ?j"
    by blast
qed

lemma forbidden_complete_witness:
  "read_message FORBIDDEN = Inr forbidden_message
    \<and> (\<exists>line. forbidden_body = line @ [CHR 10]
         \<and> json_loads sample_py line = Inr (json_obj
             [(''error'', JStr (us ''forbidden'')),
              (''detail'', JStr (us ''peer uid is not permitted to connect''))]))"
  using forbidden_complete [of sample_py] by (auto simp: sample_py_def)

section \<open>Credentials\<close>

text \<open>The bytes the kernel writes for a 32-bit field.\<close>

definition le32_bytes :: "nat \<Rightarrow> bytes" where
  "le32_bytes n = [char_of (int n mod 256), char_of (int n div 256 mod 256),
     char_of (int n div 65536 mod 256), char_of (int n div 16777216 mod 256)]"

definition ucred_bytes :: "nat \<Rightarrow> nat \<Rightarrow> nat \<Rightarrow> bytes" where
  "ucred_bytes pid uid gid = le32_bytes pid @ le32_bytes uid @ le32_bytes gid"

lemma length_le32_bytes [simp]: "length (le32_bytes n) = 4"
  by (simp add: le32_bytes_def)

lemma horner3:
  "256 * a + r0 = n \<Longrightarrow> 256 * b + r1 = a \<Longrightarrow> 256 * c + r2 = b \<Longrightarrow> r0 + 256 * (r1 + 256 * (r2 + 256 * c)) = (n :: int)"
  by simp

lemma base256_digits:
  assumes "0 \<le> (n :: int)" and "n < 4294967296"
  shows "n mod 256 + 256 * (n div 256 mod 256 + 256 * (n div 65536 mod 256 + 256 * (n div 16777216 mod 256))) = n"
proof -
  have 1: "n div 65536 = n div 256 div 256" using zdiv_zmult2_eq [of 256 n 256] by simp
  have 2: "n div 16777216 = n div 65536 div 256" using zdiv_zmult2_eq [of 256 n 65536] by simp
  have small: "n div 16777216 mod 256 = n div 16777216"
  proof (rule mod_pos_pos_trivial)
    show "0 \<le> n div 16777216" using assms(1) by (simp add: pos_imp_zdiv_nonneg_iff)
    have "n div 16777216 \<le> 4294967295 div 16777216" using assms(2) by (intro zdiv_mono1) simp_all
    then show "n div 16777216 < 256" by simp
  qed
  show ?thesis
    unfolding small by (rule horner3) (simp_all only: 2 1 mult_div_mod_eq)
qed

lemma le32_of_bytes:
  assumes "n < 2 ^ 32"
  shows "unat (le32 (le32_bytes n)) = n"
proof -
  have "int n < 4294967296" using assms by simp
  then have "int n mod 256 + 256 * (int n div 256 mod 256 + 256 * (int n div 65536 mod 256
      + 256 * (int n div 16777216 mod 256))) = int n"
    by (intro base256_digits) simp_all
  then have "foldr (\<lambda>c a. of_char c + 256 * a) (le32_bytes n) 0 = int n"
    by (simp only: le32_bytes_def foldr.simps of_char_of comp_apply id_apply mod_mod_trivial
        mult_zero_right add_0_right)
  then have "le32 (le32_bytes n) = word_of_int (int n)" by (simp only: le32_def)
  moreover have "unat (word_of_int (int n) :: 32 word) = n"
    using assms by (simp add: unat_of_nat take_bit_nat_eq_self)
  ultimately show ?thesis by simp
qed

text \<open>
  The uid of a peer is read from the kernel's 12 bytes without loss: every 32-bit uid,
  those above 2^31 included, is the number the check compares, whatever pid and gid are.
\<close>

theorem peer_uid_roundtrip:
  assumes "peercred p = Inr (ucred_bytes pid uid gid)" and "uid < 2 ^ 32"
  shows "peer_uid p = Inr uid"
  using assms by (simp add: peer_uid_def ucred_bytes_def unpack_iII_def le32_of_bytes)

definition sample_peer :: "nat \<Rightarrow> nat \<Rightarrow> peer" where
  "sample_peer c uid = \<lparr>sock = c, peercred = Inr (ucred_bytes 77 uid 100), send_fault = None, shut_fault = None\<rparr>"

lemma peer_uid_roundtrip_witness: "peer_uid (sample_peer 5 4294967294) = Inr 4294967294"
  by (rule peer_uid_roundtrip [of _ 77 _ 100]) (simp_all add: sample_peer_def)

end
