(* ===== verification/Serve.thy ===== *)
theory Serve
  imports Refuse
begin

text \<open>
  The serve loop: one round of \<open>handle_request\<close> (\<open>socketserver\<close>'s
  \<open>_handle_request_noblock\<close> over the overridden methods), and \<open>serve\<close> as a transition
  system in which connections, the wait's timeout, signals and the alarm arrive in any order.
\<close>

section \<open>One connection\<close>

text \<open>
  What an admitted connection would do to its handler: the writes it makes, how long it
  takes, and whether the handler ends with an exception.
\<close>

record exchange =
  writes :: "bytes list"
  took :: rat
  crashed :: bool

definition finish_request :: "exchange \<Rightarrow> peer \<Rightarrow> server \<Rightarrow> server" where
  "finish_request x p s =
     s\<lparr>trace := trace s @ map (Sent (sock p)) (writes x), clock := clock s + took x\<rparr>"

text \<open>
  \<open>process_request\<close> with the \<open>except Exception\<close> clause of its caller: \<open>finally\<close> clears the
  flag first, then the error is reported and the connection shut down.
\<close>

definition process_request :: "exchange \<Rightarrow> peer \<Rightarrow> server \<Rightarrow> server" where
  "process_request x p s =
     (let s1 = finish_request x p (s\<lparr>in_request := True\<rparr>)
      in if crashed x
         then shutdown_request p (s1\<lparr>in_request := False,
                errlog := errlog s1 @ [us ''Exception occurred during processing of request'']\<rparr>)
         else (shutdown_request p s1)\<lparr>in_request := False\<rparr>)"

text \<open>
  A \<open>KeyboardInterrupt\<close> out of the request takes the other clause, \<open>except:\<close>, which shuts the connection down
  without a report and raises it again.
\<close>

definition interrupt_request :: "exchange \<Rightarrow> peer \<Rightarrow> server \<Rightarrow> server" where
  "interrupt_request x p s =
     shutdown_request p ((finish_request x p (s\<lparr>in_request := True\<rparr>))\<lparr>in_request := False\<rparr>)"

definition handle_request_noblock :: "exchange \<Rightarrow> peer \<Rightarrow> (server, unit) prog" where
  "handle_request_noblock x p s =
     (case verify_request p (get_request p s) of
        (Inl e, s2) \<Rightarrow> (Inl e, s2)
      | (Inr True, s2) \<Rightarrow> (Inr (), process_request x p s2)
      | (Inr False, s2) \<Rightarrow> (Inr (), shutdown_request p s2))"

section \<open>A peer that is not admitted\<close>

lemma refused_after_refuse:
  assumes "only_os_faults p"
  shows "(sock p, clock s + REFUSE_LINGER) \<in> set (refused (snd (refuse p s)))"
proof -
  let ?q = "refused s @ [(sock p, clock s + REFUSE_LINGER)]" and ?k = "Suc (length (refused s)) - REFUSE_MAX"
  have "?k \<le> length (refused s)" by (simp add: REFUSE_MAX_def)
  then have "last (drop ?k ?q) = (sock p, clock s + REFUSE_LINGER)" "drop ?k ?q \<noteq> []" by simp_all
  then have "(sock p, clock s + REFUSE_LINGER) \<in> set (drop ?k ?q)" by (metis last_in_set)
  then show ?thesis by (simp add: refuse_eq [OF assms] trim_refused_eq Let_def)
qed

lemma shutdown_request_refused:
  "(sock p, d) \<in> set (refused s) \<Longrightarrow> shutdown_request p s = s"
  by (force simp: shutdown_request_def)

lemma noblock_refused:
  assumes "allowed_peer_uid s = Some a" and "peer_uid p \<noteq> Inr a" and "only_os_faults p"
    and "\<forall>e. peer_uid p = Inl e \<longrightarrow> is_OSError e"
  shows "\<exists>l. handle_request_noblock x p s = (Inr (), snd (refuse p ((get_request p s)\<lparr>errlog := l\<rparr>)))"
proof -
  have "allowed_peer_uid (get_request p s) = Some a"
    using assms(1) by (simp add: get_request_def emit_def reap_eq)
  then obtain l where l: "verify_request p (get_request p s)
      = (Inr False, snd (refuse p ((get_request p s)\<lparr>errlog := l\<rparr>)))"
    using verify_refuses [OF _ assms(2-4)] by blast
  then show ?thesis
    using shutdown_request_refused [OF refused_after_refuse [OF assms(3)]]
    by (auto simp: handle_request_noblock_def)
qed

fun socket_of :: "sock_event \<Rightarrow> nat" where
  "socket_of (Accepted c) = c"
| "socket_of (Sent c _) = c"
| "socket_of (Shut_wr c) = c"
| "socket_of (Closed c) = c"

text \<open>What happened to one socket.\<close>

definition events_of :: "nat \<Rightarrow> sock_event list \<Rightarrow> sock_event list" where
  "events_of c tr = filter (\<lambda>e. socket_of e = c) tr"

lemma events_of_append [simp]: "events_of c (a @ b) = events_of c a @ events_of c b"
  by (simp add: events_of_def)

lemma events_of_closes: "c \<notin> fst ` set es \<Longrightarrow> events_of c (closes es) = []"
  by (induction es) (auto simp: events_of_def)

lemma events_of_refusal: "events_of (sock p) (refusal_events p) = refusal_events p"
  by (simp add: refusal_events_def events_of_def split: option.splits)

lemma get_request_fields [simp]:
  "clock (get_request p s) = clock s" "in_request (get_request p s) = in_request s"
  "refused (get_request p s) = filter (\<lambda>e. clock s < snd e) (refused s)"
  "trace (get_request p s) = trace s @ closes (filter (due (clock s)) (refused s)) @ [Accepted (sock p)]"
  "idle (get_request p s) = idle s" "stopping (get_request p s) = stopping s"
  "allowed_peer_uid (get_request p s) = allowed_peer_uid s" "alarm (get_request p s) = alarm s"
  "idle_timeout (get_request p s) = idle_timeout s" "listening (get_request p s) = listening s"
  by (simp_all add: get_request_def emit_def reap_eq)

lemma refuse_fields:
  assumes "only_os_faults p"
  shows "clock (snd (refuse p s)) = clock s" "in_request (snd (refuse p s)) = in_request s"
    "stopping (snd (refuse p s)) = stopping s" "idle (snd (refuse p s)) = idle s"
    "alarm (snd (refuse p s)) = alarm s" "idle_timeout (snd (refuse p s)) = idle_timeout s"
    "allowed_peer_uid (snd (refuse p s)) = allowed_peer_uid s" "listening (snd (refuse p s)) = listening s"
  by (simp_all add: refuse_eq [OF assms] trim_refused_eq Let_def)

lemma refuse_events:
  assumes "only_os_faults p" and "sock p \<notin> fst ` set (refused s)"
  shows "events_of (sock p) (trace (snd (refuse p s))) = events_of (sock p) (trace s) @ refusal_events p"
proof -
  let ?k = "Suc (length (refused s)) - REFUSE_MAX"
  have "?k \<le> length (refused s)" by (simp add: REFUSE_MAX_def)
  then have "take ?k (refused s @ [(sock p, clock s + REFUSE_LINGER)]) = take ?k (refused s)" by simp
  moreover have "sock p \<notin> fst ` set (take ?k (refused s))"
    using assms(2) by (meson image_mono set_take_subset subsetD)
  ultimately show ?thesis
    by (simp add: refuse_eq [OF assms(1)] trim_refused_eq Let_def events_of_closes events_of_refusal)
qed

text \<open>
  C12. A peer whose uid is not the permitted one, or whose credentials cannot be read, gets
  the 403 and a half-close, or as much of them as its socket takes, and nothing else: what
  it sends is never parsed and no handler runs (the outcome does not depend on what the
  handler would do), and its connection stays open, waiting for the deferred close.
\<close>

theorem unpermitted_peer_refused:
  assumes "allowed_peer_uid s = Some a" and "peer_uid p \<noteq> Inr a" and "only_os_faults p"
    and "\<forall>e. peer_uid p = Inl e \<longrightarrow> is_OSError e" and "sock p \<notin> fst ` set (refused s)"
  shows "handle_request_noblock x p s = handle_request_noblock y p s
    \<and> (\<exists>t. handle_request_noblock x p s = (Inr (), t)
         \<and> events_of (sock p) (trace t) = events_of (sock p) (trace s) @ Accepted (sock p) # refusal_events p
         \<and> (sock p, clock s + REFUSE_LINGER) \<in> set (refused t) \<and> in_request t = in_request s)"
proof
  let ?g = "\<lambda>l. (get_request p s)\<lparr>errlog := l\<rparr>"
  obtain b s2 where v: "verify_request p (get_request p s) = (Inr b, s2)" "b = False"
    using verify_refuses [OF _ assms(2-4), of "get_request p s"] assms(1) by auto
  then show "handle_request_noblock x p s = handle_request_noblock y p s"
    by (simp add: handle_request_noblock_def)
  obtain l where l: "handle_request_noblock x p s = (Inr (), snd (refuse p (?g l)))"
    using noblock_refused [OF assms(1-4)] by blast
  have fresh: "sock p \<notin> fst ` set (refused (?g l))" using assms(5) by auto
  have "events_of (sock p) (closes (filter (due (clock s)) (refused s))) = []"
    using assms(5) by (intro events_of_closes) auto
  then have "events_of (sock p) (trace (snd (refuse p (?g l))))
      = events_of (sock p) (trace s) @ Accepted (sock p) # refusal_events p"
    using refuse_events [OF assms(3) fresh] by (simp add: events_of_def)
  moreover have "(sock p, clock s + REFUSE_LINGER) \<in> set (refused (snd (refuse p (?g l))))"
    using refused_after_refuse [OF assms(3), of "?g l"] by simp
  ultimately show "\<exists>t. handle_request_noblock x p s = (Inr (), t)
      \<and> events_of (sock p) (trace t) = events_of (sock p) (trace s) @ Accepted (sock p) # refusal_events p
      \<and> (sock p, clock s + REFUSE_LINGER) \<in> set (refused t) \<and> in_request t = in_request s"
    using l by (simp add: refuse_fields [OF assms(3)])
qed

definition sample_server :: server where
  "sample_server = \<lparr>allowed_peer_uid = Some 1000, idle_timeout = Some 30, idle = False, stopping = False,
     in_request = False, refused = [], clock = 0, alarm = None, listening = True, trace = [], errlog = []\<rparr>"

definition sample_exchange :: exchange where
  "sample_exchange = \<lparr>writes = [''HTTP/1.0 200 OK''], took = 2, crashed = False\<rparr>"

lemma sample_uid: "uid < 2 ^ 32 \<Longrightarrow> peer_uid (sample_peer c uid) = Inr uid"
  by (simp add: peer_uid_def sample_peer_def ucred_bytes_def unpack_iII_def le32_of_bytes)

lemma unpermitted_peer_refused_witness:
  "\<exists>t. handle_request_noblock sample_exchange (sample_peer 7 33) sample_server = (Inr (), t)
     \<and> events_of 7 (trace t) = [Accepted 7, Sent 7 FORBIDDEN, Shut_wr 7]"
proof -
  have u: "peer_uid (sample_peer 7 33) = Inr 33" by (simp add: sample_uid)
  have o: "only_os_faults (sample_peer 7 33)" by (simp add: only_os_faults_def sample_peer_def)
  have "sock (sample_peer 7 33) = 7" "refusal_events (sample_peer 7 33) = [Sent 7 FORBIDDEN, Shut_wr 7]"
    by (simp_all add: refusal_events_def sample_peer_def)
  then show ?thesis
    using unpermitted_peer_refused [of sample_server 1000 "sample_peer 7 33" sample_exchange sample_exchange] u o
    by (auto simp: sample_server_def events_of_def)
qed

section \<open>Rounds of the loop\<close>

text \<open>
  What can happen between two tests of the loop's condition: a connection, an expired wait,
  or time passing. A round on which the code raises leaves the state as the exception found
  it.
\<close>

datatype round_event = Connect exchange peer | Expire | Tick rat

definition round_step :: "server \<Rightarrow> round_event \<Rightarrow> server" where
  "round_step s e =
     (case e of
        Connect x p \<Rightarrow> snd (handle_request_noblock x p s)
      | Expire \<Rightarrow> handle_timeout s
      | Tick d \<Rightarrow> s\<lparr>clock := clock s + d\<rparr>)"

text \<open>
  What the operating system guarantees: an accepted socket is a new one, the credentials
  can be read or their lookup fails with an \<open>OSError\<close>, time does not go backwards.
\<close>

definition round_ok :: "server \<Rightarrow> round_event \<Rightarrow> bool" where
  "round_ok s e =
     (case e of
        Connect x p \<Rightarrow> sock p \<notin> set (opened (trace s)) \<and> only_os_faults p \<and> 0 \<le> took x
          \<and> (case peer_uid p of Inl e \<Rightarrow> is_OSError e | Inr _ \<Rightarrow> True)
      | Expire \<Rightarrow> True
      | Tick d \<Rightarrow> 0 \<le> d)"

lemma queue_inv_cong:
  "queue_inv held s \<Longrightarrow> refused t = refused s \<Longrightarrow> clock s \<le> clock t \<Longrightarrow>
   opened (trace t) = opened (trace s) \<Longrightarrow> closed (trace t) = closed (trace s) \<Longrightarrow> queue_inv held t"
  unfolding queue_inv_iff by force

lemma queue_inv_accept:
  assumes "queue_inv [] s" and "sock p \<notin> set (opened (trace s))"
  shows "queue_inv [sock p] (get_request p s)"
proof -
  have r: "queue_inv [] (reap s)" using assms(1) by (rule queue_inv_reap)
  moreover have "opened (trace (reap s)) = opened (trace s)" by (simp add: reap_eq)
  ultimately show ?thesis
    using assms(2) unfolding queue_inv_iff accounted_def by (auto simp: get_request_def emit_def)
qed

lemma queue_inv_shutdown:
  assumes "queue_inv [sock p] s"
  shows "queue_inv [] (shutdown_request p s)"
proof -
  have "sock p \<notin> fst ` set (refused s)"
    using assms by (auto simp: queue_inv_iff accounted_def)
  then have "\<not> (\<exists>e \<in> set (refused s). fst e = sock p)" by force
  then show ?thesis
    using assms unfolding queue_inv_iff accounted_def
    by (auto simp: shutdown_request_def close_sock_def emit_def)
qed

lemma opened_sent [simp]: "opened (map (Sent c) ds) = []" "closed (map (Sent c) ds) = []"
  by (induction ds) simp_all

lemma queue_inv_served:
  assumes "queue_inv [sock p] s" and "0 \<le> took x"
  shows "queue_inv [] (process_request x p s)"
proof -
  have "queue_inv [sock p] (finish_request x p (s\<lparr>in_request := True\<rparr>))"
    using assms by (intro queue_inv_cong [OF assms(1)]) (simp_all add: finish_request_def)
  then have s1: "queue_inv [sock p] (finish_request x p (s\<lparr>in_request := b\<rparr>))" for b
    by (rule queue_inv_cong) (simp_all add: finish_request_def)
  have "queue_inv [] (shutdown_request p (finish_request x p (s\<lparr>in_request := True\<rparr>)))"
    using s1 by (rule queue_inv_shutdown)
  then have 1: "queue_inv [] ((shutdown_request p (finish_request x p (s\<lparr>in_request := True\<rparr>)))\<lparr>in_request := False\<rparr>)"
    by (rule queue_inv_cong) simp_all
  let ?f = "(finish_request x p (s\<lparr>in_request := True\<rparr>))\<lparr>in_request := False,
      errlog := errlog (finish_request x p (s\<lparr>in_request := True\<rparr>))
        @ [us ''Exception occurred during processing of request'']\<rparr>"
  have "queue_inv [sock p] ?f" by (rule queue_inv_cong [OF s1]) simp_all
  then have "queue_inv [] (shutdown_request p ?f)" by (rule queue_inv_shutdown)
  with 1 show ?thesis by (simp add: process_request_def Let_def)
qed

lemma queue_inv_step:
  assumes "queue_inv [] s" and "round_ok s e"
  shows "queue_inv [] (round_step s e)"
proof (cases e)
  case (Connect x p)
  with assms(2) have ok: "sock p \<notin> set (opened (trace s))" "only_os_faults p" "0 \<le> took x"
    "\<forall>e. peer_uid p = Inl e \<longrightarrow> is_OSError e"
    by (auto simp: round_ok_def split: sum.splits)
  let ?g = "get_request p s"
  have g: "queue_inv [sock p] ?g" by (rule queue_inv_accept [OF assms(1) ok(1)])
  show ?thesis
  proof (cases "\<exists>a. allowed_peer_uid s = Some a \<and> peer_uid p \<noteq> Inr a")
    case True
    then obtain a where "allowed_peer_uid s = Some a" "peer_uid p \<noteq> Inr a" by blast
    then obtain l where l: "handle_request_noblock x p s = (Inr (), snd (refuse p (?g\<lparr>errlog := l\<rparr>)))"
      using noblock_refused ok by blast
    have "queue_inv [sock p] (?g\<lparr>errlog := l\<rparr>)" by (rule queue_inv_cong [OF g]) simp_all
    then show ?thesis using l Connect queue_inv_refuse ok(2) by (simp add: round_step_def)
  next
    case False
    then have "verify_request p ?g = (Inr True, ?g)"
      by (cases "allowed_peer_uid s")
        (auto intro: server_gate.open_gate server_gate.admits_owner)
    then show ?thesis
      using Connect queue_inv_served [OF g ok(3)] by (simp add: round_step_def handle_request_noblock_def)
  qed
next
  case Expire
  have "queue_inv [] (s\<lparr>idle := True\<rparr>)" by (rule queue_inv_cong [OF assms(1)]) simp_all
  then show ?thesis
    using queue_inv_reap [OF assms(1)] Expire by (simp add: round_step_def handle_timeout_def)
next
  case (Tick d)
  with assms(2) have "0 \<le> d" by (simp add: round_ok_def)
  then have "queue_inv [] (s\<lparr>clock := clock s + d\<rparr>)" by (intro queue_inv_cong [OF assms(1)]) simp_all
  then show ?thesis using Tick by (simp add: round_step_def)
qed

interpretation rounds: machine round_step round_ok "queue_inv []"
  by unfold_locales (rule queue_inv_step)

definition fresh_server :: "nat option \<Rightarrow> rat option \<Rightarrow> server" where
  "fresh_server allowed timeout = \<lparr>allowed_peer_uid = allowed, idle_timeout = timeout, idle = False,
     stopping = False, in_request = False, refused = [], clock = 0, alarm = None, listening = True,
     trace = [], errlog = []\<rparr>"

text \<open>
  C22. In every history of connections, expired waits and passing time, at most 16 refused
  connections are held, in order of deadline and none beyond its linger of one second; and no
  descriptor leaks or is closed twice: each accepted connection has been closed exactly once
  or is one of those held.
\<close>

theorem refused_queue_bounded:
  assumes "admissible round_step round_ok (fresh_server allowed timeout) es"
  shows "let s = run_with round_step (fresh_server allowed timeout) es in
      length (refused s) \<le> 16 \<and> sorted (map snd (refused s))
      \<and> (\<forall>e \<in> set (refused s). snd e \<le> clock s + 1)
      \<and> distinct (closed (trace s)) \<and> set (closed (trace s)) \<inter> fst ` set (refused s) = {}
      \<and> set (opened (trace s)) = set (closed (trace s)) \<union> fst ` set (refused s)"
proof -
  have "queue_inv [] (fresh_server allowed timeout)"
    by (simp add: queue_inv_def fresh_server_def)
  from rounds.run_inv [OF this assms] show ?thesis
    unfolding queue_inv_def Let_def by (auto simp: REFUSE_MAX_def REFUSE_LINGER_def)
qed

lemma refused_queue_bounded_witness:
  "length (refused (run_with round_step (fresh_server (Some 1000) None)
     [Connect sample_exchange (sample_peer 7 33), Tick 2, Expire])) \<le> 16"
proof -
  have o: "only_os_faults (sample_peer 7 33)" by (simp add: only_os_faults_def sample_peer_def)
  have "admissible round_step round_ok (fresh_server (Some 1000) None)
      [Connect sample_exchange (sample_peer 7 33), Tick 2, Expire]"
    by (simp add: round_ok_def o sample_uid) (simp add: sample_exchange_def fresh_server_def)
  from refused_queue_bounded [OF this] show ?thesis unfolding Let_def by blast
qed

section \<open>The queue as a specification\<close>

text \<open>
  What the queue of refused connections is, without sockets, credentials or a log: a bounded queue of
  entries with deadlines, in which a new entry pushes the oldest out when there is no room.
\<close>

definition hold :: "nat \<Rightarrow> 'a \<Rightarrow> 'a list \<Rightarrow> 'a list" where
  "hold cap x q = drop (Suc (length q) - cap) (q @ [x])"

definition live :: "rat \<Rightarrow> (nat \<times> rat) list \<Rightarrow> (nat \<times> rat) list" where
  "live now q = filter (\<lambda>e. now < snd e) q"

datatype queue_event = Refuses nat | Serves rat | Purges | Elapses rat

fun queue_spec :: "rat \<times> (nat \<times> rat) list \<Rightarrow> queue_event \<Rightarrow> rat \<times> (nat \<times> rat) list" where
  "queue_spec (now, q) (Refuses c) = (now, hold REFUSE_MAX (c, now + REFUSE_LINGER) (live now q))"
| "queue_spec (now, q) (Serves t) = (now + t, live now q)"
| "queue_spec (now, q) Purges = (now, live now q)"
| "queue_spec (now, q) (Elapses t) = (now + t, q)"

fun event_in_queue :: "nat option \<Rightarrow> round_event \<Rightarrow> queue_event" where
  "event_in_queue allowed (Connect x p) =
     (case allowed of
        None \<Rightarrow> Serves (took x)
      | Some a \<Rightarrow> if peer_uid p = Inr a then Serves (took x) else Refuses (sock p))"
| "event_in_queue allowed Expire = Purges"
| "event_in_queue allowed (Tick d) = Elapses d"

definition queue_of :: "server \<Rightarrow> rat \<times> (nat \<times> rat) list" where
  "queue_of s = (clock s, refused s)"

text \<open>The code's rounds are the specification's.\<close>

lemma queue_refines:
  assumes "round_ok s e"
  shows "queue_of (round_step s e) = queue_spec (queue_of s) (event_in_queue (allowed_peer_uid s) e)"
    and "allowed_peer_uid (round_step s e) = allowed_peer_uid s"
proof -
  have "queue_of (round_step s e) = queue_spec (queue_of s) (event_in_queue (allowed_peer_uid s) e)
      \<and> allowed_peer_uid (round_step s e) = allowed_peer_uid s"
  proof (cases e)
    case (Connect x p)
    with assms have ok: "only_os_faults p" "\<forall>e. peer_uid p = Inl e \<longrightarrow> is_OSError e"
      by (auto simp: round_ok_def split: sum.splits)
    show ?thesis
    proof (cases "\<exists>a. allowed_peer_uid s = Some a \<and> peer_uid p \<noteq> Inr a")
      case True
      then obtain a where a: "allowed_peer_uid s = Some a" "peer_uid p \<noteq> Inr a" by blast
      then obtain l where l: "handle_request_noblock x p s = (Inr (), snd (refuse p ((get_request p s)\<lparr>errlog := l\<rparr>)))"
        using noblock_refused ok by blast
      show ?thesis
        using a l Connect
        by (simp add: round_step_def queue_of_def refuse_eq [OF ok(1)] trim_refused_eq Let_def hold_def live_def)
    next
      case False
      then have "verify_request p (get_request p s) = (Inr True, get_request p s)"
        by (cases "allowed_peer_uid s") (auto intro: server_gate.open_gate server_gate.admits_owner)
      moreover have "event_in_queue (allowed_peer_uid s) (Connect x p) = Serves (took x)"
        using False by (auto split: option.split)
      ultimately show ?thesis
        using Connect by (simp add: round_step_def handle_request_noblock_def process_request_def finish_request_def
            shutdown_request_def close_sock_def emit_def queue_of_def live_def Let_def)
    qed
  next
    case Expire
    then show ?thesis
      by (simp add: round_step_def handle_timeout_def queue_of_def reap_eq live_def)
  qed (simp add: round_step_def queue_of_def)
  then show "queue_of (round_step s e) = queue_spec (queue_of s) (event_in_queue (allowed_peer_uid s) e)"
    and "allowed_peer_uid (round_step s e) = allowed_peer_uid s" by blast+
qed

lemma queue_refines_run:
  "admissible round_step round_ok s es \<Longrightarrow>
   queue_of (run_with round_step s es) = foldl queue_spec (queue_of s) (map (event_in_queue (allowed_peer_uid s)) es)"
  by (induction es arbitrary: s) (simp_all add: queue_refines)

text \<open>An entry with room behind it stays until its deadline.\<close>

definition room :: "nat \<times> rat \<Rightarrow> nat \<Rightarrow> (nat \<times> rat) list \<Rightarrow> bool" where
  "room e n q \<longleftrightarrow> (\<exists>pre post. q = pre @ e # post \<and> length post + n < REFUSE_MAX)"

lemma room_live: "room e n q \<Longrightarrow> now < snd e \<Longrightarrow> room e n (live now q)"
proof -
  assume "room e n q" and now: "now < snd e"
  then obtain pre post where q: "q = pre @ e # post" "length post + n < REFUSE_MAX" by (auto simp: room_def)
  then have "live now q = live now pre @ e # live now post" using now by (simp add: live_def)
  moreover have "length (live now post) \<le> length post" by (simp add: live_def)
  then have "length (live now post) + n < REFUSE_MAX" using q(2) by linarith
  ultimately show ?thesis unfolding room_def by blast
qed

lemma room_hold: "room e (Suc n) q \<Longrightarrow> room e n (hold REFUSE_MAX x q)"
proof -
  assume "room e (Suc n) q"
  then obtain pre post where q: "q = pre @ e # post" "length post + Suc n < REFUSE_MAX" by (auto simp: room_def)
  then have "Suc (length q) - REFUSE_MAX \<le> length pre" by simp
  then have "hold REFUSE_MAX x q = drop (Suc (length q) - REFUSE_MAX) pre @ e # (post @ [x])"
    by (simp add: hold_def q(1))
  then show ?thesis using q(2) unfolding room_def by fastforce
qed

definition refusals :: "queue_event list \<Rightarrow> nat" where
  "refusals es = length (filter (\<lambda>e. \<exists>c. e = Refuses c) es)"

fun forward :: "queue_event \<Rightarrow> bool" where
  "forward (Serves t) = (0 \<le> t)"
| "forward (Elapses t) = (0 \<le> t)"
| "forward _ = True"

lemma spec_clock: "list_all forward es \<Longrightarrow> fst st \<le> fst (foldl queue_spec st es)"
proof (induction es arbitrary: st)
  case (Cons e es)
  obtain now q where st: "st = (now, q)" by (cases st)
  have "now \<le> fst (queue_spec (now, q) e)" using Cons.prems by (cases e) simp_all
  also have "\<dots> \<le> fst (foldl queue_spec (queue_spec (now, q) e) es)" using Cons by simp
  finally show ?case by (simp add: st)
qed simp

lemma room_run:
  "room e (refusals es) (snd st) \<Longrightarrow> list_all forward es \<Longrightarrow> fst (foldl queue_spec st es) < snd e \<Longrightarrow>
   room e 0 (snd (foldl queue_spec st es))"
proof (induction es arbitrary: st)
  case (Cons x es)
  obtain now q where st: "st = (now, q)" by (cases st)
  let ?st = "queue_spec (now, q) x"
  have "now \<le> fst ?st" using Cons.prems(2) by (cases x) simp_all
  also have "\<dots> \<le> fst (foldl queue_spec ?st es)" using Cons.prems(2) by (intro spec_clock) simp
  finally have now: "now < snd e" using Cons.prems(3) by (simp add: st)
  have r: "room e (refusals (x # es)) (live now q)" using room_live [OF _ now] Cons.prems(1) by (simp add: st)
  then have "room e (refusals es) (snd ?st)"
    using Cons.prems(1) by (cases x) (auto simp: refusals_def st intro: room_hold)
  then show ?case using Cons.IH [of ?st] Cons.prems(2,3) by (simp add: st)
qed (simp add: refusals_def)

text \<open>
  C23. A refused client gets its second: a connection that has just been refused is held open, with the 403
  on it, until its deadline a second later, whatever connections, expired waits and pauses follow, as
  long as fewer than 16 others are refused in that time. A request in between may take the clock past the deadline.
\<close>

theorem linger_guaranteed:
  assumes "queue_inv [] s" and "round_ok s (Connect x p)" and "allowed_peer_uid s = Some a" and "peer_uid p \<noteq> Inr a"
    and "admissible round_step round_ok (round_step s (Connect x p)) es"
    and "length (filter (\<lambda>e. case e of Connect y q \<Rightarrow> peer_uid q \<noteq> Inr a | _ \<Rightarrow> False) es) < 16"
    and "clock (run_with round_step (round_step s (Connect x p)) es) < clock s + 1"
  shows "(sock p, clock s + 1) \<in> set (refused (run_with round_step (round_step s (Connect x p)) es))"
proof -
  let ?e = "(sock p, clock s + REFUSE_LINGER)" and ?s = "round_step s (Connect x p)"
  let ?qs = "map (event_in_queue (Some a)) es"
  have new: "event_in_queue (Some a) (Connect x p) = Refuses (sock p)" using assms(4) by simp
  then have q: "queue_of ?s = (clock s, hold REFUSE_MAX ?e (live (clock s) (refused s)))"
    using queue_refines(1) [OF assms(2)] assms(3) by (simp add: queue_of_def)
  have count: "refusals ?qs = length (filter (\<lambda>e. case e of Connect y q \<Rightarrow> peer_uid q \<noteq> Inr a | _ \<Rightarrow> False) es)"
  proof (induction es)
    case (Cons e es)
    then show ?case by (cases e) (auto simp: refusals_def)
  qed (simp add: refusals_def)
  have fwd: "list_all forward ?qs" if "admissible round_step round_ok s es" for s
    using that
  proof (induction es arbitrary: s)
    case (Cons e es)
    then have "round_ok s e" "list_all forward (map (event_in_queue (Some a)) es)" by auto
    then show ?case by (cases e) (auto simp: round_ok_def)
  qed simp
  have allowed: "allowed_peer_uid ?s = Some a" using queue_refines(2) [OF assms(2)] assms(3) by simp
  have "room ?e (refusals ?qs) (snd (queue_of ?s))"
  proof -
    let ?l = "live (clock s) (refused s)"
    have "Suc (length ?l) - REFUSE_MAX \<le> length ?l" by (simp add: REFUSE_MAX_def)
    then have "snd (queue_of ?s) = drop (Suc (length ?l) - REFUSE_MAX) ?l @ ?e # []" by (simp add: q hold_def)
    moreover have "length [] + refusals ?qs < REFUSE_MAX" using assms(6) by (simp add: count REFUSE_MAX_def)
    ultimately show ?thesis unfolding room_def by blast
  qed
  moreover have run: "queue_of (run_with round_step ?s es) = foldl queue_spec (queue_of ?s) ?qs"
    using queue_refines_run [OF assms(5)] allowed by simp
  moreover have "fst (foldl queue_spec (queue_of ?s) ?qs) < snd ?e"
    using assms(7) by (simp flip: run) (simp add: queue_of_def REFUSE_LINGER_def)
  ultimately have "room ?e 0 (refused (run_with round_step ?s es))"
    using room_run [OF _ fwd [OF assms(5)]] by (metis queue_of_def snd_conv)
  then show ?thesis by (auto simp: room_def REFUSE_LINGER_def)
qed

lemma linger_guaranteed_witness:
  "(7, 1) \<in> set (refused (run_with round_step (round_step sample_server (Connect sample_exchange (sample_peer 7 33)))
     [Tick (1 / 2), Expire]))"
proof -
  let ?c = "Connect sample_exchange (sample_peer 7 33)" and ?es = "[Tick (1 / 2), Expire]"
  have inv: "queue_inv [] sample_server" by (simp add: queue_inv_def sample_server_def)
  have uid: "peer_uid (sample_peer 7 33) \<noteq> Inr 1000" by (simp add: sample_uid)
  have a: "allowed_peer_uid sample_server = Some 1000" by (simp add: sample_server_def)
  have ok: "round_ok sample_server ?c"
    by (simp add: round_ok_def sample_uid only_os_faults_def) (simp add: sample_server_def sample_exchange_def sample_peer_def)
  have es: "admissible round_step round_ok (round_step sample_server ?c) ?es" by (simp add: round_ok_def)
  have "queue_of (run_with round_step (round_step sample_server ?c) ?es)
      = foldl queue_spec (queue_spec (queue_of sample_server) (Refuses 7)) [Elapses (1 / 2), Purges]"
    using queue_refines_run [OF es] queue_refines [OF ok] a uid by (simp add: sample_peer_def)
  then have "clock (run_with round_step (round_step sample_server ?c) ?es) = 1 / 2"
    by (simp add: queue_of_def sample_server_def)
  then have late: "clock (run_with round_step (round_step sample_server ?c) ?es) < clock sample_server + 1"
    by (simp add: sample_server_def)
  show ?thesis
    using linger_guaranteed [OF inv ok a uid es _ late] by (simp add: sample_peer_def sample_server_def)
qed

section \<open>Waiting\<close>

text \<open>
  C33. How long the loop waits: with nothing refused, the idle timeout; otherwise never
  longer than the idle timeout, never a negative time, never more than one second, and never
  past the deadline of any held connection, so a deferred close is not late for want of
  another client.
\<close>

theorem serve_timeout_bounds:
  assumes "queue_inv held s" and "\<forall>i. idle_timeout s = Some i \<longrightarrow> 0 < i"
  shows "case serve_timeout s of
      None \<Rightarrow> refused s = [] \<and> idle_timeout s = None
    | Some t \<Rightarrow> 0 \<le> t \<and> (\<forall>i. idle_timeout s = Some i \<longrightarrow> t \<le> i)
        \<and> (refused s = [] \<longrightarrow> idle_timeout s = Some t)
        \<and> (refused s \<noteq> [] \<longrightarrow> t \<le> 1)
        \<and> (\<forall>e \<in> set (refused s). clock s + t \<le> max (clock s) (snd e))"
proof (cases "refused s")
  case Nil
  with assms(2) show ?thesis
    by (cases "idle_timeout s") (auto simp: serve_timeout_def intro: less_imp_le)
next
  case (Cons e es)
  let ?linger = "max 0 (snd e - clock s)"
  have first: "\<forall>f \<in> set (refused s). snd e \<le> snd f"
    using assms(1) Cons by (auto simp: queue_inv_iff)
  then have dead: "\<forall>f \<in> set (refused s). clock s + ?linger \<le> max (clock s) (snd f)" by force
  have "snd e \<le> clock s + 1"
    using assms(1) Cons by (simp add: queue_inv_iff REFUSE_LINGER_def)
  then have one: "?linger \<le> 1" by simp
  show ?thesis
  proof (cases "idle_timeout s")
    case None
    with Cons dead one show ?thesis by (simp add: serve_timeout_def)
  next
    case (Some i)
    then have "0 < i" using assms(2) by blast
    moreover have "\<forall>f \<in> set (refused s). clock s + min i ?linger \<le> max (clock s) (snd f)"
      using dead by (fastforce simp: min_def)
    ultimately show ?thesis using Cons Some one by (simp add: serve_timeout_def)
  qed
qed

lemma serve_timeout_bounds_witness:
  "case serve_timeout (sample_server\<lparr>refused := [(7, 1 / 2)], trace := [Accepted 7]\<rparr>) of
     None \<Rightarrow> False | Some t \<Rightarrow> 0 \<le> t \<and> t \<le> 1"
proof -
  let ?s = "sample_server\<lparr>refused := [(7, 1 / 2)], trace := [Accepted 7]\<rparr>"
  have "queue_inv [] ?s"
    by (simp add: queue_inv_def sample_server_def REFUSE_MAX_def REFUSE_LINGER_def)
  from serve_timeout_bounds [OF this] show ?thesis
    by (auto simp: sample_server_def split: option.splits)
qed



end
