(* ===== verification/Errors.thy ===== *)
theory Errors
  imports Answers
begin

text \<open>
  The error pages of \<open>http.server\<close>, for any handler class and any version of the request: what
  \<open>send_error\<close> puts on the wire, and that a client reads it back. A request without a version
  (HTTP/0.9) is answered with the page alone, a HEAD with the header block alone.
\<close>

section \<open>Text the header block can carry\<close>

definition latin1 :: "ustr \<Rightarrow> bool" where
  "latin1 s \<longleftrightarrow> list_all (\<lambda>c. c < 256) s"

lemma latin1_simps [simp]:
  "latin1 []" "latin1 (c # s) \<longleftrightarrow> c < 256 \<and> latin1 s" "latin1 (a @ b) \<longleftrightarrow> latin1 a \<and> latin1 b"
  by (simp_all add: latin1_def)

lemma latin1_us [simp]: "latin1 (us s)"
  using of_char_bounds by (induction s) (auto simp: us_Cons)

lemma latin1_printable: "printable s \<Longrightarrow> latin1 s"
  by (induction s) auto

lemma latin1_status_line: "latin1 m \<Longrightarrow> latin1_encode (status_line code m) = Inr (to_bytes (status_line code m))"
  using latin1_printable [OF printable_str_int]
  by (simp add: latin1_encode_def status_line_def crlf_def flip: latin1_def)

section \<open>The page and its headers\<close>

definition error_body :: "nat \<Rightarrow> ustr \<Rightarrow> ustr \<Rightarrow> bytes" where
  "error_body code m x = encode_replace (error_page code m x)"

definition error_headers :: "interp \<Rightarrow> hcls \<Rightarrow> nat \<Rightarrow> ustr \<Rightarrow> ustr \<Rightarrow> headers" where
  "error_headers py cls code m x =
     [(us ''Server'', server_version cls @ 32 # sys_version py), (us ''Date'', http_date py),
      (us ''Connection'', us ''close''), (us ''Content-Type'', us ''text/html;charset=utf-8''),
      (us ''Content-Length'', str_int (int (length (error_body code m x))))]"

lemma error_header_ok:
  "texts_ok py \<Longrightarrow> printable (server_version cls) \<Longrightarrow>
     header_ok (us ''Server'', server_version cls @ 32 # sys_version py)"
  "header_ok (us ''Content-Type'', us ''text/html;charset=utf-8'')"
  "header_ok (us ''Content-Type'', us ''text/plain'')"
  "header_ok (us ''Connection'', us ''close'')"
  by (simp_all add: header_ok_def texts_ok_def lit_simps)

lemma connection_close:
  "send_header (us ''Connection'') (us ''close'') c
     = (Inr (), c\<lparr>hbuf := hbuf c @ (if http09 c then [] else to_bytes (header_line (us ''Connection'') (us ''close''))),
                  close_connection := True\<rparr>)"
  by (simp add: send_header_def seq_p_def bind_p_def buffer_line_eq header_line_def note_connection_def
      modify_p_def ascii_lower_def lit_simps)

lemma send_response_any:
  assumes "texts_ok py" and "printable (server_version cls)" and "ready c"
    and "latin1 (case m of Some m \<Rightarrow> m | None \<Rightarrow> us (reason code))"
  shows "send_response py cls code m c =
    (Inr (), c\<lparr>logs := logs c @ message_lines cls (address_string c) (request_log code c),
               hbuf := if http09 c then [] else
                 to_bytes (status_line code (case m of Some m \<Rightarrow> m | None \<Rightarrow> us (reason code)))
                 @ to_bytes (header_line (us ''Server'') (server_version cls @ 32 # sys_version py))
                 @ to_bytes (header_line (us ''Date'') (http_date py))\<rparr>)"
proof -
  have c: "hbuf c = []" using assms(3) by (simp add: ready_def)
  have only: "send_response_only code m c = (Inr (), c\<lparr>hbuf := if http09 c then [] else
      to_bytes (status_line code (case m of Some m \<Rightarrow> m | None \<Rightarrow> us (reason code)))\<rparr>)" if "hbuf c = []" for c
    using that by (simp add: send_response_only_def buffer_line_eq [OF latin1_status_line [OF assms(4)]])
  show ?thesis
    unfolding send_response_def
    by (simp add: seq_p_def bind_p_def log_message_p_eq c only send_any server_header_names
        error_header_ok(1) [OF assms(1,2)] server_header_ok(2) [OF assms(1)])
qed

text \<open>What \<open>send_error\<close> logs first, what it sends, and how it leaves the connection.\<close>

definition error_noted :: "hcls \<Rightarrow> nat \<Rightarrow> ustr \<Rightarrow> 'a conn_scheme \<Rightarrow> 'a conn_scheme" where
  "error_noted cls code m c =
     c\<lparr>logs := logs c @ error_lines cls (address_string c) (us ''code '' @ str_int (int code) @ us '', message '' @ m)\<rparr>"

definition page_bytes :: "interp \<Rightarrow> hcls \<Rightarrow> bool \<Rightarrow> bool \<Rightarrow> nat \<Rightarrow> ustr \<Rightarrow> ustr \<Rightarrow> bytes" where
  "page_bytes py cls bare is_head code m x =
     (if bare then [] else to_bytes (head_text code m (error_headers py cls code m x)))
     @ (if is_head then [] else error_body code m x)"

definition error_answered ::
  "interp \<Rightarrow> hcls \<Rightarrow> bool \<Rightarrow> nat \<Rightarrow> ustr \<Rightarrow> ustr \<Rightarrow> 'a conn_scheme \<Rightarrow> 'a conn_scheme" where
  "error_answered py cls is_head code m x c =
     (error_noted cls code m c)\<lparr>
       logs := logs (error_noted cls code m c) @ message_lines cls (address_string c) (request_log code c),
       hbuf := [], sent := sent c @ page_bytes py cls (http09 c) is_head code m x, close_connection := True\<rparr>"

lemma noted_eq [simp]:
  "connected (error_noted cls code m c) = connected c" "ready (error_noted cls code m c) = ready c"
  "http09 (error_noted cls code m c) = http09 c"
  "sent (error_noted cls code m c) = sent c" "address_string (error_noted cls code m c) = address_string c"
  "request_log k (error_noted cls code m c) = request_log k c"
  by (simp_all add: error_noted_def request_log_def)

lemma send_error_begin:
  "send_error_page py cls is_head code m x c =
     seq_p (send_response py cls code (Some m))
    (seq_p (send_header (us ''Connection'') (us ''close''))
    (seq_p (send_header (us ''Content-Type'') (us ''text/html;charset=utf-8''))
    (seq_p (send_header (us ''Content-Length'') (str_int (int (length (error_body code m x)))))
    (seq_p end_headers (if is_head then return_p () else wfile_write (error_body code m x))))))
      (error_noted cls code m c)"
  unfolding send_error_page_def error_body_def Let_def
  by (subst seq_p_Inr [OF log_error_p_eq]) (simp only: error_noted_def)

lemma send_error_ok:
  assumes "texts_ok py" and "printable (server_version cls)" and "ready c" and "latin1 m"
  shows "send_error_page py cls is_head code m x c = (Inr (), error_answered py cls is_head code m x c)"
proof -
  have c: "ready (error_noted cls code m c)" using assms(3) by simp
  have w: "wfaults (error_noted cls code m c) = []" using c by (simp add: ready_def)
  have m: "latin1 (case Some m of Some m \<Rightarrow> m | None \<Rightarrow> us (reason code))" using assms(4) by simp
  note ops = seq_p_def bind_p_def send_response_any [OF assms(1,2) c m] connection_close send_any
    server_header_names error_header_ok(2) server_header_ok(4) w return_p_def wfile_write_ok
    error_headers_def head_text_def error_answered_def page_bytes_def
  show ?thesis
  proof (cases "http09 c")
    case True
    then show ?thesis unfolding send_error_begin by (cases is_head) (simp_all add: ops end_headers_09)
  next
    case False
    then show ?thesis unfolding send_error_begin by (cases is_head) (simp_all add: ops end_headers_ok)
  qed
qed

text \<open>A message outside ISO-8859-1 fails before a byte of the answer is buffered.\<close>

lemma send_error_unencodable:
  fixes c :: "'a conn_scheme"
  assumes "\<not> http09 c" and "\<not> latin1 m"
  shows "\<exists>l e. send_error_page py cls is_head code m x c = (Inl e, c\<lparr>logs := l\<rparr>) \<and> latin1_encode m = Inl e"
proof -
  have "latin1_encode (status_line code m) = latin1_encode m"
    using assms(2) by (simp add: latin1_encode_def status_line_def flip: latin1_def)
  moreover obtain e where e: "latin1_encode m = Inl e"
    using assms(2) by (simp add: latin1_encode_def flip: latin1_def)
  moreover have "\<not> http09 (error_noted cls code m c)" using assms(1) by simp
  ultimately show ?thesis
    unfolding send_error_begin
    by (simp add: seq_p_def bind_p_def send_response_def log_message_p_eq send_response_only_def
        buffer_line_error error_noted_def) blast
qed

end
