(* ===== verification/Parse_Spec.thy ===== *)
theory Parse_Spec
  imports Parse
begin

text \<open>
  What the request reader does with what a client writes: a request in the usual form is read
  back as it was meant, up to the first byte of its body, which stays on the connection.
\<close>

section \<open>What a client writes\<close>

definition token :: "ustr \<Rightarrow> bool" where
  "token s \<longleftrightarrow> s \<noteq> [] \<and> list_all (\<lambda>c. 33 \<le> c \<and> c \<le> 126) s"

definition field_ok :: "ustr \<times> ustr \<Rightarrow> bool" where
  "field_ok h \<longleftrightarrow> fst h \<noteq> [] \<and> list_all field_char (fst h) \<and> printable (snd h) \<and> value_ok h
     \<and> length (header_line (fst h) (snd h)) \<le> MAXLINE"

definition request_text :: "request \<Rightarrow> ustr \<Rightarrow> ustr" where
  "request_text req v = command req @ [32] @ path req @ [32] @ v"

definition header_text :: "headers \<Rightarrow> ustr" where
  "header_text hs = concat (map (\<lambda>(n, v). header_line n v) hs) @ crlf"

definition request_bytes :: "request \<Rightarrow> ustr \<Rightarrow> bytes" where
  "request_bytes req v = to_bytes (request_text req v @ crlf @ header_text (headers req))"

definition request_ok :: "interp \<Rightarrow> request \<Rightarrow> ustr \<Rightarrow> bool" where
  "request_ok py req v \<longleftrightarrow>
     token (command req) \<and> token (path req) \<and> \<not> py_startswith [47, 47] (path req)
     \<and> (case http_version v of Some (major, _) \<Rightarrow> major < 2 | None \<Rightarrow> False)
     \<and> length (request_text req v @ crlf) \<le> MAXLINE
     \<and> list_all field_ok (headers req) \<and> length (headers req) < MAXHEADERS
     \<and> email_fault py (header_text (headers req)) = None"

lemma token_printable: "token s \<Longrightarrow> printable s"
  by (auto simp: token_def printable_def list_all_iff)

lemma token_not_space: "token s \<Longrightarrow> c \<in> set s \<Longrightarrow> \<not> is_space c"
  by (auto simp: token_def is_space_def list_all_iff)

section \<open>Lines\<close>

lemma first_line_append: "CHR 10 \<notin> set l \<Longrightarrow> first_line (l @ CHR 10 # r) = l @ [CHR 10]"
  by (induction l) (auto simp: first_line_def)

lemma readline_line:
  assumes "rfile c = l @ CHR 10 # r" and "CHR 10 \<notin> set l" and "length l < limit"
  shows "rfile_readline limit c = (Inr (l @ [CHR 10]), c\<lparr>rfile := r\<rparr>)"
proof -
  obtain k where k: "limit = Suc (length l + k)" using assms(3) less_imp_Suc_add by blast
  have b: "take limit (rfile c) = l @ CHR 10 # take k r" by (simp add: assms(1) k)
  show ?thesis
    by (simp add: rfile_readline_def Let_def b first_line_append [OF assms(2)]) (simp add: assms(1))
qed

lemma newline_char: "char_of (10::int) = CHR 10" "char_of (13::int) = CHR 13"
proof -
  have "(of_char (char_of (10::int) :: char) :: int) = of_char (CHR 10)"
    "(of_char (char_of (13::int) :: char) :: int) = of_char (CHR 13)"
    by (simp_all add: of_char_char_of)
  then show "char_of (10::int) = CHR 10" "char_of (13::int) = CHR 13" by (simp_all only: of_char_eq_iff)
qed

lemma printable_no_LF: "printable s \<Longrightarrow> CHR 10 \<notin> set (to_bytes s)"
proof
  assume p: "printable s" and "CHR 10 \<in> set (to_bytes s)"
  then obtain c where c: "c \<in> set s" "char_of c = CHR 10" by (auto simp: to_bytes_def)
  then have "32 \<le> c" "c \<le> 126" using p by (auto simp: printable_def list_all_iff)
  then have "(of_char (char_of c :: char) :: int) = c" by (intro of_char_char_of) simp_all
  then show False using c(2) \<open>32 \<le> c\<close> by simp
qed

lemma to_bytes_crlf: "to_bytes crlf = [CHR 13, CHR 10]"
  by (simp add: crlf_def to_bytes_def newline_char)

lemma readline_crlf:
  assumes "rfile c = to_bytes (s @ crlf) @ r" and "printable s" and "length (s @ crlf) \<le> limit"
  shows "rfile_readline limit c = (Inr (to_bytes (s @ crlf)), c\<lparr>rfile := r\<rparr>)"
proof -
  have "CHR 10 \<notin> set (to_bytes s @ [CHR 13])" using printable_no_LF [OF assms(2)] by simp
  moreover have "rfile c = (to_bytes s @ [CHR 13]) @ CHR 10 # r" using assms(1) by (simp add: to_bytes_crlf)
  moreover have "length (to_bytes s @ [CHR 13]) < limit" using assms(3) by (simp add: crlf_def)
  ultimately show ?thesis using readline_line by (fastforce simp: to_bytes_crlf)
qed

section \<open>The header block\<close>

lemma field_chars_printable: "list_all field_char s \<Longrightarrow> printable s"
  by (auto simp: printable_def list_all_iff field_char_def)

lemma header_line_crlf: "header_line n v = (n @ us '': '' @ v) @ crlf"
  by (simp add: header_line_def)

lemma field_printable: "field_ok (n, v) \<Longrightarrow> printable (n @ us '': '' @ v)"
  by (simp add: field_ok_def field_chars_printable lit_simps)

lemma read_block_header_text:
  assumes "list_all field_ok hs" and "length hs < n" and "rfile c = to_bytes (header_text hs) @ r"
  shows "read_block n c = (Inr (Block (to_bytes (header_text hs))), c\<lparr>rfile := r\<rparr>)"
  using assms
proof (induction hs arbitrary: n c)
  case Nil
  then obtain m where m: "n = Suc m" by (cases n) auto
  have "rfile_readline (Suc MAXLINE) c = (Inr (to_bytes ([] @ crlf)), c\<lparr>rfile := r\<rparr>)"
    using Nil(3) by (intro readline_crlf) (simp_all add: header_text_def MAXLINE_def crlf_def)
  then show ?case by (simp add: m step_p to_bytes_crlf header_text_def return_p_def MAXLINE_def)
next
  case (Cons h hs)
  obtain k v where h: "h = (k, v)" by (cases h)
  obtain m where m: "n = Suc m" "length hs < m" using Cons.prems(2) by (cases n) auto
  have ok: "field_ok (k, v)" "list_all field_ok hs" using Cons.prems(1) h by simp_all
  let ?l = "k @ us '': '' @ v"
  let ?r = "to_bytes (header_text hs) @ r"
  have len: "length (?l @ crlf) \<le> MAXLINE" using ok(1) by (simp add: field_ok_def header_line_crlf)
  have "rfile_readline (Suc MAXLINE) c = (Inr (to_bytes (?l @ crlf)), c\<lparr>rfile := ?r\<rparr>)"
    using Cons.prems(3) len
    by (intro readline_crlf field_printable [OF ok(1)]) (simp_all add: header_text_def header_line_def h)
  moreover have "read_block m (c\<lparr>rfile := ?r\<rparr>)
      = (Inr (Block (to_bytes (header_text hs))), c\<lparr>rfile := ?r\<rparr>\<lparr>rfile := r\<rparr>)"
    by (rule Cons.IH [OF ok(2) m(2)]) simp
  moreover have "to_bytes (?l @ crlf) \<notin> {[CHR 13, CHR 10], [CHR 10], []}"
    using ok(1) by (auto simp: to_bytes_crlf field_ok_def Cons_eq_append_conv append_eq_Cons_conv)
  ultimately show ?case
    using len
    by (simp add: m(1) step_p return_p_def not_less [symmetric] header_text_def header_line_def h)
qed

lemma text_lines_line:
  assumes "printable l" and "s = [] \<or> hd s \<noteq> 10"
  shows "text_lines (l @ crlf @ s) = (l @ crlf) # text_lines s"
  using assms(1)
proof (induction l)
  case Nil
  show ?case by (simp add: crlf_def)
next
  case (Cons c l)
  obtain d t where dt: "l @ crlf @ s = d # t" by (cases l) (auto simp: crlf_def)
  from Cons have "text_lines (d # t) = (l @ crlf) # text_lines s" by (simp add: dt [symmetric])
  moreover have "c \<noteq> 10" "c \<noteq> 13" using Cons.prems by auto
  ultimately show ?case by (simp add: dt)
qed

lemma header_text_hd: "list_all field_ok hs \<Longrightarrow> hd (header_text hs) \<noteq> 10"
proof (cases hs)
  case (Cons h t)
  assume ok: "list_all field_ok hs"
  obtain n v where h: "h = (n, v)" by (cases h)
  then obtain c m where n: "n = c # m" "field_char c"
    using ok Cons by (cases n) (auto simp: field_ok_def)
  then show ?thesis by (simp add: Cons h header_text_def header_line_def) (auto simp: field_char_def)
qed (simp add: header_text_def crlf_def)

lemma text_lines_header_text:
  "list_all field_ok hs \<Longrightarrow> text_lines (header_text hs) = map (\<lambda>(n, v). header_line n v) hs @ [crlf]"
proof (induction hs)
  case Nil
  show ?case by (simp add: header_text_def crlf_def)
next
  case (Cons h hs)
  obtain k v where h: "h = (k, v)" by (cases h)
  have "text_lines ((k @ us '': '' @ v) @ crlf @ header_text hs) = ((k @ us '': '' @ v) @ crlf) # text_lines (header_text hs)"
    using Cons.prems h header_text_hd [of hs] by (intro text_lines_line field_printable) simp_all
  with Cons h show ?case by (simp add: header_text_def header_line_def)
qed

lemma dropWhile_fields: "list_all field_char n \<Longrightarrow> dropWhile field_char (n @ 58 # s) = 58 # s"
  by (induction n) (auto simp: field_char_def)

lemma field_line:
  assumes "field_ok (n, v)"
  shows "header_match (header_line n v)" and "\<not> blank (hd (header_line n v))" and "hd (header_line n v) \<noteq> 58"
    and "\<not> py_startswith (us ''From '') (header_line n v)" and "field_of (header_line n v) = (n, v @ crlf)"
proof -
  have n: "n \<noteq> []" "list_all field_char n" and v: "v = [] \<or> hd v \<noteq> 32" "printable v"
    using assms by (auto simp: field_ok_def value_ok_def)
  have eq: "header_line n v = n @ 58 # 32 # v @ crlf" by (simp add: header_line_def lit_simps)
  have notin: "58 \<notin> set n" "32 \<notin> set n" using n(2) by (auto simp: list_all_iff field_char_def)
  show "header_match (header_line n v)"
    using dropWhile_fields [OF n(2)] by (simp add: header_match_def eq py_startswith_def)
  show "\<not> blank (hd (header_line n v))" "hd (header_line n v) \<noteq> 58"
    using n by (auto simp: eq neq_Nil_conv blank_def field_char_def)
  show "\<not> py_startswith (us ''From '') (header_line n v)"
  proof
    assume "py_startswith (us ''From '') (header_line n v)"
    then obtain r where r: "n @ 58 # 32 # v @ crlf = us ''From'' @ 32 # r"
      by (auto simp: py_startswith_iff eq lit_simps)
    have "before 58 (n @ 58 # 32 # v @ crlf) = n" by (rule before_append [OF notin(1)])
    then have "n = before 58 (us ''From'' @ 32 # r)" unfolding r by simp
    then have "32 \<in> set n" by (simp add: before_def lit_simps)
    then show False using notin(2) by simp
  qed
  have "dropWhile blank (32 # v @ crlf) = v @ crlf"
  proof (cases v)
    case (Cons c t)
    then have "\<not> blank c" using v by (auto simp: blank_def)
    then show ?thesis by (simp add: Cons blank_def)
  qed (simp add: crlf_def blank_def)
  then show "field_of (header_line n v) = (n, v @ crlf)"
    by (simp add: field_of_def eq before_append [OF notin(1)] after_append [OF notin(1)])
qed

lemma rstrip_crlf: "printable v \<Longrightarrow> rstrip_by line_end (v @ crlf) = v"
proof -
  assume "printable v"
  then have "v = [] \<or> \<not> line_end (last v)" by (cases v rule: rev_cases) (auto simp: line_end_def)
  then have "rstrip_by line_end v = v" by (rule rstrip_by_id)
  then show ?thesis by (simp add: rstrip_by_def crlf_def line_end_def)
qed

lemma parse_fields_lines:
  "list_all field_ok hs \<Longrightarrow>
   parse_fields cur (map (\<lambda>(n, v). header_line n v) hs) = flush cur @ hs"
proof (induction hs arbitrary: cur)
  case (Cons h hs)
  obtain n v where h: "h = (n, v)" by (cases h)
  then have ok: "field_ok (n, v)" "list_all field_ok hs" using Cons.prems by simp_all
  have "flush (Some (n, v @ crlf)) = [(n, v)]"
    using ok(1) rstrip_crlf by (simp add: flush_def field_ok_def)
  with Cons.IH [OF ok(2)] show ?case by (simp add: h field_line [OF ok(1)])
qed simp

lemma email_headers_text:
  assumes "list_all field_ok hs"
  shows "email_headers (header_text hs) = hs"
proof -
  let ?lines = "map (\<lambda>(n, v). header_line n v) hs"
  have "\<And>l. l \<in> set ?lines \<Longrightarrow> header_match l"
    using assms field_line(1) by (auto simp: list_all_iff)
  moreover have "\<not> header_match crlf"
    by (simp add: header_match_def crlf_def py_startswith_def field_char_def blank_def lit_simps)
  ultimately have "takeWhile header_match (text_lines (header_text hs)) = ?lines"
    unfolding text_lines_header_text [OF assms] by (subst takeWhile_append2) auto
  with parse_fields_lines [OF assms, of None] show ?thesis by (simp add: email_headers_def flush_def)
qed

section \<open>The request line\<close>

lemma py_words_Nil [simp]: "py_words [] = []"
  by (subst py_words.simps) simp

lemma takeWhile_token: "token s \<Longrightarrow> r = [] \<or> is_space (hd r) \<Longrightarrow> takeWhile (\<lambda>c. \<not> is_space c) (s @ r) = s"
  and dropWhile_token: "token s \<Longrightarrow> r = [] \<or> is_space (hd r) \<Longrightarrow> dropWhile (\<lambda>c. \<not> is_space c) (s @ r) = r"
  using token_not_space [of s] by (cases r; simp add: takeWhile_append dropWhile_append)+

lemma py_words_token:
  assumes "token s" and "r = [] \<or> is_space (hd r)"
  shows "py_words (s @ r) = s # py_words r"
proof -
  obtain c t where s: "s = c # t" using assms(1) by (cases s) (auto simp: token_def)
  then have "\<not> is_space c" using token_not_space [OF assms(1), of c] by simp
  then have dw: "dropWhile is_space (s @ r) = s @ r" and ne: "s @ r \<noteq> []" by (simp_all add: s)
  show ?thesis
    unfolding py_words.simps [of "s @ r"] Let_def dw takeWhile_token [OF assms] dropWhile_token [OF assms]
    using ne by (simp only: if_False)
qed

lemma py_words_space: "is_space c \<Longrightarrow> py_words (c # s) = py_words s"
  by (subst (1 2) py_words.simps) simp

lemma is_space_32 [simp]: "is_space 32"
  by (simp add: is_space_def)

lemma py_words_request:
  assumes "token a" and "token b" and "token c"
  shows "py_words (a @ [32] @ b @ [32] @ c) = [a, b, c]"
  using py_words_token [OF assms(1), of "32 # b @ 32 # c"] py_words_token [OF assms(2), of "32 # c"]
    py_words_token [OF assms(3), of "[]"]
  by (simp add: py_words_space)

lemma version_token:
  assumes "http_version v = Some k"
  shows "token v"
proof -
  obtain r where r: "v = us ''HTTP/'' @ r" using assms by (auto simp: http_version_def py_startswith_iff split: if_splits)
  from assms obtain a b where ab: "split_on 46 r = [a, b]" "version_digits a" "version_digits b"
    by (auto simp: http_version_def r split: list.splits if_splits)
  have "\<exists>x y. r = x @ 46 # y \<and> split_on 46 x = [a] \<and> split_on 46 y = [b]"
  proof -
    have "46 \<in> set r" using ab(1) split_on_single [of 46 r] by auto
    then obtain x y where xy: "r = x @ 46 # y" "46 \<notin> set x" by (meson split_list_first)
    then show ?thesis using ab(1) by (intro exI [of _ x] exI [of _ y]) (auto simp: split_on_append split_on_single)
  qed
  then obtain x y where xy: "r = x @ 46 # y" "split_on 46 x = [a]" "split_on 46 y = [b]" by blast
  have single: "split_on 46 z = [w] \<Longrightarrow> z = w" for z w
  proof -
    assume z: "split_on 46 z = [w]"
    show "z = w"
    proof (cases "46 \<in> set z")
      case True
      then obtain p q where "z = p @ 46 # q" "46 \<notin> set p" by (meson split_list_first)
      then have "split_on 46 q = []" using z by (simp add: split_on_append)
      then show ?thesis by simp
    qed (use z in \<open>simp add: split_on_single\<close>)
  qed
  have "list_all (\<lambda>c. 33 \<le> c \<and> c \<le> 126) x" "list_all (\<lambda>c. 33 \<le> c \<and> c \<le> 126) y"
    using ab(2,3) single [OF xy(2)] single [OF xy(3)]
    by (auto simp: version_digits_def list_all_iff is_digit_def)
  then show ?thesis by (simp add: r xy(1) token_def lit_simps)
qed

lemma rstrip_line: "printable s \<Longrightarrow> s \<noteq> [] \<Longrightarrow> rstrip_by line_end (us (to_bytes (s @ crlf))) = s"
proof -
  assume "printable s" "s \<noteq> []"
  moreover have "us (to_bytes (s @ crlf)) = s @ crlf"
    using printable_ascii [OF \<open>printable s\<close>] by (intro us_to_bytes_ascii) simp
  ultimately show ?thesis using rstrip_crlf by simp
qed

text \<open>The state in which the method runs: the request line noted, the body unread.\<close>

definition requested :: "request \<Rightarrow> ustr \<Rightarrow> bytes \<Rightarrow> 'a conn_scheme \<Rightarrow> 'a conn_scheme" where
  "requested req v body c = c\<lparr>request_version := v, close_connection := True,
     requestline := request_text req v, rfile := body\<rparr>"

lemma handle_raw_request:
  assumes ok: "request_ok py req v" and c: "rfile c = request_bytes req v @ body"
  shows "handle_raw py cls run c = timed cls (run req) (requested req v body c)"
proof -
  let ?line = "request_text req v"
  let ?rest = "to_bytes (header_text (headers req)) @ body"
  obtain major minor where v: "http_version v = Some (major, minor)" "major < 2"
    using ok by (auto simp: request_ok_def split: option.splits)
  have tok: "token (command req)" "token (path req)" "token v"
    using ok version_token [OF v(1)] by (simp_all add: request_ok_def)
  then have p: "printable ?line" by (simp add: request_text_def token_printable)
  have ne: "?line \<noteq> []" by (simp add: request_text_def)
  have len: "length (?line @ crlf) \<le> MAXLINE" using ok by (simp add: request_ok_def)
  have line: "rfile_readline (Suc MAXLINE) c = (Inr (to_bytes (?line @ crlf)), c\<lparr>rfile := ?rest\<rparr>)"
    using c len by (intro readline_crlf p) (simp_all add: request_bytes_def)
  have words: "py_words ?line = [command req, path req, v]"
    using py_words_request [OF tok] by (simp add: request_text_def)
  let ?c = "c\<lparr>rfile := ?rest, close_connection := True, requestline := ?line, request_version := v\<rparr>"
  have block: "read_block MAXHEADERS ?c = (Inr (Block (to_bytes (header_text (headers req)))), ?c\<lparr>rfile := body\<rparr>)"
    using ok by (intro read_block_header_text) (simp_all add: request_ok_def)
  have fields: "list_all field_ok (headers req)" using ok by (simp add: request_ok_def)
  have "printable (concat (map (\<lambda>(n, v). n @ us '': '' @ v) hs))" if "list_all field_ok hs" for hs
    using that by (induction hs) (auto intro!: field_printable)
  have "ascii (header_text hs)" if "list_all field_ok hs" for hs
    using that by (induction hs) (auto simp: header_text_def header_line_crlf printable_ascii dest!: field_printable)
  then have us: "us (to_bytes (header_text (headers req))) = header_text (headers req)"
    using fields by (intro us_to_bytes_ascii)
  have one: "one_slash (path req) = path req" using ok by (simp add: one_slash_def request_ok_def)
  have "parse_headers py cls (command req) (path req) ?c = (Inr (Some req), ?c\<lparr>rfile := body\<rparr>)"
    using ok by (simp add: parse_headers_def bind_p_def block us email_headers_text [OF fields] one return_p_def request_ok_def)
  then have parsed: "parse_request py cls (to_bytes (?line @ crlf)) (c\<lparr>rfile := ?rest\<rparr>)
      = (Inr (Some req), requested req v body c)"
    unfolding parse_request_def Let_def rstrip_line [OF p ne] words
    using v by (simp add: seq_p_def bind_p_def modify_p_def parse_words_def requested_def)
  define raw where "raw = to_bytes (?line @ crlf)"
  have "raw \<noteq> []" "length raw \<le> MAXLINE" using len ne by (simp_all add: raw_def to_bytes_def)
  then show ?thesis
    unfolding handle_raw_def read_request_def on_line_def timed_def
    by (simp add: catch_p_def bind_p_def line [folded raw_def] parsed [folded raw_def])
qed

end
