(* ===== verification/Bytes_Spec.thy ===== *)
theory Bytes_Spec
  imports Errors Parse_Spec Request_Spec
begin

text \<open>
  The handler from the bytes on the connection: what it can do with any input at all, and what
  it does with the requests of a well-behaved client, written out to the last byte.
\<close>

section \<open>What is read stays ISO-8859-1\<close>

lemma latin1_set: "latin1 s \<longleftrightarrow> (\<forall>c\<in>set s. c < 256)"
  by (simp add: latin1_def list_all_iff)

lemma latin1_subset: "latin1 s \<Longrightarrow> set t \<subseteq> set s \<Longrightarrow> latin1 t"
  by (auto simp: latin1_set)

lemma latin1_concat: "(\<And>s. s \<in> set ss \<Longrightarrow> latin1 s) \<Longrightarrow> latin1 (concat ss)"
  by (auto simp: latin1_set)

lemma latin1_repr: "latin1 s \<Longrightarrow> latin1 (py_repr s)"
proof -
  assume "latin1 s"
  then have "latin1 (repr_char q c)" if "c \<in> set s" for q c
    using that by (auto simp: latin1_set repr_char_def hexl_def)
  then have "latin1 (concat (map (repr_char q) s))" for q by (intro latin1_concat) auto
  then show ?thesis by (simp add: py_repr_def Let_def)
qed

lemma words_subset: "w \<in> set (py_words s) \<Longrightarrow> set w \<subseteq> set s"
proof (induction s rule: py_words.induct)
  case (1 s)
  define t where "t = dropWhile is_space s"
  have t: "set t \<subseteq> set s" unfolding t_def using set_dropWhileD by fastforce
  have ne: "t \<noteq> []"
  proof
    assume "t = []"
    then have "py_words s = []"
      unfolding py_words.simps [of s] Let_def t_def [symmetric] by (simp only: if_True simp_thms)
    with "1.prems" show False by simp
  qed
  have "py_words s = takeWhile (\<lambda>c. \<not> is_space c) t # py_words (dropWhile (\<lambda>c. \<not> is_space c) t)"
    using ne unfolding py_words.simps [of s] Let_def t_def [symmetric] by (simp only: if_False)
  with "1.prems" have "w = takeWhile (\<lambda>c. \<not> is_space c) t \<or> w \<in> set (py_words (dropWhile (\<lambda>c. \<not> is_space c) t))"
    by simp
  then have "set w \<subseteq> set (takeWhile (\<lambda>c. \<not> is_space c) t) \<or> set w \<subseteq> set (dropWhile (\<lambda>c. \<not> is_space c) t)"
    using "1.IH" [OF t_def ne] by blast
  then have "set w \<subseteq> set t" by (auto dest: subsetD set_takeWhileD set_dropWhileD)
  with t show ?case by blast
qed

lemma latin1_words:
  assumes "w \<in> set (py_words (rstrip_by p (us raw)))"
  shows "latin1 w"
  using latin1_subset [OF latin1_us] words_subset [OF assms] set_rstrip_by by blast

section \<open>Reading from any input\<close>

lemma readline_frame: "rfile_readline n c = (r, t) \<Longrightarrow> unanswered c t"
  using rfile_read_frame by (auto simp: rfile_readline_def Let_def split: if_splits)

lemma readline_error: "rfile_readline n c = (Inl e, t) \<Longrightarrow> lost (rend c) e"
  using rfile_read_error by (auto simp: rfile_readline_def Let_def split: if_splits)

text \<open>A line that is not too long is the first line there is.\<close>

lemma first_line_take: "CHR 10 \<in> set (take n b) \<Longrightarrow> first_line (take n b) = first_line b"
proof (induction b arbitrary: n)
  case (Cons c b)
  then show ?case by (cases n) (auto simp: first_line_def)
qed simp

lemma first_line_whole: "CHR 10 \<notin> set b \<Longrightarrow> first_line b = b"
  by (auto simp: first_line_def takeWhile_eq_all_conv)

lemma readline_first:
  assumes "rfile_readline (Suc n) c = (Inr raw, t)" and "length raw \<le> n"
  shows "raw = first_line (rfile c)"
proof (cases "CHR 10 \<in> set (take (Suc n) (rfile c))")
  case True
  then show ?thesis using assms(1) by (simp add: rfile_readline_def Let_def first_line_take)
next
  case False
  show ?thesis
  proof (cases "Suc n \<le> length (rfile c)")
    case True
    with False assms show ?thesis
      by (auto simp: rfile_readline_def Let_def first_line_whole)
  next
    case short: False
    then have "raw = rfile c"
      using False assms(1) by (auto simp: rfile_readline_def rfile_read_def Let_def split: read_end.splits)
    with False short show ?thesis by (simp add: first_line_whole)
  qed
qed

lemma read_block_frame:
  "read_block n c = (r, t) \<Longrightarrow> unanswered c t \<and> (\<forall>e. r = Inl e \<longrightarrow> lost (rend c) e)"
proof (induction n arbitrary: c r t)
  case 0
  then show ?case
    using readline_frame readline_error
    by (fastforce simp: bind_p_def return_p_def split: prod.splits sum.splits)
next
  case (Suc n)
  obtain q u where q: "rfile_readline (Suc MAXLINE) c = (q, u)" by fastforce
  then have u: "unanswered c u" "rend u = rend c" and e: "\<And>e. q = Inl e \<Longrightarrow> lost (rend c) e"
    using readline_frame [OF q] readline_error by (auto simp: unanswered_def)
  obtain p w where p: "read_block n u = (p, w)" by fastforce
  with Suc.IH [OF p] u have w: "unanswered c w" "\<And>e. p = Inl e \<Longrightarrow> lost (rend c) e"
    by (auto intro: unanswered_trans)
  show ?case
    using Suc.prems q p u e w by (auto simp: bind_p_def return_p_def split: sum.splits if_splits)
qed

section \<open>Parsing any input\<close>

text \<open>
  An error page went out: with its header block unless the request has no version, with its body
  unless the method is \<open>HEAD\<close>.
\<close>

definition page_sent :: "interp \<Rightarrow> hcls \<Rightarrow> nat set \<Rightarrow> 'a conn_scheme \<Rightarrow> 'a conn_scheme \<Rightarrow> bool" where
  "page_sent py cls codes s t \<longleftrightarrow>
     (\<exists>code bare is_head m x. code \<in> codes \<and> latin1 m \<and> sent t = sent s @ page_bytes py cls bare is_head code m x)"

text \<open>What the parser leaves: a request, an error page, a blank line, or the failure of a read.\<close>

definition parse_outcome ::
  "interp \<Rightarrow> hcls \<Rightarrow> 'a conn_scheme \<Rightarrow> exn + request option \<Rightarrow> 'a conn_scheme \<Rightarrow> bool" where
  "parse_outcome py cls s r t \<longleftrightarrow>
     (case r of
        Inl e \<Rightarrow> sent t = sent s \<and> (lost (rend s) e \<or> (\<exists>text. email_fault py text = Some e))
      | Inr None \<Rightarrow> close_connection t \<and> page_sent py cls {400, 431, 505} s t
      | Inr (Some req) \<Rightarrow> ready t \<and> close_connection t \<and> sent t = sent s \<and> rend t = rend s
          \<and> latin1 (command req))"

lemma page_sentI:
  "sent t = sent s @ page_bytes py cls bare is_head code m x \<Longrightarrow> code \<in> codes \<Longrightarrow> latin1 m \<Longrightarrow> page_sent py cls codes s t"
  unfolding page_sent_def by blast

lemma refuse_outcome:
  assumes texts: "texts_ok py" and version: "printable (server_version cls)" and c: "ready c"
    and "sent c = sent s" and "latin1 m" and "code \<in> {400, 431, 505}"
    and "refuse_request py cls h code m x c = (r, t)"
  shows "parse_outcome py cls s r t"
proof -
  have r: "r = Inr None" and t: "t = error_answered py cls h code m x c"
    using assms(7) send_error_ok [OF texts version c assms(5), of h code x]
    by (simp_all add: refuse_request_def seq_p_def bind_p_def return_p_def)
  have "sent t = sent s @ page_bytes py cls (http09 c) h code m x" "close_connection t"
    by (simp_all add: t error_answered_def assms(4))
  with page_sentI [OF this(1) assms(6,5)] show ?thesis by (simp add: parse_outcome_def r)
qed

lemma bad_request_outcome:
  assumes texts: "texts_ok py" and version: "printable (server_version cls)" and c: "ready c"
    and "sent c = sent s" and "latin1 text"
    and "bad_request py cls what text c = (r, t)"
  shows "parse_outcome py cls s r t"
  using refuse_outcome [OF texts version assms(3,4) _ _ assms(6) [unfolded bad_request_def]] latin1_repr [OF assms(5)] by simp

lemma parse_headers_outcome:
  assumes texts: "texts_ok py" and version: "printable (server_version cls)" and c: "ready c"
    and "sent c = sent s" and "rend c = rend s" and "close_connection c" and "latin1 cmd"
    and "parse_headers py cls cmd target c = (r, t)"
  shows "parse_outcome py cls s r t"
proof -
  obtain q u where q: "read_block MAXHEADERS c = (q, u)" by fastforce
  from read_block_frame [OF q] have u: "unanswered c u" "\<And>e. q = Inl e \<Longrightarrow> lost (rend s) e" using assms(5) by auto
  then have su: "ready u" "sent u = sent s" "close_connection u" "rend u = rend s"
    using assms(3-6) by (auto simp: unanswered_ready) (auto simp: unanswered_def)
  note run = assms(8) [unfolded parse_headers_def bind_p_def q prod.case]
  show ?thesis
  proof (cases q)
    case (Inl e)
    with run su u(2) show ?thesis by (auto simp: parse_outcome_def)
  next
    case (Inr b)
    show ?thesis
    proof (cases b)
      case (Block b1)
      with run Inr su assms(7) show ?thesis
        by (auto simp: parse_outcome_def return_p_def raise_p_def split: option.splits)
    next
      case Line_too_long
      with run Inr have "refuse_request py cls (cmd = us ''HEAD'') 431 (us ''Line too long'')
          (us ''got more than 65536 bytes when reading header line'') u = (r, t)" by simp
      from refuse_outcome [OF texts version su(1,2) _ _ this] show ?thesis by simp
    next
      case Too_many_headers
      with run Inr have "refuse_request py cls (cmd = us ''HEAD'') 431 (us ''Too many headers'')
          (us ''got more than 100 headers'') u = (r, t)" by simp
      from refuse_outcome [OF texts version su(1,2) _ _ this] show ?thesis by simp
    qed
  qed
qed

lemma parse_words_outcome:
  assumes texts: "texts_ok py" and version: "printable (server_version cls)" and c: "ready c"
    and "sent c = sent s" and "rend c = rend s" and "close_connection c"
    and "latin1 line" and "\<And>w. w \<in> set words \<Longrightarrow> latin1 w"
    and "parse_words py cls line words c = (r, t)"
  shows "parse_outcome py cls s r t"
proof -
  note bad = bad_request_outcome [OF texts version assms(3,4)] and heads = parse_headers_outcome [OF texts version assms(3-6)]
  from assms(9) consider
      (two) cmd target where "words = [cmd, target]"
    | (three) cmd target v where "words = [cmd, target, v]"
    | (other) "bad_request py cls ''Bad request syntax'' line c = (r, t)"
    unfolding parse_words_def by (auto split: list.splits)
  then show ?thesis
  proof cases
    case two
    then have "latin1 cmd" using assms(8) by simp
    with bad [OF this] heads [OF this] two assms(9) show ?thesis
      by (cases "cmd = us ''GET''") (simp_all add: parse_words_def)
  next
    case three
    then have "latin1 cmd" using assms(8) by simp
    with heads [OF this] three assms(9) show ?thesis by (simp add: parse_words_def)
  qed (rule bad [OF assms(7)])
qed

lemma parse_request_outcome:
  assumes texts: "texts_ok py" and version: "printable (server_version cls)" and c: "ready c" and "parse_request py cls raw c = (r, t)"
    and "py_words (rstrip_by line_end (us raw)) \<noteq> []"
  shows "parse_outcome py cls c r t"
proof -
  let ?line = "rstrip_by line_end (us raw)" and ?words = "py_words (rstrip_by line_end (us raw))"
  let ?c = "c\<lparr>request_version := us ''HTTP/0.9'', close_connection := True, requestline := ?line\<rparr>"
  have c: "ready ?c" "sent ?c = sent c" "rend ?c = rend c" "close_connection ?c"
    using assms(3) by (simp_all add: ready_def)
  have w: "latin1 ?line" "\<And>w. w \<in> set ?words \<Longrightarrow> latin1 w"
    using latin1_subset [OF latin1_us set_rstrip_by] latin1_words by auto
  then have lastw: "latin1 (last ?words)" using assms(5) by simp
  then have num: "latin1 (us ''Invalid HTTP version ('' @ drop 5 (last ?words) @ us '')'')"
    using latin1_subset [OF lastw set_drop_subset] by simp
  show ?thesis
  proof (cases "length ?words \<ge> 3")
    case False
    then have "parse_words py cls ?line ?words ?c = (r, t)"
      using assms(4,5) by (simp add: parse_request_def Let_def seq_p_def bind_p_def modify_p_def)
    from parse_words_outcome [OF texts version c w(1) _ this] w(2) show ?thesis by blast
  next
    case True
    show ?thesis
    proof (cases "http_version (last ?words)")
      case None
      then have "bad_request py cls ''Bad request version'' (last ?words) ?c = (r, t)"
        using True assms(4,5) by (simp add: parse_request_def Let_def seq_p_def bind_p_def modify_p_def)
      then show ?thesis by (rule bad_request_outcome [OF texts version c(1,2) lastw])
    next
      case (Some v)
      obtain major minor where v: "v = (major, minor)" by (cases v)
      show ?thesis
      proof (cases "major \<ge> 2")
        case True
        then have "refuse_request py cls False 505
            (us ''Invalid HTTP version ('' @ drop 5 (last ?words) @ us '')'') (us (explanation 505)) ?c = (r, t)"
          using \<open>length ?words \<ge> 3\<close> assms(4,5) Some v
          by (simp add: parse_request_def Let_def seq_p_def bind_p_def modify_p_def)
        then show ?thesis using num by (intro refuse_outcome [OF texts version c(1,2)]) auto
      next
        case False
        let ?d = "?c\<lparr>request_version := last ?words\<rparr>"
        have d: "ready ?d" "sent ?d = sent c" "rend ?d = rend c" "close_connection ?d"
          using assms(3) by (simp_all add: ready_def)
        have "parse_words py cls ?line ?words ?d = (r, t)"
          using False \<open>length ?words \<ge> 3\<close> assms(4,5) Some v
          by (simp add: parse_request_def Let_def seq_p_def bind_p_def modify_p_def)
        from parse_words_outcome [OF texts version d w(1) _ this] w(2) show ?thesis by blast
      qed
    qed
  qed
qed

section \<open>Any request\<close>

text \<open>
  A reply of the code went out whole, as an HTTP message or, to a request without a version, as
  its JSON line alone.
\<close>

definition reply_sent :: "interp \<Rightarrow> hcls \<Rightarrow> nat set \<Rightarrow> 'a conn_scheme \<Rightarrow> 'a conn_scheme \<Rightarrow> bool" where
  "reply_sent py cls codes s t \<longleftrightarrow>
     (\<exists>code body hs bare. code \<in> codes \<and> plain_headers hs \<and> conforms code body hs
        \<and> sent t = sent s @ (if bare then body_bytes body else render (json_message py cls (code, body, hs))))"

lemma replied_reply_sent:
  assumes "texts_ok py" and "server_version cls = SERVER_NAME" and "ready s" and "replied py cls a s r t" and "a \<subseteq> b"
  shows "r = Inr () \<and> close_connection t = close_connection s \<and> reply_sent py cls b s t"
proof -
  from replied_sent [OF assms(1-4)] obtain code body hs where
    "code \<in> a" "plain_headers hs" "conforms code body hs" "r = Inr ()"
    and t: "sent t = sent s @ reply_bytes py cls (code, body, hs) s" "close_connection t = close_connection s"
    by metis
  moreover have "sent t = sent s @ (if http09 s then body_bytes body else render (json_message py cls (code, body, hs)))"
    by (simp add: t(1) reply_bytes_def)
  ultimately show ?thesis using assms(5) unfolding reply_sent_def by blast
qed

text \<open>Why a request is given up in its method: the client is lost, or a signal fell into a call of the bindings.\<close>

definition given_up :: "bool \<Rightarrow> read_end \<Rightarrow> exn \<Rightarrow> bool" where
  "given_up ok q e \<longleftrightarrow> lost q e \<or> (e = KeyboardInterrupt \<and> \<not> ok)"

lemma served_outcome:
  assumes "texts_ok py" and "server_version cls = SERVER_NAME" and "ready s" and "served ok py cls a s r t" and "a \<subseteq> b"
  shows "(r = Inr () \<and> close_connection t = close_connection s \<and> reply_sent py cls b s t)
    \<or> (\<exists>e. r = Inl e \<and> sent t = sent s \<and> given_up ok (rend s) e)"
  using assms(4) replied_reply_sent [OF assms(1-3) _ assms(5)] unanswered_sent
  unfolding served_def interrupted_def given_up_def by blast

lemma printable_server [simp]: "printable SERVER_NAME"
  by (simp add: SERVER_NAME_def lit_simps)

definition all_codes :: "nat set" where
  "all_codes = {200, 201, 202, 400, 403, 404, 409, 500, 503}"

lemma do_method_outcome:
  assumes py: "texts_ok py" and cls: "server_version cls = SERVER_NAME"
    and api: "jobid_raises_value_error api" "f58_plain api"
    and s: "ready s" "latin1 (command req)" and run: "do_method py cls os api req s = (r, t)"
  shows "(r = Inr () \<and> (close_connection s \<longrightarrow> close_connection t)
      \<and> (page_sent py cls {501} s t \<or> reply_sent py cls {200, 201, 202, 400, 403, 404, 409, 500, 503} s t))
    \<or> (\<exists>e. r = Inl e \<and> sent t = sent s \<and> (given_up (uninterrupted api) (rend s) e \<or> is_ValueError e))"
proof -
  note sent = served_outcome [OF py cls s(1)]
  consider (get) "do_GET py cls os api req s = (r, t)" | (post) "do_POST py cls os api req s = (r, t)"
    | (delete) "do_DELETE py cls api req s = (r, t)"
    | (other) "send_error_page py cls (command req = us ''HEAD'') 501
        (us ''Unsupported method ('' @ py_repr (command req) @ us '')'') (us (explanation 501)) s = (r, t)"
    using run by (auto simp: do_method_def dispatch_def METHODS_def split: if_splits)
  then show ?thesis
  proof cases
    case get
    from sent [OF do_GET_served [OF api(1) get], of all_codes] show ?thesis by (auto simp: all_codes_def)
  next
    case post
    have "served (uninterrupted api) py cls {201, 400, 404, 500, 503} s r t \<Longrightarrow> ?thesis"
      using sent [of _ "{201, 400, 404, 500, 503}" r t all_codes] by (auto simp: all_codes_def)
    with do_POST_served [OF py cls api(2) s(1) post] show ?thesis unfolding given_up_def by blast
  next
    case delete
    have "served (uninterrupted api) py cls {202, 400, 403, 404, 409, 500, 503} s r t \<Longrightarrow> ?thesis"
      using sent [of _ "{202, 400, 403, 404, 409, 500, 503}" r t all_codes] by (auto simp: all_codes_def)
    with do_DELETE_served [OF api(1) delete] show ?thesis by (cases "urlsplit py (path req)") auto
  next
    case other
    have m: "latin1 (us ''Unsupported method ('' @ py_repr (command req) @ us '')'')"
      using latin1_repr [OF s(2)] by simp
    have "printable (server_version cls)" by (simp add: cls)
    from send_error_ok [OF py this s(1) m] other
    have "r = Inr ()" and t: "t = error_answered py cls (command req = us ''HEAD'') 501
        (us ''Unsupported method ('' @ py_repr (command req) @ us '')'') (us (explanation 501)) s"
      by simp_all
    moreover have "page_sent py cls {501} s t"
      by (rule page_sentI [OF _ _ m]) (simp_all add: t error_answered_def)
    ultimately show ?thesis by (simp add: error_answered_def)
  qed
qed

lemma timed_cases:
  assumes "timed cls m c = (r, t)" and "m c = (q, u)"
  shows "(r = q \<and> t = u \<and> (\<forall>e. q = Inl e \<longrightarrow> \<not> is_os TimeoutError e))
    \<or> (r = Inr () \<and> sent t = sent u \<and> close_connection t \<and> (\<exists>e. q = Inl e \<and> is_os TimeoutError e))"
  using assms
  by (cases q) (auto simp: timed_def catch_p_def seq_p_def bind_p_def http_simps modify_p_def raise_p_def split: if_splits)

text \<open>A line without words is white space.\<close>

lemma no_words: "py_words (rstrip_by line_end s) = [] \<Longrightarrow> list_all is_space s"
proof -
  assume w: "py_words (rstrip_by line_end s) = []"
  have "dropWhile is_space (rstrip_by line_end s) = []"
  proof (rule ccontr)
    assume "dropWhile is_space (rstrip_by line_end s) \<noteq> []"
    then have "py_words (rstrip_by line_end s) \<noteq> []" by (subst py_words.simps) (simp add: Let_def)
    with w show False by blast
  qed
  then have a: "\<forall>c\<in>set (rstrip_by line_end s). is_space c" by simp
  have "is_space c" if "line_end c" for c using that by (auto simp: line_end_def is_space_def)
  moreover have "s = rstrip_by line_end s @ rev (takeWhile line_end (rev s))"
    unfolding rstrip_by_def by (metis rev_append rev_rev_ident takeWhile_dropWhile_id)
  then have "set s = set (rstrip_by line_end s) \<union> set (takeWhile line_end (rev s))"
    by (metis set_append set_rev)
  ultimately show "list_all is_space s" using a by (auto simp: list_all_iff dest: set_takeWhileD)
qed

text \<open>What the email package is relied on for: it may fail on a header block, but it does no I/O.\<close>

definition email_no_io :: "interp \<Rightarrow> bool" where
  "email_no_io py \<longleftrightarrow> (\<forall>text e. email_fault py text = Some e \<longrightarrow> \<not> is_os TimeoutError e)"

section \<open>Any bytes\<close>

text \<open>One round of the handler, before a timeout is caught.\<close>

definition round_outcome :: "bool \<Rightarrow> interp \<Rightarrow> hcls \<Rightarrow> 'a conn_scheme \<Rightarrow> exn + unit \<Rightarrow> 'a conn_scheme \<Rightarrow> bool" where
  "round_outcome ok py cls s r t \<longleftrightarrow>
     (case r of
        Inr _ \<Rightarrow> close_connection t
          \<and> (page_sent py cls {400, 414, 431, 501, 505} s t \<or> reply_sent py cls all_codes s t
             \<or> (sent t = sent s \<and> list_all is_space (us (first_line (rfile s)))))
      | Inl e \<Rightarrow> sent t = sent s
          \<and> (given_up ok (rend s) e \<or> is_ValueError e \<or> (\<exists>text. email_fault py text = Some e)))"

lemma page_sent_mono: "page_sent py cls a s t \<Longrightarrow> a \<subseteq> b \<Longrightarrow> page_sent py cls b s t"
  unfolding page_sent_def by blast

lemma page_sent_from: "sent s = sent u \<Longrightarrow> page_sent py cls a u t \<Longrightarrow> page_sent py cls a s t"
  by (simp add: page_sent_def)

lemma reply_sent_from: "sent s = sent u \<Longrightarrow> reply_sent py cls a u t \<Longrightarrow> reply_sent py cls a s t"
  by (simp add: reply_sent_def)

lemma round_any_bytes:
  assumes py: "texts_ok py" and cls: "server_version cls = SERVER_NAME"
    and api: "jobid_raises_value_error api" "f58_plain api" and c: "ready c"
    and run: "read_request py cls (do_method py cls os api) c = (r, t)"
  shows "round_outcome (uninterrupted api) py cls c r t"
proof -
  have version: "printable (server_version cls)" by (simp add: cls)
  obtain q u where q: "rfile_readline (Suc MAXLINE) c = (q, u)" by fastforce
  have u: "sent u = sent c" "rend u = rend c" "ready u"
    using readline_frame [OF q] c by (simp_all add: unanswered_def ready_def)
  show ?thesis
  proof (cases q)
    case (Inl e)
    with run q u(1) readline_error [of "Suc MAXLINE" c e u] show ?thesis
      by (auto simp: read_request_def bind_p_def round_outcome_def given_up_def)
  next
    case (Inr raw)
    note run = run [unfolded read_request_def bind_p_def q prod.case Inr sum.case on_line_def]
    show ?thesis
    proof (cases "length raw > MAXLINE")
      case True
      let ?u = "u\<lparr>requestline := [], request_version := []\<rparr>"
      have ru: "ready ?u" using u(3) by (simp add: ready_def)
      from run True have "send_error py cls 414 (us (reason 414)) ?u = (r, t)"
        by (simp add: seq_p_def bind_p_def modify_p_def)
      with send_error_ok [OF py version ru latin1_us]
      have r: "r = Inr ()" and t: "t = error_answered py cls False 414 (us (reason 414)) (us (explanation 414)) ?u"
        by simp_all
      have "page_sent py cls {414} c t"
        by (rule page_sentI [OF _ _ latin1_us]) (simp_all add: t error_answered_def u(1))
      then show ?thesis
        by (auto simp: round_outcome_def r t error_answered_def intro: page_sent_mono)
    next
      case short: False
      then have line: "raw = first_line (rfile c)" using readline_first [of MAXLINE c raw u] q Inr by simp
      show ?thesis
      proof (cases "raw = []")
        case True
        with run short u line show ?thesis by (auto simp: modify_p_def round_outcome_def)
      next
        case False
        obtain p w where p: "parse_request py cls raw u = (p, w)" by fastforce
        note run = run [unfolded if_not_P [OF short] if_not_P [OF False] p prod.case]
        show ?thesis
        proof (cases "py_words (rstrip_by line_end (us raw)) = []")
          case True
          then have "p = Inr None" "sent w = sent c" "close_connection w"
            using p u(1) by (auto simp: parse_request_def Let_def seq_p_def bind_p_def modify_p_def return_p_def)
          with run no_words [OF True] line show ?thesis by (auto simp: return_p_def round_outcome_def)
        next
          case words: False
          note out = parse_request_outcome [OF py version u(3) p words, unfolded parse_outcome_def]
          show ?thesis
          proof (cases p)
            case (Inl e)
            with run out u show ?thesis by (auto simp: round_outcome_def given_up_def)
          next
            case (Inr got)
            show ?thesis
            proof (cases got)
              case None
              with Inr out have "close_connection w" "page_sent py cls {400, 431, 505} c w"
                using page_sent_from [OF u(1) [symmetric]] by simp_all
              with run Inr None show ?thesis
                by (auto simp: return_p_def round_outcome_def intro: page_sent_mono)
            next
              case (Some req)
              with Inr out u have w: "ready w" "close_connection w" "sent w = sent c" "rend w = rend c"
                "latin1 (command req)" by simp_all
              from run Inr Some have "do_method py cls os api req w = (r, t)" by simp
              from do_method_outcome [OF py cls api w(1,5) this] show ?thesis
                using w(2-4) page_sent_mono [OF page_sent_from [OF w(3) [symmetric]]]
                  reply_sent_from [OF w(3) [symmetric]]
                unfolding round_outcome_def all_codes_def by (elim disjE conjE exE) auto
            qed
          qed
        qed
      qed
    qed
  qed
qed

lemma handle_any_bytes:
  assumes "texts_ok py" and "email_no_io py" and "jobid_raises_value_error api" and "f58_plain api" and "ready c"
    and "handle_raw py (handler_cls py v) (do_method py (handler_cls py v) os api) c = (r, t)"
  shows "case r of
      Inr _ \<Rightarrow> close_connection t
        \<and> (reply_sent py (handler_cls py v) all_codes c t
           \<or> page_sent py (handler_cls py v) {400, 414, 431, 501, 505} c t
           \<or> (sent t = sent c \<and> (list_all is_space (us (first_line (rfile c))) \<or> rend c = Peer_stalls)))
    | Inl e \<Rightarrow> sent t = sent c
        \<and> (is_os ConnectionResetError e \<and> rend c = Peer_resets \<or> (\<exists>m. e = RecursionError m)
           \<or> (e = KeyboardInterrupt \<and> \<not> uninterrupted api)
           \<or> is_ValueError e \<or> (\<exists>text. email_fault py text = Some e))"
proof -
  let ?cls = "handler_cls py v"
  let ?round = "read_request py ?cls (do_method py ?cls os api)"
  obtain q u where q: "?round c = (q, u)" by fastforce
  note out = round_any_bytes [OF assms(1) handler_version assms(3-5) q, unfolded round_outcome_def]
  have lost: "given_up (uninterrupted api) (rend c) e \<Longrightarrow> (is_os TimeoutError e \<and> rend c = Peer_stalls)
      \<or> (is_os ConnectionResetError e \<and> rend c = Peer_resets) \<or> (\<exists>m. e = RecursionError m)
      \<or> (e = KeyboardInterrupt \<and> \<not> uninterrupted api)" for e
    by (cases e) (auto simp: given_up_def)
  have not_os: "is_ValueError e \<Longrightarrow> \<not> is_os TimeoutError e" for e by (cases e) auto
  from timed_cases [OF assms(6) [unfolded handle_raw_def] q] show ?thesis
  proof (elim disjE conjE exE)
    assume "r = q" "t = u" and nt: "\<forall>e. q = Inl e \<longrightarrow> \<not> is_os TimeoutError e"
    then show ?thesis using out lost by (cases q) auto
  next
    fix e
    assume t: "r = Inr ()" "sent t = sent u" "close_connection t" and e: "q = Inl e" "is_os TimeoutError e"
    with out have "sent u = sent c" and "given_up (uninterrupted api) (rend c) e \<or> is_ValueError e \<or> (\<exists>text. email_fault py text = Some e)"
      by simp_all
    moreover have "\<nexists>text. email_fault py text = Some e" using assms(2) e(2) unfolding email_no_io_def by blast
    ultimately have "sent u = sent c" and "given_up (uninterrupted api) (rend c) e" using not_os e(2) by auto
    moreover from this(2) have "rend c = Peer_stalls" using lost [of e] e(2) by (cases e) auto
    ultimately show ?thesis using t by simp
  qed
qed

text \<open>
  C3. Whatever bytes a client sends, and however it stops, the server answers at most once and
  whole: a JSON reply of a documented code, or an error page of the reader (400, 414, 431, 501,
  505); or nothing at all, and then the first line is blank or missing, the client stopped sending
  or reset the connection, its body nests too deeply, its target is one \<open>urlsplit\<close> refuses, the
  email package failed on its headers, or a signal fell into a call of the bindings. A request that was handled is always the last on its
  connection.
\<close>

theorem any_bytes_answered:
  assumes "texts_ok py" and "email_no_io py" and "jobid_raises_value_error api" and "f58_plain api" and "ready c"
    and "handle_raw py (handler_cls py v) (do_method py (handler_cls py v) os api) c = (r, t)"
  shows "case r of
      Inr _ \<Rightarrow> close_connection t
        \<and> (reply_sent py (handler_cls py v) all_codes c t
           \<or> page_sent py (handler_cls py v) {400, 414, 431, 501, 505} c t
           \<or> (sent t = sent c \<and> (list_all is_space (us (first_line (rfile c))) \<or> rend c = Peer_stalls)))
    | Inl e \<Rightarrow> sent t = sent c
        \<and> (is_os ConnectionResetError e \<and> rend c = Peer_resets \<or> (\<exists>m. e = RecursionError m)
           \<or> (e = KeyboardInterrupt \<and> \<not> uninterrupted api)
           \<or> is_ValueError e \<or> (\<exists>text. email_fault py text = Some e))"
  using assms by (rule handle_any_bytes)

lemma any_bytes_answered_witness:
  "let c = sample_srv\<lparr>rfile := ''NONSENSE''\<rparr>; cls = handler_cls sample_py False in
   case handle_raw sample_py cls (do_method sample_py cls sample_os sample_api) c of
      (Inr _, t) \<Rightarrow> reply_sent sample_py cls all_codes c t \<or> page_sent sample_py cls {400, 414, 431, 501, 505} c t
    | (Inl e, t) \<Rightarrow> is_ValueError e \<or> (\<exists>m. e = RecursionError m)"
proof -
  let ?c = "sample_srv\<lparr>rfile := ''NONSENSE''\<rparr>" and ?cls = "handler_cls sample_py False"
  have "email_no_io sample_py" "\<nexists>text e. email_fault sample_py text = Some e"
    by (simp_all add: email_no_io_def sample_py_def)
  moreover have "ready ?c" "rend ?c = Peer_EOF" by (simp_all add: ready_def sample_srv_def)
  moreover have "\<not> list_all is_space (us (first_line ''NONSENSE''))"
    by (simp add: first_line_def is_space_def us_Cons)
  moreover obtain r t where "handle_raw sample_py ?cls (do_method sample_py ?cls sample_os sample_api) ?c = (r, t)"
    by fastforce
  ultimately show ?thesis
    using any_bytes_answered [OF sample_texts _ sample_jobid sample_f58, of ?c False sample_os r t]
    by (cases r) auto
qed

section \<open>A well-behaved client\<close>

lemma requested_fields [simp]:
  "rfile (requested req v b c) = b" "sent (requested req v b c) = sent c"
  "ready (requested req v b c) = ready c" "http09 (requested req v b c) \<longleftrightarrow> v = us ''HTTP/0.9''"
  "(requested req v b c)\<lparr>rfile := b'\<rparr> = requested req v b' c"
  by (simp_all add: requested_def ready_def http09_def)

lemma client_reads_requested [simp]: "client_reads (requested req v b c) t = client_reads c t"
  by (simp add: client_reads_def)

lemma handle_raw_method:
  assumes "request_ok py req v" and "rfile c = request_bytes req v @ rest"
  shows "handle_raw py cls (do_method py cls os api) c = handle_one_request py cls os api req (requested req v rest c)"
  unfolding handle_one_request_def by (rule handle_raw_request [OF assms])

lemma timed_returns: "m c = (Inr x, t) \<Longrightarrow> timed cls m c = (Inr x, t)"
  by (simp add: timed_def catch_p_def)

text \<open>
  What a client writes is what the server reads: a request in the usual form (a method and a target
  without blanks, a version below 2, printable headers within the reader's limits) reaches the method
  with exactly that method, target and header list, and with all that follows its header block unread.
\<close>

theorem request_roundtrip:
  assumes "request_ok py req v" and "rfile c = request_bytes req v @ rest"
  shows "handle_raw py cls (do_method py cls os api) c
    = handle_one_request py cls os api req
        (c\<lparr>request_version := v, close_connection := True, requestline := request_text req v, rfile := rest\<rparr>)"
  using handle_raw_method [OF assms] by (simp add: requested_def)

text \<open>
  C5. From bytes to job: a submission, from the first byte of its request line to the last of its JSON
  body, which is as \<open>json.dumps\<close> writes it, with a valid command, sent to a reachable Flux, submits that job once with exactly the
  request's fields, answers 201 with its id and \<open>Location\<close>, and leaves unread whatever the client
  sent after the body.
\<close>

theorem submission_served:
  assumes "texts_ok py" and "f58_plain api" and "ready c"
    and "request_ok py req v" and "v \<noteq> us ''HTTP/0.9''"
    and "command req = us ''POST''" and "path req = us ''/api/v1/jobs''"
    and "header_get (us ''Content-Length'') req = Some (str_int (int (length (dumps (JObj d)))))"
    and "int (length (dumps (JObj d))) \<le> MAX_BODY_SIZE" and "readable py (json_depth py) (JObj d)"
    and "rfile c = request_bytes req v @ to_bytes (dumps (JObj d)) @ extra"
    and "command_of d = Some cmd" and "getpwuid os (getuid os) = Some pw"
    and "from_command api cmd (submit_kwargs pw d) = Inr spec"
    and "flux_handle api (requested req v extra c) = (Inr h, u)" and "submit api h spec (world u) = (Inr j, w)"
    and "handle_raw py (handler_cls py verb) (do_method py (handler_cls py verb) os api) c = (r, t)"
  shows "r = Inr () \<and> world t = w \<and> handle t = Some h \<and> rfile t = extra
    \<and> client_reads c t = Inr (json_message py (handler_cls py verb) (created api j))"
proof -
  let ?cls = "handler_cls py verb" and ?c = "requested req v (to_bytes (dumps (JObj d)) @ extra) c"
  obtain q s where post: "do_POST py ?cls os api req ?c = (q, s)" by fastforce
  have "connected ?c" using assms(3,5) by (simp add: connected_ready)
  from do_POST_job [OF assms(1,2) this assms(7-10) _ assms(12-14) _ assms(16) post, of extra] assms(15)
  have out: "q = Inr ()" "world s = w" "handle s = Some h" "rfile s = extra"
    "client_reads ?c s = Inr (json_message py ?cls (created api j))" by simp_all
  have "handle_raw py ?cls (do_method py ?cls os api) c = (Inr (), s)"
    unfolding handle_raw_method [OF assms(4,11)] handle_one_request_def
    by (rule timed_returns) (simp only: do_method_simps(2) [OF assms(6)] post out(1))
  with assms(17) out show ?thesis by simp
qed

definition sample_job :: "(ustr \<times> json) list" where
  "sample_job = [(us ''command'', JArr [JStr (us ''hostname'')])]"

definition sample_submit :: request where
  "sample_submit = \<lparr>command = us ''POST'', path = us ''/api/v1/jobs'',
     headers = [(us ''content-length'', str_int 25)]\<rparr>"

lemma sample_request_ok:
  assumes "token (command req)" and "path req = 47 # p" and "list_all (\<lambda>c. 33 \<le> c \<and> c \<le> 126) p"
    and "p = [] \<or> hd p \<noteq> 47" and "list_all field_ok (headers req)"
    and "length (command req) + length p < 1000" and "length (headers req) < 10"
  shows "request_ok sample_py req (us ''HTTP/1.1'')"
proof -
  have "http_version (us ''HTTP/1.1'') = Some (1, 1)"
    by (simp add: http_version_def py_startswith_def split_on.simps version_digits_def is_digit_def digits_value_def
        us_Cons)
  then show ?thesis
    using assms by (cases p)
      (simp_all add: request_ok_def token_def py_startswith_def request_text_def MAXLINE_def MAXHEADERS_def
        crlf_def sample_py_def)
qed

lemma sample_submit_ok: "request_ok sample_py sample_submit (us ''HTTP/1.1'')"
  by (rule sample_request_ok [of _ "us ''api/v1/jobs''"])
    (simp_all add: sample_submit_def token_def us_Cons field_ok_def field_char_def value_ok_def
      header_line_def crlf_def MAXLINE_def str_int_def dec_digits.simps [of 25] dec_digits.simps [of 2])

lemma request_roundtrip_witness:
  "handle_raw sample_py (handler_cls sample_py False) (do_method sample_py (handler_cls sample_py False) sample_os sample_api)
      (sample_srv\<lparr>rfile := request_bytes sample_submit (us ''HTTP/1.1'') @ ''{}''\<rparr>)
    = handle_one_request sample_py (handler_cls sample_py False) sample_os sample_api sample_submit
        (sample_srv\<lparr>request_version := us ''HTTP/1.1'', close_connection := True,
           requestline := us ''POST /api/v1/jobs HTTP/1.1'', rfile := ''{}''\<rparr>)"
proof -
  have "request_text sample_submit (us ''HTTP/1.1'') = us ''POST /api/v1/jobs HTTP/1.1''"
    by (simp add: request_text_def sample_submit_def us_Cons)
  then show ?thesis
    using request_roundtrip [OF sample_submit_ok, of "sample_srv\<lparr>rfile := request_bytes sample_submit (us ''HTTP/1.1'') @ ''{}''\<rparr>"
        "''{}''" "handler_cls sample_py False" sample_os sample_api] by simp
qed

lemma submission_served_witness:
  "client_reads (sample_srv\<lparr>rfile := request_bytes sample_submit (us ''HTTP/1.1'') @ to_bytes (dumps (JObj sample_job))\<rparr>)
     (snd (handle_raw sample_py (handler_cls sample_py False)
        (do_method sample_py (handler_cls sample_py False) sample_os sample_api)
        (sample_srv\<lparr>rfile := request_bytes sample_submit (us ''HTTP/1.1'') @ to_bytes (dumps (JObj sample_job))\<rparr>)))
   = Inr (json_message sample_py (handler_cls sample_py False) (created sample_api 3))"
proof -
  let ?c = "sample_srv\<lparr>rfile := request_bytes sample_submit (us ''HTTP/1.1'') @ to_bytes (dumps (JObj sample_job))\<rparr>"
  let ?s = "requested sample_submit (us ''HTTP/1.1'') [] ?c"
  have len: "length (dumps (JObj sample_job)) = 25"
    by (simp add: sample_job_def json_quote_def esc_char_def lit_simps)
  have h: "header_get (us ''Content-Length'') sample_submit = Some (str_int (int (length (dumps (JObj sample_job)))))"
    unfolding len by (simp add: header_get_def sample_submit_def find_header_def ascii_lower_def lit_simps)
  have r: "readable sample_py (json_depth sample_py) (JObj sample_job)"
    by (simp add: sample_job_def sample_py_def eval_nat_numeral is_scalar_def is_surrogate_def lit_simps)
  have c: "command_of sample_job = Some [us ''hostname'']"
    by (simp add: command_of_iff [of _ "[us ''hostname'']"] sample_job_def)
  have pw: "getpwuid sample_os (getuid sample_os) = Some sample_pw" by (simp add: sample_os_def)
  have f: "from_command sample_api [us ''hostname''] (submit_kwargs sample_pw sample_job) = Inr [us ''hostname'']"
    by (simp add: sample_api_def submit_kwargs_def request_kwargs_def sample_job_def setdefault_def)
  have fl: "flux_handle sample_api ?s = (Inr (), ?s\<lparr>handle := Some ()\<rparr>)"
    by (simp add: flux_handle_def on_world_def sample_api_def sample_srv_def requested_def)
  have j: "submit sample_api () [us ''hostname''] (world (?s\<lparr>handle := Some ()\<rparr>)) = (Inr 3, [1, 2, 3])"
    by (simp add: sample_api_def sample_srv_def requested_def eval_nat_numeral)
  have c0: "ready ?c" "(us ''HTTP/1.1'' :: ustr) \<noteq> us ''HTTP/0.9''" by (simp_all add: ready_def sample_srv_def us_Cons)
  show ?thesis
    using submission_served [OF sample_texts sample_f58 c0(1) sample_submit_ok c0(2) _ _ h _ r _ c pw f fl j
        prod.collapse [symmetric], of False] len
    by (simp add: sample_submit_def MAX_BODY_SIZE_def)
qed

end
