(* ===== verification/Service.thy ===== *)
theory Service
  imports Serve Bytes_Spec
begin

text \<open>
  The gate, the loop and the handler together: one connection to the server as a whole, from
  \<open>accept\<close> to the shutdown, with the Flux handle and the broker behind it. Runs of many connections are
  the subject of the theory \<open>Process\<close>, over the loop as it is.
\<close>

section \<open>One connection, end to end\<close>

text \<open>
  A connection as it comes from the socket: what the client will send and how it stops, how long its
  request takes, and which of the writes to it fail. A new handler has read, buffered and sent nothing, and \<open>handle()\<close> runs
  it once, since no response keeps the connection open.
\<close>

record client =
  input :: bytes
  input_end :: read_end
  takes :: rat
  faults_of :: "(nat \<times> exn) option list"

definition open_conn :: "client \<Rightarrow> 'a conn_scheme \<Rightarrow> 'a conn_scheme" where
  "open_conn k c = c\<lparr>request_version := [], requestline := [], client_host := None,
     rfile := input k, rend := input_end k, hbuf := [], sent := [], wfaults := faults_of k,
     close_connection := True\<rparr>"

text \<open>What goes out on the socket in a request, nothing when the request is given up unanswered.\<close>

definition outputs :: "bytes \<Rightarrow> bytes list" where
  "outputs b = (if b = [] then [] else [b])"

text \<open>
  \<open>_handle_request_noblock\<close> over the real handler: what \<open>handle_one_request\<close> sends is what the
  peer's socket gets, and an exception that leaves it is reported by the caller, or, if it is a
  \<open>KeyboardInterrupt\<close>, leaves the caller, too.
\<close>

definition serve_connection ::
  "interp \<Rightarrow> hcls \<Rightarrow> os_env \<Rightarrow> ('w, 'h, 's, 'i) flux_api \<Rightarrow> peer \<Rightarrow> client
    \<Rightarrow> (server \<times> ('w, 'h) srv, unit) prog" where
  "serve_connection py cls os api p k st =
     (case st of (s, c) \<Rightarrow>
        (case verify_request p (get_request p s) of
           (Inl e, s2) \<Rightarrow> (Inl e, (s2, c))
         | (Inr False, s2) \<Rightarrow> (Inr (), (shutdown_request p s2, c))
         | (Inr True, s2) \<Rightarrow>
             (case handle_raw py cls (do_method py cls os api) (open_conn k c) of
                (r, c2) \<Rightarrow>
                  (let x = \<lparr>writes = outputs (sent c2), took = takes k,
                            crashed = (case r of Inl _ \<Rightarrow> True | Inr _ \<Rightarrow> False)\<rparr>
                   in if r = Inl KeyboardInterrupt then (r, (interrupt_request x p s2, c2))
                      else (Inr (), (process_request x p s2, c2))))))"

lemma gate_refused_fst:
  assumes "allowed_peer_uid s = Some a" and "peer_uid p \<noteq> Inr a"
  shows "fst (verify_request p (get_request p s)) \<noteq> Inr True"
proof
  assume "fst (verify_request p (get_request p s)) = Inr True"
  then obtain t where "verify_request p (get_request p s) = (Inr True, t)" by (metis prod.collapse)
  moreover have "allowed_peer_uid (get_request p s) = Some a"
    using assms(1) by (simp add: get_request_def emit_def reap_eq)
  ultimately show False using server_gate.admits_only assms(2) by metis
qed

lemma get_request_admits:
  assumes "allowed_peer_uid s = Some a" and "peer_uid p = Inr a"
  shows "verify_request p (get_request p s) = (Inr True, get_request p s)"
  using assms by (intro server_gate.admits_owner) (simp_all add: get_request_def emit_def reap_eq)

section \<open>The permitted user's connections\<close>

text \<open>
  What the kernel documents of a connection: sending and reading the credentials fail with an
  \<open>OSError\<close> or not at all, and the credentials are a whole \<open>struct ucred\<close>.
\<close>

definition behaves :: "peer \<Rightarrow> bool" where
  "behaves p \<longleftrightarrow> only_os_faults p \<and> (\<forall>e. peer_uid p = Inl e \<longrightarrow> is_OSError e)"

lemma ready_open [simp]: "faults_of k = [] \<Longrightarrow> ready (open_conn k c)"
  and open_conn_fields [simp]: "sent (open_conn k c) = []" "rfile (open_conn k c) = input k"
    "rend (open_conn k c) = input_end k"
  by (simp_all add: ready_def open_conn_def)

text \<open>A connection of the permitted user, whatever the handler makes of it: shut, closed, and out of the request.\<close>

lemma owner_connection:
  assumes gate: "allowed_peer_uid s = Some a" "peer_uid p = Inr a" and s: "refused s = []" "shut_fault p = None"
    and run: "handle_raw py cls (do_method py cls os api) (open_conn k c) = (r, c')" "r \<noteq> Inl KeyboardInterrupt"
  shows "\<exists>s'. serve_connection py cls os api p k (s, c) = (Inr (), (s', c')) \<and> \<not> in_request s'
    \<and> trace s' = trace s @ [Accepted (sock p)] @ map (Sent (sock p)) (outputs (sent c'))
        @ [Shut_wr (sock p), Closed (sock p)]"
proof -
  let ?x = "\<lparr>writes = outputs (sent c'), took = takes k, crashed = (case r of Inl _ \<Rightarrow> True | Inr _ \<Rightarrow> False)\<rparr>"
  have "serve_connection py cls os api p k (s, c) = (Inr (), (process_request ?x p (get_request p s), c'))"
    by (simp add: serve_connection_def get_request_admits [OF gate] run)
  moreover have "reap s = s" using s(1) by (simp add: reap_eq)
  then have "trace (process_request ?x p (get_request p s)) = trace s @ [Accepted (sock p)]
      @ map (Sent (sock p)) (outputs (sent c')) @ [Shut_wr (sock p), Closed (sock p)]"
    "\<not> in_request (process_request ?x p (get_request p s))"
    using s by (simp_all add: process_request_def finish_request_def shutdown_request_def get_request_def
        emit_def close_sock_def Let_def)
  ultimately show ?thesis by blast
qed

text \<open>
  C4. The permitted user's GET is served whole, from the bytes on the socket, where no refused connection is held, no
  signal falls into a call of the bindings and the writes succeed: it is accepted, one
  complete response of a documented status goes out, the write side is shut and the socket closed, in
  that order and with nothing else, and the server is out of the request.
\<close>

theorem owner_get_served:
  assumes py: "texts_ok py" and api: "jobid_raises_value_error api" "uninterrupted api"
    and gate: "allowed_peer_uid s = Some a" "peer_uid p = Inr a"
    and s: "refused s = []" "shut_fault p = None"
    and k: "input k = request_bytes req v @ rest" "faults_of k = []"
    and req: "request_ok py req v" "v \<noteq> us ''HTTP/0.9''" "command req = us ''GET''"
  shows "\<exists>m s' c'. serve_connection py (handler_cls py verbose) os api p k (s, c) = (Inr (), (s', c'))
    \<and> read_message (sent c') = Inr m \<and> fst m \<in> {200, 400, 404, 500, 503}
    \<and> trace s' = trace s @ [Accepted (sock p), Sent (sock p) (sent c'), Shut_wr (sock p), Closed (sock p)]
    \<and> \<not> in_request s'"
proof -
  let ?cls = "handler_cls py verbose" and ?c = "requested req v rest (open_conn k c)"
  have conn: "connected ?c" using k(2) req(2) by (simp add: connected_ready)
  obtain r c' where run: "do_GET py ?cls os api req ?c = (r, c')" by (cases "do_GET py ?cls os api req ?c")
  from do_GET_serves [OF py api(1) conn this] api(2) have r: "r = Inr ()"
    and a: "answered py ?cls {200, 400, 404, 500, 503} ?c c'" by auto
  have "rfile (open_conn k c) = request_bytes req v @ rest" using k(1) by simp
  then have "handle_raw py ?cls (do_method py ?cls os api) (open_conn k c) = (Inr (), c')"
    unfolding handle_raw_method [OF req(1) \<open>rfile (open_conn k c) = _\<close>] handle_one_request_def
    by (intro timed_returns) (simp only: do_method_simps(1) [OF req(3)] run r)
  from owner_connection [OF gate s this] obtain s' where
    served: "serve_connection py ?cls os api p k (s, c) = (Inr (), (s', c'))" "\<not> in_request s'"
      "trace s' = trace s @ [Accepted (sock p)] @ map (Sent (sock p)) (outputs (sent c')) @ [Shut_wr (sock p), Closed (sock p)]"
    by blast
  obtain m where m: "read_message (sent c') = Inr m" "fst m \<in> {200, 400, 404, 500, 503}"
    using a by (auto simp: answered_def client_reads_def json_message_def split: if_splits)
  have "sent c' \<noteq> []" using m(1) by (auto simp: read_message_def)
  with served m show ?thesis by (simp add: outputs_def)
qed

section \<open>On the sample\<close>

definition sample_client :: client where
  "sample_client = \<lparr>input = request_bytes (sample_get ''/nowhere'') (us ''HTTP/1.1''), input_end = Peer_EOF,
     takes = 1, faults_of = []\<rparr>"

lemmas sample_peer_uid = sample_uid [where c = 5]

lemma sample_get_ok: "request_ok sample_py (sample_get ''/nowhere'') (us ''HTTP/1.1'')"
  by (rule sample_request_ok [of _ "us ''nowhere''"]) (simp_all add: sample_get_def token_def us_Cons)

lemma fresh_sample: "allowed_peer_uid (fresh_server (Some 1000) None) = Some 1000" "refused (fresh_server (Some 1000) None) = []"
  by (simp_all add: fresh_server_def)

lemma owner_get_served_witness:
  "\<exists>m s' c'. serve_connection sample_py (handler_cls sample_py False) sample_os sample_api (sample_peer 5 1000)
      sample_client (fresh_server (Some 1000) None, sample_srv) = (Inr (), (s', c'))
    \<and> read_message (sent c') = Inr m"
proof -
  have k: "input sample_client = request_bytes (sample_get ''/nowhere'') (us ''HTTP/1.1'') @ []" "faults_of sample_client = []"
    by (simp_all add: sample_client_def)
  have v: "(us ''HTTP/1.1'' :: ustr) \<noteq> us ''HTTP/0.9''" by (simp add: us_Cons)
  have "command (sample_get ''/nowhere'') = us ''GET''" "shut_fault (sample_peer 5 1000) = None"
    by (simp_all add: sample_get_def sample_peer_def)
  then show ?thesis
    using owner_get_served [OF sample_texts sample_jobid sample_uninterrupted fresh_sample(1) sample_peer_uid fresh_sample(2) _ k sample_get_ok v,
        where verbose = False and os = sample_os and c = sample_srv] by auto
qed

end
