(* ===== verification/Loop.thy ===== *)
theory Loop
  imports Serve
begin

text \<open>
  \<open>serve()\<close> as a transition system. Signals may arrive between any two steps: \<open>_stop\<close> runs
  at once and either raises \<open>KeyboardInterrupt\<close>, which ends the loop where it is, or takes
  note and arms the alarm. A response is written in several writes, so a signal can find it
  half way.
\<close>

section \<open>\<open>_stop\<close>\<close>

definition STOP_GRACE :: rat where
  "STOP_GRACE = 5"

text \<open>Whether the signal handler raises, and the state it leaves.\<close>

definition stop :: "server \<Rightarrow> bool \<times> server" where
  "stop s =
     (let repeat = stopping s;
          s1 = s\<lparr>stopping := True\<rparr>
      in if repeat \<or> \<not> in_request s then (True, s1)
         else (False, s1\<lparr>alarm := Some (clock s + STOP_GRACE)\<rparr>))"

text \<open>
  The dispositions \<open>serve\<close> installs: both stop signals and the alarm run \<open>_stop\<close>, but a SIGINT
  that was ignored stays ignored.
\<close>

datatype sig = SIGTERM | SIGALRM | SIGINT
datatype disposition = Default | Ignored | Runs_stop

definition install_handlers :: "(sig \<Rightarrow> disposition) \<Rightarrow> sig \<Rightarrow> disposition" where
  "install_handlers d =
     (let d1 = d(SIGTERM := Runs_stop, SIGALRM := Runs_stop)
      in if d1 SIGINT \<noteq> Ignored then d1(SIGINT := Runs_stop) else d1)"

lemma install_handlers_stop:
  "install_handlers d g = Runs_stop \<longleftrightarrow> \<not> (g = SIGINT \<and> d SIGINT = Ignored)"
  by (cases g) (simp_all add: install_handlers_def Let_def)

section \<open>The loop\<close>

datatype ending =
    Stopped
  | Idled
  | Interrupted
  | Truncated peer "bytes list"
  | Raised exn

datatype phase =
    Testing
  | Waiting "rat option"
  | Serving peer "bytes list"
  | Ended ending

text \<open>
  What drives a step: a signal (SIGTERM, or SIGINT when it was not ignored), the alarm,
  passing time, a connection and the writes its handler will make, an \<open>accept\<close> that fails, an
  exception out of a handler after its last write, or the loop itself.
\<close>

datatype cause = Signal | Alarm | Passes rat | Connects peer "bytes list" | Accept_fails | Fails | Loop

fun is_signal :: "cause \<Rightarrow> bool" where
  "is_signal Signal = True"
| "is_signal Alarm = True"
| "is_signal _ = False"

text \<open>The \<open>finally\<close> clause of \<open>serve\<close>.\<close>

definition wind_up :: "server \<Rightarrow> server" where
  "wind_up s = s\<lparr>alarm := None, listening := False\<rparr>"

definition idle_text :: "server \<Rightarrow> ustr \<Rightarrow> ustr" where
  "idle_text s shown = us ''flux-rest-server: no connection for '' @ shown @ us ''s, exiting'' @ [10]"

text \<open>
  A \<open>KeyboardInterrupt\<close> that unwinds out of a request clears the flag and shuts the
  connection down (\<open>finally\<close> in \<open>process_request\<close>, \<open>except:\<close> in its caller); elsewhere it
  only unwinds the loop.
\<close>

definition interrupt :: "phase \<Rightarrow> server \<Rightarrow> server \<times> phase" where
  "interrupt ph s =
     (case ph of
        Serving p ws \<Rightarrow> (wind_up (shutdown_request p (s\<lparr>in_request := False\<rparr>)), Ended (Truncated p ws))
      | _ \<Rightarrow> (wind_up s, Ended Interrupted))"

definition running :: "phase \<Rightarrow> bool" where
  "running ph \<longleftrightarrow> (\<forall>e. ph \<noteq> Ended e)"

inductive serve_step :: "cause \<Rightarrow> server \<times> phase \<Rightarrow> server \<times> phase \<Rightarrow> bool" where
  test_idle: "idle s \<Longrightarrow>
    serve_step Loop (s, Testing) (wind_up (s\<lparr>errlog := errlog s @ [idle_text s shown]\<rparr>), Ended Idled)"
| test_stop: "\<not> idle s \<Longrightarrow> stopping s \<Longrightarrow> serve_step Loop (s, Testing) (wind_up s, Ended Stopped)"
| test_wait: "\<not> idle s \<Longrightarrow> \<not> stopping s \<Longrightarrow>
    serve_step Loop (s, Testing) (s, Waiting (map_option (\<lambda>t. clock s + t) (serve_timeout s)))"
| expire: "d \<le> clock s \<Longrightarrow> serve_step Loop (s, Waiting (Some d)) (handle_timeout s, Testing)"
| accept_fails: "serve_step Accept_fails (s, Waiting d) (reap s, Testing)"
| admit: "verify_request p (get_request p s) = (Inr True, s2) \<Longrightarrow>
    serve_step (Connects p ws) (s, Waiting d) (s2\<lparr>in_request := True\<rparr>, Serving p ws)"
| turn_away: "verify_request p (get_request p s) = (Inr False, s2) \<Longrightarrow>
    serve_step (Connects p ws) (s, Waiting d) (shutdown_request p s2, Testing)"
| verify_raises: "verify_request p (get_request p s) = (Inl e, s2) \<Longrightarrow>
    serve_step (Connects p ws) (s, Waiting d) (wind_up s2, Ended (Raised e))"
| write_chunk: "serve_step Loop (s, Serving p (w # ws)) (emit (Sent (sock p) w) s, Serving p ws)"
| request_done: "serve_step Loop (s, Serving p []) ((shutdown_request p s)\<lparr>in_request := False\<rparr>, Testing)"
| request_fails: "serve_step Fails (s, Serving p [])
    (shutdown_request p (s\<lparr>in_request := False,
       errlog := errlog s @ [us ''Exception occurred during processing of request'']\<rparr>), Testing)"
| pass_time: "running ph \<Longrightarrow> 0 \<le> dt \<Longrightarrow> serve_step (Passes dt) (s, ph) (s\<lparr>clock := clock s + dt\<rparr>, ph)"
| signal_raises: "running ph \<Longrightarrow> stop s = (True, s1) \<Longrightarrow> serve_step Signal (s, ph) (interrupt ph s1)"
| signal_noted: "running ph \<Longrightarrow> stop s = (False, s1) \<Longrightarrow> serve_step Signal (s, ph) (s1, ph)"
| alarm_raises: "running ph \<Longrightarrow> alarm s = Some a \<Longrightarrow> a \<le> clock s \<Longrightarrow> stop (s\<lparr>alarm := None\<rparr>) = (True, s1) \<Longrightarrow>
    serve_step Alarm (s, ph) (interrupt ph s1)"
| alarm_noted: "running ph \<Longrightarrow> alarm s = Some a \<Longrightarrow> a \<le> clock s \<Longrightarrow> stop (s\<lparr>alarm := None\<rparr>) = (False, s1) \<Longrightarrow>
    serve_step Alarm (s, ph) (s1, ph)"

inductive_cases serving_step: "serve_step c (s, Serving p ws) st"
inductive_cases testing_step: "serve_step c (s, Testing) st"
inductive_simps ended_step: "serve_step c (s, Ended e) st"

inductive serve_run :: "server \<times> phase \<Rightarrow> cause list \<Rightarrow> server \<times> phase \<Rightarrow> bool" where
  run_start: "serve_run st [] st"
| run_step: "serve_run st cs st' \<Longrightarrow> serve_step c st' st'' \<Longrightarrow> serve_run st (cs @ [c]) st''"

section \<open>Invariants\<close>

text \<open>
  \<open>_in_request\<close> delimits exactly the serving of a request; a stop noted during a request has
  its alarm armed, at most the grace away; an alarm is armed only after a stop; no connection is waited for after one; the idle
  flag is raised only with nothing refused still held.
\<close>

definition loop_inv :: "server \<times> phase \<Rightarrow> bool" where
  "loop_inv st \<longleftrightarrow> (case st of (s, ph) \<Rightarrow>
     (in_request s \<longleftrightarrow> (\<exists>p ws. ph = Serving p ws))
     \<and> (stopping s \<and> in_request s \<longrightarrow> (\<exists>a. alarm s = Some a \<and> a \<le> clock s + STOP_GRACE))
     \<and> (alarm s \<noteq> None \<longrightarrow> stopping s)
     \<and> ((\<exists>d. ph = Waiting d) \<longrightarrow> \<not> stopping s)
     \<and> (idle s \<longrightarrow> refused s = [] \<and> (ph = Testing \<or> (\<exists>e. ph = Ended e)))
     \<and> ((\<exists>e. ph = Ended e) \<longrightarrow> alarm s = None \<and> \<not> listening s))"

lemma refuse_keeps:
  assumes "refuse p s = (r, t)"
  shows "in_request t = in_request s \<and> stopping t = stopping s \<and> idle t = idle s \<and> alarm t = alarm s
    \<and> clock t = clock s \<and> listening t = listening s"
  using assms
  by (auto simp: refuse_def seq_p_def bind_p_def catch_p_def sock_sendall_def sock_shutdown_wr_def
      prog_simps emit_def trim_refused_eq Let_def split: option.splits if_splits)

lemma verify_keeps:
  assumes "verify_request p s = (r, t)"
  shows "in_request t = in_request s \<and> stopping t = stopping s \<and> idle t = idle s \<and> alarm t = alarm s
    \<and> clock t = clock s \<and> listening t = listening s"
proof -
  have "in_request t = in_request s \<and> stopping t = stopping s \<and> idle t = idle s \<and> alarm t = alarm s
      \<and> clock t = clock s \<and> listening t = listening s" if "refuse p (s\<lparr>errlog := l\<rparr>) = (q, t)" for l q
    using refuse_keeps [OF that] by simp
  note logged = this
  show ?thesis
    using assms refuse_keeps [of p s _ t] logged
    by (auto simp: verify_request_def seq_p_def bind_p_def log_stderr_def prog_simps
        split: option.splits sum.splits if_splits prod.splits)
qed

lemma shutdown_keeps [simp]:
  "in_request (shutdown_request p s) = in_request s" "stopping (shutdown_request p s) = stopping s"
  "idle (shutdown_request p s) = idle s" "alarm (shutdown_request p s) = alarm s"
  "clock (shutdown_request p s) = clock s" "refused (shutdown_request p s) = refused s"
  "listening (shutdown_request p s) = listening s"
  by (simp_all add: shutdown_request_def close_sock_def emit_def)

lemma reap_keeps [simp]:
  "in_request (reap s) = in_request s" "stopping (reap s) = stopping s" "idle (reap s) = idle s"
  "alarm (reap s) = alarm s" "clock (reap s) = clock s" "listening (reap s) = listening s"
  by (simp_all add: reap_eq)

lemma stop_cases:
  "stop s = (b, t) \<Longrightarrow>
     (b = (stopping s \<or> \<not> in_request s)) \<and> stopping t \<and> in_request t = in_request s
     \<and> idle t = idle s \<and> refused t = refused s \<and> clock t = clock s \<and> listening t = listening s
     \<and> trace t = trace s \<and> alarm t = (if b then alarm s else Some (clock s + STOP_GRACE))"
  by (auto simp: stop_def Let_def split: if_splits)

lemma interrupt_inv: "loop_inv (s, ph) \<Longrightarrow> stop s' = (True, s1) \<Longrightarrow> in_request s' = in_request s \<Longrightarrow>
    idle s' = idle s \<Longrightarrow> refused s' = refused s \<Longrightarrow> loop_inv (interrupt ph s1)"
  by (cases ph) (auto simp: loop_inv_def interrupt_def wind_up_def dest: stop_cases)

lemma loop_inv_step:
  assumes "serve_step c st st'" and "loop_inv st"
  shows "loop_inv st'"
  using assms
proof (induction rule: serve_step.induct)
  case (admit p s s2 ws d)
  then show ?case using verify_keeps [OF admit(1)] by (auto simp: loop_inv_def)
next
  case (turn_away p s s2 ws d)
  then show ?case using verify_keeps [OF turn_away(1)] by (auto simp: loop_inv_def)
next
  case (verify_raises p s e s2 ws d)
  then show ?case using verify_keeps [OF verify_raises(1)] by (auto simp: loop_inv_def wind_up_def)
next
  case (signal_noted ph s s1)
  then show ?case by (auto simp: loop_inv_def running_def dest!: stop_cases)
next
  case (alarm_noted ph s a s1)
  then show ?case by (auto simp: loop_inv_def running_def dest!: stop_cases)
next
  case (signal_raises ph s s1)
  then show ?case by (auto intro: interrupt_inv)
next
  case (alarm_raises ph s a s1)
  then show ?case by (auto intro: interrupt_inv)
next
  case (pass_time ph dt s)
  then show ?case by (auto simp: loop_inv_def running_def)
qed (auto simp: loop_inv_def wind_up_def handle_timeout_def emit_def)

lemma loop_inv_run: "serve_run st cs st' \<Longrightarrow> loop_inv st \<Longrightarrow> loop_inv st'"
  by (induction rule: serve_run.induct) (auto intro: loop_inv_step)

lemma loop_inv_start: "loop_inv (fresh_server allowed timeout, Testing)"
  by (simp add: loop_inv_def fresh_server_def)

section \<open>Stopping\<close>

text \<open>How many signals a history holds.\<close>

definition signals :: "cause list \<Rightarrow> nat" where
  "signals cs = length (filter is_signal cs)"

lemma signals_append [simp]: "signals (cs @ [c]) = signals cs + (if is_signal c then 1 else 0)"
  by (simp add: signals_def)

text \<open>
  A history with no signal never stops the loop; a truncated response took two.
\<close>

definition counted :: "nat \<Rightarrow> server \<times> phase \<Rightarrow> bool" where
  "counted n st \<longleftrightarrow> (case st of (s, ph) \<Rightarrow>
     (stopping s \<longrightarrow> 1 \<le> n) \<and> ((\<exists>p ws. ph = Ended (Truncated p ws)) \<longrightarrow> 2 \<le> n)
     \<and> (ph = Ended Interrupted \<longrightarrow> 1 \<le> n) \<and> (ph = Ended Stopped \<longrightarrow> 1 \<le> n))"

lemma interrupt_counted:
  assumes "loop_inv (s, ph)" and "counted n (s, ph)" and "stop s' = (True, s1)"
    and "in_request s' = in_request s" and "stopping s' = stopping s"
  shows "counted (Suc n) (interrupt ph s1)"
  using assms by (cases ph) (auto simp: counted_def loop_inv_def interrupt_def wind_up_def dest!: stop_cases)

lemma counted_step:
  assumes "serve_step c st st'" and "loop_inv st" and "counted n st"
  shows "counted (n + (if is_signal c then 1 else 0)) st'"
  using assms
proof (induction rule: serve_step.induct)
  case (admit p s s2 ws d)
  then show ?case using verify_keeps [OF admit(1)] by (auto simp: counted_def)
next
  case (turn_away p s s2 ws d)
  then show ?case using verify_keeps [OF turn_away(1)] by (auto simp: counted_def)
next
  case (verify_raises p s e s2 ws d)
  then show ?case using verify_keeps [OF verify_raises(1)] by (auto simp: counted_def wind_up_def)
next
  case (signal_noted ph s s1)
  then show ?case by (auto simp: counted_def running_def dest!: stop_cases)
next
  case (alarm_noted ph s a s1)
  then show ?case by (auto simp: counted_def running_def dest!: stop_cases)
next
  case (signal_raises ph s s1)
  then show ?case by (auto intro: interrupt_counted)
next
  case (alarm_raises ph s a s1)
  then show ?case by (auto intro: interrupt_counted)
next
  case (pass_time ph dt s)
  then show ?case by (auto simp: counted_def running_def)
qed (auto simp: counted_def wind_up_def handle_timeout_def emit_def)

lemma counted_run:
  "serve_run st cs st' \<Longrightarrow> loop_inv st \<Longrightarrow> counted 0 st \<Longrightarrow> counted (signals cs) st'"
proof (induction rule: serve_run.induct)
  case (run_step st cs st' c st'')
  then show ?case using counted_step [OF run_step(2)] loop_inv_run by fastforce
qed (simp add: signals_def)

text \<open>
  C11. A response is cut off only if someone insists: in every run of the loop that ends with
  a request interrupted half way, at least two signals arrived, the second of them a repeated
  SIGTERM or the alarm of the grace period. And without any signal the loop ends only by
  going idle or by an exception from reading a peer's credentials.
\<close>

theorem truncated_only_if_insisted:
  assumes "serve_run (fresh_server allowed timeout, Testing) cs (s, Ended e)"
  shows "(\<forall>p ws. e = Truncated p ws \<longrightarrow> 2 \<le> length (filter is_signal cs))
    \<and> (filter is_signal cs = [] \<longrightarrow> e = Idled \<or> (\<exists>x. e = Raised x))"
proof -
  have "counted 0 (fresh_server allowed timeout, Testing)"
    by (simp add: counted_def fresh_server_def)
  from counted_run [OF assms loop_inv_start this] show ?thesis
    by (cases e) (auto simp: counted_def signals_def)
qed

lemma truncated_only_if_insisted_witness:
  "\<exists>cs s. serve_run (fresh_server None None, Testing) cs (s, Ended (Truncated (sample_peer 7 1000) [''x'']))
     \<and> 2 \<le> length (filter is_signal cs)"
proof -
  let ?s = "fresh_server None None" and ?p = "sample_peer 7 1000"
  let ?g = "get_request ?p ?s"
  let ?r = "?g\<lparr>in_request := True\<rparr>"
  let ?n = "?r\<lparr>stopping := True, alarm := Some 5\<rparr>"
  have "serve_step Loop (?s, Testing) (?s, Waiting (map_option (\<lambda>t. clock ?s + t) (serve_timeout ?s)))"
    by (rule test_wait) (simp_all add: fresh_server_def)
  then have 1: "serve_run (?s, Testing) [Loop] (?s, Waiting None)"
    using run_step [OF run_start] by (fastforce simp: fresh_server_def serve_timeout_def)
  have "verify_request ?p ?g = (Inr True, ?g)" by (rule server_gate.open_gate) (simp add: fresh_server_def)
  then have 2: "serve_run (?s, Testing) ([Loop] @ [Connects ?p [''x'']]) (?r, Serving ?p [''x''])"
    by (rule run_step [OF 1 admit])
  have "stop ?r = (False, ?n)"
    by (simp add: stop_def STOP_GRACE_def fresh_server_def Let_def get_request_def emit_def reap_eq)
  then have 3: "serve_run (?s, Testing) (([Loop] @ [Connects ?p [''x'']]) @ [Signal]) (?n, Serving ?p [''x''])"
    by (intro run_step [OF 2] signal_noted) (simp_all add: running_def)
  obtain t where "stop ?n = (True, t)" by (simp add: stop_def Let_def)
  then have "serve_step Signal (?n, Serving ?p [''x'']) (interrupt (Serving ?p [''x'']) t)"
    by (intro signal_raises) (simp_all add: running_def)
  then obtain t where run: "serve_run (?s, Testing) ((([Loop] @ [Connects ?p [''x'']]) @ [Signal]) @ [Signal])
      (t, Ended (Truncated ?p [''x'']))"
    using run_step [OF 3] by (auto simp: interrupt_def)
  with truncated_only_if_insisted [OF run] show ?thesis by blast
qed

text \<open>
  The first signal during a request changes nothing but the stop flag and the alarm: no
  byte is lost, the request goes on, and the alarm is five seconds away. Outside a request
  it ends the loop at once.
\<close>

theorem first_signal:
  assumes "loop_inv (s, ph)" and "\<not> stopping s" and "serve_step Signal (s, ph) st"
  shows "if in_request s
      then st = (s\<lparr>stopping := True, alarm := Some (clock s + 5)\<rparr>, ph)
      else st = (wind_up (s\<lparr>stopping := True\<rparr>), Ended Interrupted)"
  using assms(3,1,2)
proof (cases rule: serve_step.cases)
  case (signal_raises s1)
  then show ?thesis
    using assms(1,2) by (cases ph) (auto simp: stop_def Let_def interrupt_def loop_inv_def split: if_splits)
next
  case (signal_noted s1)
  then show ?thesis using assms(2) by (auto simp: stop_def Let_def STOP_GRACE_def split: if_splits)
qed

definition serving_state :: "server \<times> phase" where
  "serving_state = (sample_server\<lparr>in_request := True\<rparr>, Serving (sample_peer 7 1000) [''x''])"

lemma first_signal_witness:
  "\<forall>st. serve_step Signal serving_state st \<longrightarrow>
     st = (sample_server\<lparr>in_request := True, stopping := True, alarm := Some 5\<rparr>,
           Serving (sample_peer 7 1000) [''x''])"
proof (intro allI impI)
  fix st assume st: "serve_step Signal serving_state st"
  have "loop_inv serving_state" "\<not> stopping (fst serving_state)"
    by (simp_all add: loop_inv_def serving_state_def sample_server_def)
  with st first_signal [of "fst serving_state" "snd serving_state" st]
  show "st = (sample_server\<lparr>in_request := True, stopping := True, alarm := Some 5\<rparr>,
           Serving (sample_peer 7 1000) [''x''])"
    by (simp add: serving_state_def sample_server_def)
qed

text \<open>What is written on the sockets.\<close>

fun written :: "sock_event list \<Rightarrow> (nat \<times> bytes) list" where
  "written [] = []"
| "written (Sent n w # es) = (n, w) # written es"
| "written (_ # es) = written es"

lemma written_append [simp]: "written (es @ fs) = written es @ written fs"
  by (induction es rule: written.induct) simp_all

lemma written_sent [simp]: "written (map (Sent n) ws) = map (Pair n) ws"
  by (induction ws) simp_all

text \<open>A stop was noted during the request on \<open>p\<close>, whose handler still had \<open>ws\<close> to write.\<close>

definition finishing :: "peer \<Rightarrow> bytes list \<Rightarrow> sock_event list \<Rightarrow> server \<times> phase \<Rightarrow> bool" where
  "finishing p ws tr st \<longleftrightarrow> (case st of (s, ph) \<Rightarrow> stopping s \<and> \<not> idle s
     \<and> (case ph of
          Serving q rest \<Rightarrow> q = p \<and> (\<exists>done. ws = done @ rest \<and> trace s = tr @ map (Sent (sock p)) done)
        | Testing \<Rightarrow> \<exists>after. trace s = tr @ map (Sent (sock p)) ws @ after \<and> opened after = [] \<and> written after = []
        | Ended e \<Rightarrow> e = Stopped \<and> (\<exists>after. trace s = tr @ map (Sent (sock p)) ws @ after \<and> opened after = [] \<and> written after = [])
        | Waiting d \<Rightarrow> False))"

lemma shutdown_trace: "\<exists>after. trace (shutdown_request p s) = trace s @ after \<and> opened after = [] \<and> written after = []"
proof (cases "\<exists>e \<in> set (refused s). fst e = sock p")
  case False
  then show ?thesis
    by (cases "shut_fault p = None")
      (simp_all add: shutdown_request_def close_sock_def emit_def)
qed (simp add: shutdown_request_def)

lemma finishing_step:
  assumes "serve_step c st st'" and "finishing p ws tr st" and "\<not> is_signal c"
  shows "finishing p ws tr st'"
  using assms
proof (induction rule: serve_step.induct)
  case (request_done s q)
  then have "q = p" "trace s = tr @ map (Sent (sock p)) ws" "stopping s" "\<not> idle s"
    by (auto simp: finishing_def)
  then show ?case using shutdown_trace [of p s] by (auto simp: finishing_def)
next
  case (request_fails s q)
  then have "q = p" "trace s = tr @ map (Sent (sock p)) ws" "stopping s" "\<not> idle s"
    by (auto simp: finishing_def)
  then show ?case
    using shutdown_trace [of p "s\<lparr>in_request := False,
       errlog := errlog s @ [us ''Exception occurred during processing of request'']\<rparr>"]
    by (auto simp: finishing_def)
next
  case (write_chunk s q w rest)
  then obtain don where "q = p" "ws = don @ w # rest" "trace s = tr @ map (Sent (sock p)) don"
    "stopping s" "\<not> idle s"
    by (auto simp: finishing_def)
  then show ?case
    by (auto simp: finishing_def emit_def intro!: exI [of _ "don @ [w]"])
qed (auto simp: finishing_def wind_up_def running_def split: phase.splits)

lemma finishing_run:
  "serve_run st cs st' \<Longrightarrow> finishing p ws tr st \<Longrightarrow> filter is_signal cs = [] \<Longrightarrow> finishing p ws tr st'"
  by (induction rule: serve_run.induct) (auto intro: finishing_step split: if_splits)

text \<open>
  C21. Once a stop has been noted during a request and no further signal arrives, the loop
  can only finish: everything the handler still had to write is written, in order, and nothing
  else; no new connection is accepted; and if the loop ends it ends as stopped. A client never gets a
  partial response from a single SIGTERM.
\<close>

theorem graceful_stop:
  assumes "loop_inv (s, Serving p ws)" and "stopping s"
    and "serve_run (s, Serving p ws) cs (t, Ended e)" and "filter is_signal cs = []"
  shows "e = Stopped \<and> (\<exists>after. trace t = trace s @ map (Sent (sock p)) ws @ after \<and> opened after = [] \<and> written after = [])"
proof -
  have "finishing p ws (trace s) (s, Serving p ws)"
    using assms(1,2) by (auto simp: finishing_def loop_inv_def)
  from finishing_run [OF assms(3) this assms(4)] show ?thesis by (simp add: finishing_def)
qed

lemma serve_run_trans: "serve_run b ds c \<Longrightarrow> serve_run a cs b \<Longrightarrow> serve_run a (cs @ ds) c"
proof (induction rule: serve_run.induct)
  case (run_step st ds st' d st'')
  then have "serve_run a ((cs @ ds) @ [d]) st''" by (intro serve_run.run_step)
  then show ?case by simp
qed simp

lemma write_all: "\<exists>t. serve_run (s, Serving p ws) (replicate (length ws) Loop) (t, Serving p [])
    \<and> stopping t = stopping s \<and> idle t = idle s"
proof (induction ws arbitrary: s)
  case (Cons w ws)
  let ?s = "emit (Sent (sock p) w) s"
  obtain t where t: "serve_run (?s, Serving p ws) (replicate (length ws) Loop) (t, Serving p [])"
    "stopping t = stopping s" "idle t = idle s"
    using Cons.IH [of ?s] by (auto simp: emit_def)
  have "serve_run (s, Serving p (w # ws)) ([] @ [Loop]) (?s, Serving p ws)"
    by (rule run_step [OF run_start write_chunk])
  from serve_run_trans [OF t(1) this] t(2,3) show ?case by auto
qed (auto intro: run_start)

lemma stop_by_steps:
  assumes "loop_inv (s, Serving p ws)" and "stopping s"
  shows "\<exists>t. serve_run (s, Serving p ws) (replicate (length ws + 2) Loop) (t, Ended Stopped)"
proof -
  obtain t where t: "serve_run (s, Serving p ws) (replicate (length ws) Loop) (t, Serving p [])"
    "stopping t" "\<not> idle t"
    using write_all [of s p ws] assms by (auto simp: loop_inv_def)
  let ?u = "(shutdown_request p t)\<lparr>in_request := False\<rparr>"
  have "serve_step Loop (t, Serving p []) (?u, Testing)" by (rule request_done)
  moreover have "serve_step Loop (?u, Testing) (wind_up ?u, Ended Stopped)"
    using t(2,3) by (intro test_stop) simp_all
  ultimately have "serve_run (s, Serving p ws) ((replicate (length ws) Loop @ [Loop]) @ [Loop]) (wind_up ?u, Ended Stopped)"
    by (intro run_step [OF run_step [OF t(1)]])
  moreover have "(replicate (length ws) Loop @ [Loop]) @ [Loop] = replicate (length ws + 2) Loop"
    by (simp add: replicate_append_same [symmetric])
  ultimately show ?thesis by metis
qed

text \<open>
  C19. And it can finish: from any such state the loop's own steps (one per write left, one
  to end the request, one to leave the loop) reach the end.
\<close>

theorem stop_reached:
  assumes "loop_inv (s, Serving p ws)" and "stopping s"
  shows "\<exists>t. serve_run (s, Serving p ws) (replicate (length ws + 2) Loop) (t, Ended Stopped)"
  using assms by (rule stop_by_steps)

text \<open>After the signal at whose time the alarm was set, while no other comes.\<close>

definition pending :: "peer \<Rightarrow> bytes list \<Rightarrow> rat \<Rightarrow> server \<times> phase \<Rightarrow> bool" where
  "pending p ws a st \<longleftrightarrow> (case st of (s, ph) \<Rightarrow> stopping s \<and> \<not> idle s
     \<and> (case ph of
          Serving q rest \<Rightarrow> q = p \<and> alarm s = Some a \<and> (\<exists>written. ws = written @ rest)
        | Testing \<Rightarrow> True
        | Waiting d \<Rightarrow> False
        | Ended e \<Rightarrow> e = Stopped))"

lemma pending_step:
  assumes "serve_step c st st'" and "pending p ws a st" and "\<not> is_signal c"
  shows "pending p ws a st'"
  using assms
proof (induction rule: serve_step.induct)
  case (write_chunk s q w rest)
  then obtain don where "q = p" "ws = don @ w # rest" "alarm s = Some a" "stopping s" "\<not> idle s"
    by (auto simp: pending_def)
  then show ?case by (auto simp: pending_def emit_def intro!: exI [of _ "don @ [w]"])
qed (auto simp: pending_def wind_up_def running_def split: phase.splits)

lemma pending_run:
  "serve_run st cs st' \<Longrightarrow> pending p ws a st \<Longrightarrow> filter is_signal cs = [] \<Longrightarrow> pending p ws a st'"
  by (induction rule: serve_run.induct) (auto intro: pending_step split: if_splits)

lemma signal_pending:
  assumes "loop_inv (s, Serving p ws)" and "\<not> stopping s" and "serve_step Signal (s, Serving p ws) st"
  shows "st = (s\<lparr>stopping := True, alarm := Some (clock s + 5)\<rparr>, Serving p ws)"
proof -
  have "in_request s" using assms(1) by (simp add: loop_inv_def)
  with assms(2) have "stop s = (False, s\<lparr>stopping := True, alarm := Some (clock s + 5)\<rparr>)"
    by (simp add: stop_def Let_def STOP_GRACE_def)
  with assms(3) show ?thesis by (auto elim: serving_step)
qed

text \<open>
  C20. One stop signal during a request is enough, and the wait for that request is bounded. The signal itself cuts
  nothing: the request goes on with all it has to write. From then on, as long as no other signal comes,
  either the request is still served, and then the alarm goes off five seconds after the signal and not earlier, whatever has
  happened in between, and ends the loop there with the listening socket closed, as does a second signal at any time; or the
  request is over, and the loop's next step ends it; it never waits for a connection again.
\<close>

theorem stop_bounded:
  assumes "loop_inv (s, Serving p ws)" and "\<not> stopping s" and "serve_step Signal (s, Serving p ws) st"
    and "serve_run st cs (t, ph)" and "filter is_signal cs = []"
  shows "snd st = Serving p ws \<and> trace (fst st) = trace s
    \<and> (case ph of
         Serving q rest \<Rightarrow> q = p \<and> (\<exists>written. ws = written @ rest)
           \<and> (\<forall>u. (\<exists>e. serve_step Alarm (t, ph) (u, e)) \<longrightarrow> clock s + 5 \<le> clock t)
           \<and> (clock s + 5 \<le> clock t \<longrightarrow> (\<exists>u. serve_step Alarm (t, ph) (u, Ended (Truncated p rest)) \<and> \<not> listening u))
           \<and> (\<exists>u. serve_step Signal (t, ph) (u, Ended (Truncated p rest)) \<and> \<not> listening u)
       | Testing \<Rightarrow> \<exists>u. serve_step Loop (t, ph) (u, Ended Stopped) \<and> \<not> listening u
       | Waiting d \<Rightarrow> False
       | Ended e \<Rightarrow> e = Stopped)"
proof -
  note st = signal_pending [OF assms(1-3)]
  have "\<not> idle s" using assms(1) by (auto simp: loop_inv_def)
  then have "pending p ws (clock s + 5) st" by (simp add: pending_def st)
  from pending_run [OF assms(4) this assms(5)] have pend: "pending p ws (clock s + 5) (t, ph)" .
  show ?thesis
  proof (cases ph)
    case (Serving q rest)
    with pend have q: "q = p" "alarm t = Some (clock s + 5)" "\<exists>written. ws = written @ rest" "stopping t"
      by (auto simp: pending_def)
    obtain u where "stop t = (True, u)" using q(4) by (simp add: stop_def Let_def)
    then have "serve_step Signal (t, ph) (interrupt ph u)" by (rule signal_raises [rotated]) (simp add: running_def Serving)
    then have 1: "\<exists>u. serve_step Signal (t, ph) (u, Ended (Truncated p rest)) \<and> \<not> listening u"
      using Serving q(1) by (auto simp: interrupt_def wind_up_def)
    obtain v where "stop (t\<lparr>alarm := None\<rparr>) = (True, v)" using q(4) by (simp add: stop_def Let_def)
    then have "serve_step Alarm (t, ph) (interrupt ph v)" if "clock s + 5 \<le> clock t"
      using that q(2) by (intro alarm_raises) (simp_all add: running_def Serving)
    then have 2: "\<exists>u. serve_step Alarm (t, ph) (u, Ended (Truncated p rest)) \<and> \<not> listening u" if "clock s + 5 \<le> clock t"
      using Serving q(1) that by (fastforce simp: interrupt_def wind_up_def)
    have "clock s + 5 \<le> clock t" if "serve_step Alarm (t, ph) x" for x
      using that q(2) unfolding Serving by (auto elim: serving_step)
    with 1 2 q(1,3) show ?thesis by (auto simp: st Serving)
  next
    case Testing
    with pend have "serve_step Loop (t, ph) (wind_up t, Ended Stopped)"
      by (auto simp: pending_def intro: test_stop)
    then show ?thesis by (auto simp: st Testing wind_up_def)
  qed (use pend in \<open>auto simp: pending_def st\<close>)
qed

definition stopping_server :: server where
  "stopping_server = sample_server\<lparr>in_request := True, stopping := True, alarm := Some 5\<rparr>"

lemma stopping_inv: "loop_inv (stopping_server, Serving (sample_peer 7 1000) [''a'', ''b''])"
  by (simp add: loop_inv_def stopping_server_def sample_server_def STOP_GRACE_def)

lemma stop_reached_witness:
  "\<exists>t. serve_run (stopping_server, Serving (sample_peer 7 1000) [''a'', ''b'']) (replicate 4 Loop) (t, Ended Stopped)"
  using stop_reached [OF stopping_inv] by (simp add: stopping_server_def eval_nat_numeral)

lemma stop_bounded_witness:
  "let s = sample_server\<lparr>in_request := True, stopping := True, alarm := Some 5, clock := 5\<rparr>
   in serve_step Signal serving_state (sample_server\<lparr>in_request := True, stopping := True, alarm := Some 5\<rparr>, snd serving_state)
     \<and> (\<exists>u. serve_step Alarm (s, snd serving_state) (u, Ended (Truncated (sample_peer 7 1000) [''x''])) \<and> \<not> listening u)"
proof -
  let ?s = "sample_server\<lparr>in_request := True\<rparr>" and ?p = "sample_peer 7 1000"
  let ?n = "?s\<lparr>stopping := True, alarm := Some 5\<rparr>"
  have clk: "clock sample_server = 0" by (simp add: sample_server_def)
  have inv: "loop_inv (?s, Serving ?p [''x''])" "\<not> stopping ?s" by (simp_all add: loop_inv_def sample_server_def)
  have "stop ?s = (False, ?n)" by (simp add: stop_def Let_def STOP_GRACE_def sample_server_def)
  then have sig: "serve_step Signal (?s, Serving ?p [''x'']) (?n, Serving ?p [''x''])"
    by (intro signal_noted) (simp_all add: running_def)
  have "serve_step (Passes 5) (?n, Serving ?p [''x'']) (?n\<lparr>clock := clock ?n + 5\<rparr>, Serving ?p [''x''])"
    by (rule pass_time) (simp_all add: running_def)
  then have run: "serve_run (?n, Serving ?p [''x'']) ([] @ [Passes 5]) (?n\<lparr>clock := 5\<rparr>, Serving ?p [''x''])"
    using clk by (intro run_step [OF run_start]) simp
  from stop_bounded [OF inv sig run] sig clk show ?thesis by (auto simp: serving_state_def)
qed

lemma graceful_stop_witness:
  "\<exists>t. serve_run (stopping_server, Serving (sample_peer 7 1000) [''a'', ''b'']) [Loop, Loop, Loop, Loop] (t, Ended Stopped)
     \<and> (\<exists>after. trace t = trace stopping_server @ [Sent 7 ''a'', Sent 7 ''b''] @ after \<and> opened after = [] \<and> written after = [])"
proof -
  let ?p = "sample_peer 7 1000" and ?s0 = stopping_server
  let ?s1 = "emit (Sent (sock ?p) ''a'') ?s0"
  let ?s2 = "emit (Sent (sock ?p) ''b'') ?s1"
  let ?s3 = "(shutdown_request ?p ?s2)\<lparr>in_request := False\<rparr>"
  have sock: "sock ?p = 7" by (simp add: sample_peer_def)
  have stop: "stopping ?s0" "\<not> idle ?s0" by (simp_all add: stopping_server_def sample_server_def)
  have "serve_run (?s0, Serving ?p [''a'', ''b'']) ([] @ [Loop]) (?s1, Serving ?p [''b''])"
    by (rule run_step [OF run_start write_chunk])
  then have "serve_run (?s0, Serving ?p [''a'', ''b'']) (([] @ [Loop]) @ [Loop]) (?s2, Serving ?p [])"
    by (rule run_step [OF _ write_chunk])
  then have "serve_run (?s0, Serving ?p [''a'', ''b'']) ((([] @ [Loop]) @ [Loop]) @ [Loop]) (?s3, Testing)"
    by (rule run_step [OF _ request_done])
  moreover have "serve_step Loop (?s3, Testing) (wind_up ?s3, Ended Stopped)"
    using stop by (intro test_stop) (simp_all add: emit_def)
  ultimately have run: "serve_run (?s0, Serving ?p [''a'', ''b'']) (((([] @ [Loop]) @ [Loop]) @ [Loop]) @ [Loop])
      (wind_up ?s3, Ended Stopped)"
    by (rule run_step)
  from graceful_stop [OF stopping_inv stop(1) run] run sock show ?thesis by auto
qed

section \<open>Going idle\<close>

text \<open>The wait can only expire with nothing held if an idle timeout is set.\<close>

definition idle_inv :: "server \<times> phase \<Rightarrow> bool" where
  "idle_inv st \<longleftrightarrow> (case st of (s, ph) \<Rightarrow>
     (idle s \<longrightarrow> idle_timeout s \<noteq> None)
     \<and> (\<forall>d. ph = Waiting (Some d) \<longrightarrow> refused s \<noteq> [] \<or> idle_timeout s \<noteq> None)
     \<and> (ph = Ended Idled \<longrightarrow> idle s))"

lemma verify_idle_timeout:
  assumes "verify_request p s = (r, t)"
  shows "idle_timeout t = idle_timeout s"
proof -
  have "idle_timeout t = idle_timeout s" if "refuse p s = (q, t)" for s q
    using that by (auto simp: refuse_def seq_p_def bind_p_def catch_p_def sock_sendall_def
        sock_shutdown_wr_def prog_simps emit_def trim_refused_eq Let_def split: option.splits if_splits)
  note r = this
  show ?thesis
    using assms r [of s] r [of "s\<lparr>errlog := l\<rparr>" for l]
    by (auto simp: verify_request_def seq_p_def bind_p_def log_stderr_def prog_simps
        split: option.splits sum.splits if_splits prod.splits)
qed

lemma idle_timeout_keeps [simp]:
  "idle_timeout (shutdown_request p s) = idle_timeout s" "idle_timeout (reap s) = idle_timeout s"
  by (simp_all add: shutdown_request_def close_sock_def emit_def reap_eq)

lemma stop_idle_timeout: "stop s = (b, t) \<Longrightarrow> idle_timeout t = idle_timeout s"
  by (auto simp: stop_def Let_def split: if_splits)

lemma interrupt_idle_inv:
  "idle_inv (s, ph) \<Longrightarrow> running ph \<Longrightarrow> stop s' = (b, s1) \<Longrightarrow> idle s' = idle s \<Longrightarrow>
   idle_timeout s' = idle_timeout s \<Longrightarrow> idle_inv (interrupt ph s1)"
  using stop_cases [of s' b s1] stop_idle_timeout [of s' b s1]
  by (cases ph) (auto simp: idle_inv_def interrupt_def wind_up_def)

lemma idle_inv_step:
  assumes "serve_step c st st'" and "idle_inv st"
  shows "idle_inv st'"
  using assms
proof (induction rule: serve_step.induct)
  case (test_wait s)
  then show ?case by (auto simp: idle_inv_def serve_timeout_def split: if_splits)
next
  case (admit p s s2 ws d)
  then show ?case
    using verify_keeps [OF admit(1)] verify_idle_timeout [OF admit(1)] by (auto simp: idle_inv_def)
next
  case (turn_away p s s2 ws d)
  then show ?case
    using verify_keeps [OF turn_away(1)] verify_idle_timeout [OF turn_away(1)] by (auto simp: idle_inv_def)
next
  case (verify_raises p s e s2 ws d)
  then show ?case
    using verify_keeps [OF verify_raises(1)] verify_idle_timeout [OF verify_raises(1)]
    by (auto simp: idle_inv_def wind_up_def)
next
  case (signal_noted ph s s1)
  then show ?case
    using stop_cases [OF signal_noted(2)] stop_idle_timeout [OF signal_noted(2)]
    by (auto simp: idle_inv_def running_def)
next
  case (alarm_noted ph s a s1)
  then show ?case
    using stop_cases [OF alarm_noted(4)] stop_idle_timeout [OF alarm_noted(4)]
    by (auto simp: idle_inv_def running_def)
next
  case (signal_raises ph s s1)
  then show ?case by (auto intro: interrupt_idle_inv)
next
  case (alarm_raises ph s a s1)
  then show ?case by (auto intro: interrupt_idle_inv)
qed (auto simp: idle_inv_def wind_up_def handle_timeout_def emit_def running_def)

lemma idle_inv_run: "serve_run st cs st' \<Longrightarrow> idle_inv st \<Longrightarrow> idle_inv st'"
  by (induction rule: serve_run.induct) (auto intro: idle_inv_step)

text \<open>
  The server exits for idleness only if it was given an idle timeout, and never with a
  refused connection still waiting for its deferred close.
\<close>

theorem idle_exit:
  assumes "serve_run (fresh_server allowed timeout, Testing) cs (s, Ended Idled)"
  shows "refused s = [] \<and> idle_timeout s \<noteq> None"
proof -
  have "idle_inv (fresh_server allowed timeout, Testing)" by (simp add: idle_inv_def fresh_server_def)
  from idle_inv_run [OF assms this] loop_inv_run [OF assms loop_inv_start] show ?thesis
    by (simp add: idle_inv_def loop_inv_def)
qed

lemma idle_exit_witness:
  "\<exists>s cs. serve_run (fresh_server None (Some 30), Testing) cs (s, Ended Idled)
     \<and> refused s = [] \<and> idle_timeout s \<noteq> None"
proof -
  let ?s = "fresh_server None (Some 30)"
  let ?l = "?s\<lparr>clock := clock ?s + 30\<rparr>"
  have "serve_step Loop (?s, Testing) (?s, Waiting (map_option (\<lambda>t. clock ?s + t) (serve_timeout ?s)))"
    by (rule test_wait) (simp_all add: fresh_server_def)
  then have "serve_step Loop (?s, Testing) (?s, Waiting (Some 30))"
    by (simp add: fresh_server_def serve_timeout_def)
  then have 1: "serve_run (?s, Testing) ([] @ [Loop]) (?s, Waiting (Some 30))"
    by (rule run_step [OF run_start])
  have 2: "serve_run (?s, Testing) (([] @ [Loop]) @ [Passes 30]) (?l, Waiting (Some 30))"
    by (rule run_step [OF 1 pass_time]) (simp_all add: running_def)
  have 3: "serve_run (?s, Testing) ((([] @ [Loop]) @ [Passes 30]) @ [Loop]) (handle_timeout ?l, Testing)"
    by (rule run_step [OF 2 expire]) (simp add: fresh_server_def)
  have "idle (handle_timeout ?l)" by (simp add: handle_timeout_def fresh_server_def)
  then have run: "\<exists>t. serve_run (?s, Testing) (((([] @ [Loop]) @ [Passes 30]) @ [Loop]) @ [Loop]) (t, Ended Idled)"
    using run_step [OF 3 test_idle] by blast
  then obtain t where t: "serve_run (?s, Testing) (((([] @ [Loop]) @ [Passes 30]) @ [Loop]) @ [Loop]) (t, Ended Idled)"
    by blast
  from idle_exit [OF t] t show ?thesis by blast
qed

end
