(* ===== verification/Argparse.thy ===== *)
theory Argparse
  imports PyText
begin

text \<open>
  \<open>argparse\<close> of CPython 3.11, as far as the programs use it: parsers all of whose arguments are
  options, each a flag, an option with one value, or \<open>--help\<close>. A command line is first classified
  word by word, then its options are taken from left to right; a usage error exits with status 2,
  \<open>--help\<close> with 0. The texts printed on these exits are not kept. The last section has how parsing ends:
  with which statuses, and with which exceptions of a conversion.
\<close>

section \<open>Decimal digits\<close>

text \<open>
  \<open>str.isdecimal\<close> and the digits \<open>int\<close> reads in an arbitrary text: runs of ten code points, given by
  their zeros. \<open>int\<close> replaces them by the ASCII digits before it reads the number.
\<close>

definition decimal_zeros :: "int list" where
  "decimal_zeros = [48, 1632, 1776, 1984, 2406, 2534, 2662, 2790, 2918, 3046, 3174, 3302, 3430, 3558,
     3664, 3792, 3872, 4160, 4240, 6112, 6160, 6470, 6608, 6784, 6800, 6992, 7088, 7232, 7248, 42528,
     43216, 43264, 43472, 43504, 43600, 44016, 65296, 66720, 68912, 69734, 69872, 69942, 70096, 70384,
     70736, 70864, 71248, 71360, 71472, 71904, 72016, 72784, 73040, 73120, 92768, 92864, 93008, 120782,
     120792, 120802, 120812, 120822, 123200, 123632, 125264, 130032]"

definition decimal :: "int \<Rightarrow> int option" where
  "decimal c = map_option (\<lambda>z. c - z) (find (\<lambda>z. z \<le> c \<and> c \<le> z + 9) decimal_zeros)"

definition ascii_digit :: "int \<Rightarrow> int" where
  "ascii_digit c = (case decimal c of None \<Rightarrow> c | Some d \<Rightarrow> 48 + d)"

definition text_int :: "ustr \<Rightarrow> exn + int" where
  "text_int s = py_int (map ascii_digit s)"

lemma decimal_ascii: "c < 128 \<Longrightarrow> decimal c = (if is_digit c then Some (c - 48) else None)"
  by (simp add: decimal_def decimal_zeros_def is_digit_def)

lemma text_int_ascii: "ascii s \<Longrightarrow> text_int s = py_int s"
proof -
  assume "ascii s"
  then have "map ascii_digit s = s"
    by (intro map_idI) (auto simp: ascii_iff ascii_digit_def decimal_ascii)
  then show ?thesis by (simp add: text_int_def)
qed

lemma text_int_error: "text_int s = Inl e \<Longrightarrow> is_ValueError e"
  unfolding text_int_def by (rule py_int_error)

text \<open>\<open>^-\d+$|^-\d*\.\d+$\<close>, where \<open>$\<close> also matches before a final newline.\<close>

definition decimals :: "ustr \<Rightarrow> bool" where
  "decimals s \<longleftrightarrow> list_all (\<lambda>c. decimal c \<noteq> None) s"

definition negative_number :: "ustr \<Rightarrow> bool" where
  "negative_number s \<longleftrightarrow>
     (case if s \<noteq> [] \<and> last s = 10 then butlast s else s of
        [] \<Rightarrow> False
      | c # r \<Rightarrow> c = 45 \<and> (case after 46 r of
            None \<Rightarrow> r \<noteq> [] \<and> decimals r
          | Some f \<Rightarrow> decimals (before 46 r) \<and> f \<noteq> [] \<and> decimals f))"

section \<open>A parser\<close>

text \<open>
  What an option does to the namespace: \<open>store_true\<close>, or \<open>store\<close> with the conversion of its type.
  Options are known by their option strings, all of which begin with a dash.
\<close>

datatype 'n action =
    Help
  | Store_true "'n \<Rightarrow> 'n"
  | Store "ustr \<Rightarrow> exn + ('n \<Rightarrow> 'n)"

type_synonym 'n options = "(ustr \<times> 'n action) list"

fun takes_value :: "'n action \<Rightarrow> bool" where
  "takes_value (Store _) = True"
| "takes_value _ = False"

text \<open>
  What a word is taken for: the option, none if there is no such option, its option string, and what
  follows in the same word, with the separator \<open>"="\<close> or \<open>""\<close>.
\<close>

type_synonym 'n option_tuple = "'n action option \<times> ustr \<times> (ustr \<times> ustr) option"

section \<open>Classifying the words\<close>

text \<open>\<open>_get_option_tuples\<close>: long options may be abbreviated, short ones carry their value.\<close>

definition option_tuples :: "'n options \<Rightarrow> ustr \<Rightarrow> 'n option_tuple list" where
  "option_tuples opts s =
     (if take 2 s = us ''--''
      then List.map_filter (\<lambda>(name, a).
             if py_startswith (before 61 s) name
               then Some (Some a, name, map_option (\<lambda>v. (us ''='', v)) (after 61 s)) else None) opts
      else List.map_filter (\<lambda>(name, a).
             if name = take 2 s then Some (Some a, name, Some ([], drop 2 s))
             else if py_startswith s name then Some (Some a, name, None) else None) opts)"

text \<open>\<open>_parse_optional\<close>: \<open>Inr None\<close> is a value; an ambiguous abbreviation is a usage error.\<close>

definition parse_optional :: "'n options \<Rightarrow> ustr \<Rightarrow> nat + 'n option_tuple option" where
  "parse_optional opts s =
     (if s = [] \<or> hd s \<noteq> 45 then Inr None
      else case map_of opts s of
        Some a \<Rightarrow> Inr (Some (Some a, s, None))
      | None \<Rightarrow>
          if length s = 1 then Inr None
          else (case (map_of opts (before 61 s), after 61 s) of
            (Some a, Some v) \<Rightarrow> Inr (Some (Some a, before 61 s, Some (us ''='', v)))
          | _ \<Rightarrow> (case option_tuples opts s of
              [] \<Rightarrow> if negative_number s \<or> 32 \<in> set s then Inr None else Inr (Some (None, s, None))
            | [t] \<Rightarrow> Inr (Some t)
            | _ \<Rightarrow> Inl 2)))"

datatype 'n word_kind = Argument | Terminator | Optional "'n option_tuple"

fun classify :: "'n options \<Rightarrow> ustr list \<Rightarrow> nat + (ustr \<times> 'n word_kind) list" where
  "classify opts [] = Inr []"
| "classify opts (s # r) =
     (if s = us ''--'' then Inr ((s, Terminator) # map (\<lambda>t. (t, Argument)) r)
      else case parse_optional opts s of
        Inl code \<Rightarrow> Inl code
      | Inr k \<Rightarrow> map_sum id (\<lambda>ws. (s, case k of None \<Rightarrow> Argument | Some t \<Rightarrow> Optional t) # ws) (classify opts r))"

section \<open>Taking the options\<close>

text \<open>
  \<open>consume_optional\<close>: the actions a word stands for, with their values, the unknown rest of a cluster
  of short options, and how many further words are used. \<open>next\<close> is the next word if it is a value.
\<close>

definition cluster_rest :: "ustr \<Rightarrow> (ustr \<times> ustr) option" where
  "cluster_rest s = (case s of [] \<Rightarrow> None | c # r \<Rightarrow> if c = 61 then Some ([61], r) else Some ([], s))"

type_synonym 'n taken = "('n action \<times> ustr option) list \<times> ustr list \<times> nat"

function (sequential) cluster ::
  "'n options \<Rightarrow> ustr option \<Rightarrow> 'n action \<Rightarrow> ustr \<Rightarrow> (ustr \<times> ustr) option \<Rightarrow> nat + 'n taken" where
  "cluster opts nxt a name None =
     (if takes_value a then (case nxt of None \<Rightarrow> Inl 2 | Some v \<Rightarrow> Inr ([(a, Some v)], [], 1))
      else Inr ([(a, None)], [], 0))"
| "cluster opts nxt a name (Some (sep, v)) =
     (if takes_value a then Inr ([(a, Some v)], [], 0)
      else if name ! 1 = 45 \<or> v = [] then Inl 2
      else if sep \<noteq> [] \<or> hd v = 45 then Inl 2
      else (case map_of opts [hd name, hd v] of
          None \<Rightarrow> Inr ([(a, None)], [hd name # v], 0)
        | Some b \<Rightarrow> map_sum id (\<lambda>(acts, r). ((a, None) # acts, r))
            (cluster opts nxt b [hd name, hd v] (cluster_rest (tl v)))))"
  by pat_completeness auto
termination
  by (relation "measure (\<lambda>(_, _, _, _, e). case e of None \<Rightarrow> 0 | Some (_, v) \<Rightarrow> Suc (length v))")
    (auto simp: cluster_rest_def neq_Nil_conv split: list.splits)

fun is_argument_error :: "exn \<Rightarrow> bool" where
  "is_argument_error (ArgumentTypeError _) = True"
| "is_argument_error (TypeError _) = True"
| "is_argument_error (ValueError _) = True"
| "is_argument_error _ = False"

text \<open>
  \<open>take_action\<close>: \<open>Inl\<close> an exception that escapes, \<open>Inr (Inl code)\<close> an exit. A \<open>Store\<close> always comes
  with a value (\<open>cluster_valued\<close>).
\<close>

fun take_actions :: "('n action \<times> ustr option) list \<Rightarrow> 'n \<Rightarrow> exn + nat + 'n" where
  "take_actions [] n = Inr (Inr n)"
| "take_actions ((Help, _) # acts) n = Inr (Inl 0)"
| "take_actions ((Store_true g, _) # acts) n = take_actions acts (g n)"
| "take_actions ((Store f, Some v) # acts) n =
     (case f v of
        Inl e \<Rightarrow> if is_argument_error e then Inr (Inl 2) else Inl e
      | Inr g \<Rightarrow> take_actions acts (g n))"
| "take_actions ((Store f, None) # acts) n = Inr (Inl 2)"

definition next_value :: "(ustr \<times> 'n word_kind) list \<Rightarrow> ustr option" where
  "next_value ws = (case ws of (v, Argument) # _ \<Rightarrow> Some v | _ \<Rightarrow> None)"

text \<open>The words of the line in order; what nothing takes is collected.\<close>

function (sequential) consume ::
  "'n options \<Rightarrow> (ustr \<times> 'n word_kind) list \<Rightarrow> 'n \<Rightarrow> ustr list \<Rightarrow> exn + nat + 'n \<times> ustr list" where
  "consume opts [] n extras = Inr (Inr (n, extras))"
| "consume opts ((w, Optional (Some a, name, e)) # ws) n extras =
     (case cluster opts (next_value ws) a name e of
        Inl code \<Rightarrow> Inr (Inl code)
      | Inr (acts, unknown, k) \<Rightarrow>
          (case take_actions acts n of
             Inl x \<Rightarrow> Inl x
           | Inr (Inl code) \<Rightarrow> Inr (Inl code)
           | Inr (Inr m) \<Rightarrow> consume opts (drop k ws) m (extras @ unknown)))"
| "consume opts ((w, _) # ws) n extras = consume opts ws n (extras @ [w])"
  by pat_completeness auto
termination
  by (relation "measure (\<lambda>(_, ws, _, _). length ws)") auto

text \<open>\<open>given\<close> says that the required options have been given.\<close>

definition parse_args :: "'n options \<Rightarrow> ('n \<Rightarrow> bool) \<Rightarrow> 'n \<Rightarrow> ustr list \<Rightarrow> exn + nat + 'n" where
  "parse_args opts given n argv =
     (case classify opts argv of
        Inl code \<Rightarrow> Inr (Inl code)
      | Inr ws \<Rightarrow>
          (case consume opts ws n [] of
             Inl x \<Rightarrow> Inl x
           | Inr (Inl code) \<Rightarrow> Inr (Inl code)
           | Inr (Inr (m, extras)) \<Rightarrow>
               if \<not> given m \<or> extras \<noteq> [] then Inr (Inl 2) else Inr (Inr m)))"

section \<open>How parsing ends\<close>

lemma cluster_None_Inr:
  "cluster opts nxt a name None = Inr (acts, u, k) \<Longrightarrow> \<exists>v. acts = [(a, v)] \<and> (takes_value a \<longleftrightarrow> v \<noteq> None)"
  by (auto split: if_splits option.splits)

lemma cluster_Some_Inr:
  assumes "cluster opts nxt a name (Some (sep, x)) = Inr (acts, u, k)"
  shows "(\<exists>v. acts = [(a, v)] \<and> (takes_value a \<longleftrightarrow> v \<noteq> None))
    \<or> (\<exists>b more. \<not> takes_value a \<and> map_of opts [hd name, hd x] = Some b \<and> acts = (a, None) # more
         \<and> cluster opts nxt b [hd name, hd x] (cluster_rest (tl x)) = Inr (more, u, k))"
  using assms by (auto split: if_splits option.splits simp: map_sum_def split: sum.splits)

lemma cluster_all:
  assumes "P a" and "\<And>b. b \<in> snd ` set opts \<Longrightarrow> P b"
  shows "cluster opts nxt a name e = Inr (acts, u, k) \<Longrightarrow> list_all (\<lambda>(b, v). P b \<and> (takes_value b \<longleftrightarrow> v \<noteq> None)) acts"
  using assms
proof (induction opts nxt a name e arbitrary: acts u k rule: cluster.induct)
  case (1 opts nxt a name)
  then show ?case using cluster_None_Inr [OF 1(1)] by auto
next
  case (2 opts nxt a name sep x)
  from cluster_Some_Inr [OF 2(2)] show ?case
  proof (elim disjE exE conjE)
    fix b more
    assume b: "\<not> takes_value a" "map_of opts [hd name, hd x] = Some b" "acts = (a, None) # more"
      "cluster opts nxt b [hd name, hd x] (cluster_rest (tl x)) = Inr (more, u, k)"
    then have "\<not> (name ! 1 = 45 \<or> x = [])" "\<not> (sep \<noteq> [] \<or> hd x = 45)" using 2(2) by (auto split: if_splits)
    moreover have "b \<in> snd ` set opts" using map_of_SomeD [OF b(2)] by force
    ultimately show ?thesis using 2(1) [OF b(1) _ _ b(2,4) 2(4) 2(4)] 2(3) b(1,3) by simp
  qed (use 2(3) in simp)
qed

lemma cluster_valued:
  "cluster opts nxt a name e = Inr (acts, u, k) \<Longrightarrow> (b, v) \<in> set acts \<Longrightarrow> takes_value b \<longleftrightarrow> v \<noteq> None"
  using cluster_all [of "\<lambda>_. True"] by (fastforce simp: list_all_iff)

lemma cluster_actions:
  "cluster opts nxt a name e = Inr (acts, u, k) \<Longrightarrow> a \<in> snd ` set opts \<Longrightarrow> (b, v) \<in> set acts \<Longrightarrow> b \<in> snd ` set opts"
  using cluster_all [of "\<lambda>b. b \<in> snd ` set opts" a] by (fastforce simp: list_all_iff)

lemma cluster_exit: "cluster opts nxt a name e = Inl code \<Longrightarrow> code = 2"
  by (induction opts nxt a name e rule: cluster.induct)
    (auto split: if_splits option.splits sum.splits simp: map_sum_def)

lemma take_actions_exit:
  "take_actions acts n = Inr (Inl code) \<Longrightarrow> code = 2 \<or> code = 0 \<and> (\<exists>v. (Help, v) \<in> set acts)"
  by (induction acts n rule: take_actions.induct) (auto split: sum.splits if_splits)

lemma take_actions_raise:
  "take_actions acts n = Inl x \<Longrightarrow> \<exists>f v. (Store f, Some v) \<in> set acts \<and> f v = Inl x \<and> \<not> is_argument_error x"
  by (induction acts n rule: take_actions.induct) (auto split: sum.splits if_splits)

text \<open>Every word that is taken for an option is taken for one of the parser's.\<close>

definition known :: "'n options \<Rightarrow> (ustr \<times> 'n word_kind) list \<Rightarrow> bool" where
  "known opts ws \<longleftrightarrow> (\<forall>w a r. (w, Optional (Some a, r)) \<in> set ws \<longrightarrow> a \<in> snd ` set opts)"

lemma option_tuples_known: "(Some a, r) \<in> set (option_tuples opts s) \<Longrightarrow> a \<in> snd ` set opts"
  by (force simp: option_tuples_def map_filter_def split: if_splits)

lemma parse_optional_known: "parse_optional opts s = Inr (Some (Some a, r)) \<Longrightarrow> a \<in> snd ` set opts"
  using option_tuples_known [of a r opts s]
  by (force simp: parse_optional_def dest: map_of_SomeD split: if_splits option.splits list.splits)

lemma parse_optional_exit: "parse_optional opts s = Inl code \<Longrightarrow> code = 2"
  by (auto simp: parse_optional_def split: if_splits option.splits list.splits)

lemma classify_known: "classify opts argv = Inr ws \<Longrightarrow> known opts ws"
proof (induction argv arbitrary: ws)
  case (Cons s r)
  then show ?case
    using parse_optional_known [of opts s]
    by (fastforce simp: known_def map_sum_def split: if_splits sum.splits option.splits)
qed (simp add: known_def)

lemma classify_exit: "classify opts argv = Inl code \<Longrightarrow> code = 2"
  by (induction argv) (auto simp: map_sum_def parse_optional_exit split: if_splits sum.splits)

lemma known_drop: "known opts ws \<Longrightarrow> known opts (drop k ws)"
  unfolding known_def by (blast dest: in_set_dropD)

lemma known_Cons: "known opts (w # ws) \<Longrightarrow> known opts ws"
  by (auto simp: known_def)

lemma consume_exit:
  "consume opts ws n extras = Inr (Inl code) \<Longrightarrow> known opts ws \<Longrightarrow> code = 2 \<or> code = 0 \<and> Help \<in> snd ` set opts"
proof (induction opts ws n extras rule: consume.induct)
  case (2 opts w a name e ws n extras)
  have a: "a \<in> snd ` set opts" using 2(3) by (force simp: known_def)
  show ?case
  proof (cases "cluster opts (next_value ws) a name e")
    case (Inl c)
    with 2(2) cluster_exit show ?thesis by force
  next
    case (Inr t)
    obtain acts u k where t: "t = (acts, u, k)" by (cases t)
    note c = Inr [unfolded t]
    show ?thesis
    proof (cases "take_actions acts n")
      case (Inr y)
      show ?thesis
      proof (cases y)
        case (Inl c')
        with 2(2) c Inr have "take_actions acts n = Inr (Inl code)" by simp
        from take_actions_exit [OF this] cluster_actions [OF c a] show ?thesis by blast
      next
        case (Inr m)
        with 2(2) c \<open>take_actions acts n = Inr y\<close> have "consume opts (drop k ws) m (extras @ u) = Inr (Inl code)" by simp
        with 2(1) [OF c refl refl \<open>take_actions acts n = Inr y\<close> Inr] known_drop known_Cons [OF 2(3)] show ?thesis by blast
      qed
    qed (use 2(2) c in simp)
  qed
qed (auto dest: known_Cons)

lemma consume_raise:
  "consume opts ws n extras = Inl x \<Longrightarrow> known opts ws \<Longrightarrow>
     \<exists>f v. Store f \<in> snd ` set opts \<and> f v = Inl x \<and> \<not> is_argument_error x"
proof (induction opts ws n extras rule: consume.induct)
  case (2 opts w a name e ws n extras)
  have a: "a \<in> snd ` set opts" using 2(3) by (force simp: known_def)
  show ?case
  proof (cases "cluster opts (next_value ws) a name e")
    case (Inr t)
    obtain acts u k where t: "t = (acts, u, k)" by (cases t)
    note c = Inr [unfolded t]
    show ?thesis
    proof (cases "take_actions acts n")
      case (Inl y)
      with 2(2) c have "take_actions acts n = Inl x" by simp
      from take_actions_raise [OF this] cluster_actions [OF c a] show ?thesis by blast
    next
      case (Inr y)
      show ?thesis
      proof (cases y)
        case (Inr m)
        with 2(2) c \<open>take_actions acts n = Inr y\<close> have "consume opts (drop k ws) m (extras @ u) = Inl x" by simp
        with 2(1) [OF c refl refl \<open>take_actions acts n = Inr y\<close> Inr] known_drop known_Cons [OF 2(3)] show ?thesis by blast
      qed (use 2(2) c \<open>take_actions acts n = Inr y\<close> in simp)
    qed
  qed (use 2(2) in simp)
qed (auto dest: known_Cons)

lemma parse_args_exit:
  assumes "parse_args opts given n argv = Inr (Inl code)"
  shows "code = 2 \<or> code = 0 \<and> Help \<in> snd ` set opts"
proof (cases "classify opts argv")
  case (Inl c)
  with assms classify_exit [OF Inl] show ?thesis by (simp add: parse_args_def)
next
  case (Inr ws)
  with assms have "code = 2 \<or> consume opts ws n [] = Inr (Inl code)"
    by (auto simp: parse_args_def split: sum.splits if_splits)
  then show ?thesis using consume_exit [OF _ classify_known [OF Inr]] by blast
qed

lemma parse_args_raise:
  assumes "parse_args opts given n argv = Inl x"
  shows "\<exists>f v. Store f \<in> snd ` set opts \<and> f v = Inl x \<and> \<not> is_argument_error x"
proof (cases "classify opts argv")
  case (Inr ws)
  with assms have "consume opts ws n [] = Inl x"
    by (auto simp: parse_args_def split: sum.splits if_splits)
  then show ?thesis by (rule consume_raise [OF _ classify_known [OF Inr]])
qed (use assms in \<open>simp add: parse_args_def\<close>)

lemma parse_args_given: "parse_args opts given n argv = Inr (Inr m) \<Longrightarrow> given m"
  by (auto simp: parse_args_def split: sum.splits if_splits)

end
