(* ===== verification/Startup.thy ===== *)
theory Startup
  imports Loop Argparse
begin

text \<open>
  Where the server's socket comes from, and \<open>main\<close>. The operating system is a record: a
  descriptor table, the file system's nodes with their modes, the calls made so far, and
  which calls the kernel refuses. \<open>sys.exit\<close> is not an \<open>OSError\<close>: it is a value of its own.
\<close>

section \<open>The operating system\<close>

definition AF_UNIX :: int where "AF_UNIX = 1"
definition AF_INET :: int where "AF_INET = 2"

datatype syscall =
    Dup nat
  | Socket_of_fd nat
  | Get_domain nat
  | Close_fd nat
  | New_socket int
  | Bind_path nat ustr
  | Resolve ustr
  | Bind_inet nat ustr int
  | Chmod ustr nat
  | Listen nat
  | Unlink ustr
  | Getsockname nat

text \<open>A descriptor: its socket domain, and whether it is listening.\<close>

record fdesc =
  domain :: int
  is_listening :: bool

record osys =
  fds :: "nat \<Rightarrow> fdesc option"
  max_fds :: nat
  nodes :: "ustr \<Rightarrow> nat option"
  umask :: nat
  families :: "int \<Rightarrow> bool"
  faults :: "syscall \<Rightarrow> exn option"
  calls :: "syscall list"
  stderr :: "ustr list"

definition EBADF :: exn where
  "EBADF = OSError PlainOSError (Some 9) (us ''[Errno 9] Bad file descriptor'')"

definition EMFILE :: exn where
  "EMFILE = OSError PlainOSError (Some 24) (us ''[Errno 24] Too many open files'')"

definition ENOENT :: exn where
  "ENOENT = OSError FileNotFoundError (Some 2) (us ''[Errno 2] No such file or directory'')"

definition EADDRINUSE :: exn where
  "EADDRINUSE = OSError PlainOSError (Some 98) (us ''[Errno 98] Address already in use'')"

text \<open>Every call is recorded; the kernel may refuse it.\<close>

definition syscall_p :: "syscall \<Rightarrow> (osys, unit) prog" where
  "syscall_p c s =
     (case faults s c of
        Some e \<Rightarrow> (Inl e, s\<lparr>calls := calls s @ [c]\<rparr>)
      | None \<Rightarrow> (Inr (), s\<lparr>calls := calls s @ [c]\<rparr>))"

definition free_fd :: "osys \<Rightarrow> nat option" where
  "free_fd s = find (\<lambda>n. fds s n = None) [0..<max_fds s]"

definition install_fd :: "fdesc \<Rightarrow> (osys, nat) prog" where
  "install_fd d s =
     (case free_fd s of
        None \<Rightarrow> (Inl EMFILE, s)
      | Some n \<Rightarrow> (Inr n, s\<lparr>fds := (fds s)(n \<mapsto> d)\<rparr>))"

definition lookup_fd :: "nat \<Rightarrow> (osys, fdesc) prog" where
  "lookup_fd fd s = (case fds s fd of None \<Rightarrow> (Inl EBADF, s) | Some d \<Rightarrow> (Inr d, s))"

definition os_dup :: "nat \<Rightarrow> (osys, nat) prog" where
  "os_dup fd = seq_p (syscall_p (Dup fd)) (bind_p (lookup_fd fd) install_fd)"

definition os_unlink :: "ustr \<Rightarrow> (osys, unit) prog" where
  "os_unlink p = seq_p (syscall_p (Unlink p))
     (\<lambda>s. if nodes s p = None then (Inl ENOENT, s) else (Inr (), s\<lparr>nodes := (nodes s)(p := None)\<rparr>))"

definition os_chmod :: "ustr \<Rightarrow> nat \<Rightarrow> (osys, unit) prog" where
  "os_chmod p mode = seq_p (syscall_p (Chmod p mode))
     (\<lambda>s. if nodes s p = None then (Inl ENOENT, s) else (Inr (), s\<lparr>nodes := (nodes s)(p \<mapsto> mode)\<rparr>))"

section \<open>Socket objects\<close>

record pysock =
  sock_fd :: nat
  family :: int

definition socket_new :: "int \<Rightarrow> (osys, pysock) prog" where
  "socket_new fam = seq_p (syscall_p (New_socket fam))
     (bind_p (install_fd \<lparr>domain = fam, is_listening = False\<rparr>)
       (\<lambda>n. return_p \<lparr>sock_fd = n, family = fam\<rparr>))"

text \<open>\<open>socket.socket(fileno=fd)\<close>, with the family given or left to be inferred.\<close>

definition socket_fileno :: "int option \<Rightarrow> nat \<Rightarrow> (osys, pysock) prog" where
  "socket_fileno fam fd = seq_p (syscall_p (Socket_of_fd fd))
     (bind_p (lookup_fd fd) (\<lambda>d.
      return_p \<lparr>sock_fd = fd, family = (case fam of Some f \<Rightarrow> f | None \<Rightarrow> domain d)\<rparr>))"

definition socket_close :: "pysock \<Rightarrow> (osys, unit) prog" where
  "socket_close so = seq_p (modify_p (\<lambda>s. s\<lparr>fds := (fds s)(sock_fd so := None)\<rparr>))
     (syscall_p (Close_fd (sock_fd so)))"

definition get_domain :: "pysock \<Rightarrow> (osys, int) prog" where
  "get_domain so = seq_p (syscall_p (Get_domain (sock_fd so)))
     (bind_p (lookup_fd (sock_fd so)) (\<lambda>d. return_p (domain d)))"

text \<open>\<open>socket.AddressFamily(n)\<close> is an enumeration: an unknown number is a \<open>ValueError\<close>.\<close>

definition address_family :: "int \<Rightarrow> (osys, int) prog" where
  "address_family n s =
     (if families s n then (Inr n, s) else (Inl (ValueError (str_int n @ us '' is not a valid AddressFamily'')), s))"

definition socket_bind_path :: "pysock \<Rightarrow> ustr \<Rightarrow> (osys, unit) prog" where
  "socket_bind_path so p = seq_p (syscall_p (Bind_path (sock_fd so) p))
     (\<lambda>s. if nodes s p \<noteq> None then (Inl EADDRINUSE, s)
          else (Inr (), s\<lparr>nodes := (nodes s)(p \<mapsto> 511 - umask s)\<rparr>))"

text \<open>
  \<open>sock.bind((host, port))\<close>: the port is first a C integer, then the host is resolved, and only
  then is the port's range checked. Both refusals are an \<open>OverflowError\<close>, before any bind.
\<close>

definition overflow_error :: "string \<Rightarrow> exn" where
  "overflow_error m = OtherException (us ''OverflowError: '' @ us m)"

definition socket_bind_inet :: "pysock \<Rightarrow> ustr \<Rightarrow> int \<Rightarrow> (osys, unit) prog" where
  "socket_bind_inet so host port =
     (if port < - (2 ^ 31) \<or> 2 ^ 31 \<le> port
        then raise_p (overflow_error ''Python int too large to convert to C int'')
      else seq_p (syscall_p (Resolve host))
        (if port < 0 \<or> 65535 < port then raise_p (overflow_error ''bind(): port must be 0-65535.'')
         else syscall_p (Bind_inet (sock_fd so) host port)))"

definition socket_listen :: "pysock \<Rightarrow> (osys, unit) prog" where
  "socket_listen so = seq_p (syscall_p (Listen (sock_fd so)))
     (bind_p (lookup_fd (sock_fd so)) (\<lambda>d.
      modify_p (\<lambda>s. s\<lparr>fds := (fds s)(sock_fd so \<mapsto> d\<lparr>is_listening := True\<rparr>)\<rparr>)))"

definition finally_p :: "('s, 'a) prog \<Rightarrow> ('s, unit) prog \<Rightarrow> ('s, 'a) prog" where
  "finally_p m f s =
     (case m s of (r, s1) \<Rightarrow> (case f s1 of (Inl e, s2) \<Rightarrow> (Inl e, s2) | (Inr _, s2) \<Rightarrow> (r, s2)))"

section \<open>The three ways to get a server\<close>

text \<open>The attributes of the \<open>_Server\<close> object that the three functions set.\<close>

type_synonym pyserver = pysock

definition LISTEN_FDS_START :: nat where
  "LISTEN_FDS_START = 3"

definition server_on_address :: "ustr \<Rightarrow> int \<Rightarrow> (osys, pyserver) prog" where
  "server_on_address host port =
     bind_p (socket_new AF_INET) (\<lambda>so.
       catch_p
         (seq_p (socket_bind_inet so host port)
         (seq_p (syscall_p (Getsockname (sock_fd so)))
         (seq_p (socket_listen so) (return_p so))))
         (\<lambda>e. seq_p (socket_close so) (raise_p e)))"

definition server_on_socket :: "pysock \<Rightarrow> (osys, pyserver) prog" where
  "server_on_socket listen_sock =
     bind_p (socket_new AF_INET) (\<lambda>own.
       seq_p (catch_p (socket_close own) (\<lambda>e. if is_OSError e then return_p () else raise_p e))
       (seq_p (syscall_p (Getsockname (sock_fd listen_sock)))
              (return_p listen_sock)))"

definition listen_socket :: "nat \<Rightarrow> (osys, pysock) prog" where
  "listen_socket fd =
     bind_p (os_dup fd) (\<lambda>copy.
     bind_p (socket_fileno None copy) (\<lambda>probe.
     bind_p (finally_p (bind_p (get_domain probe) address_family) (socket_close probe)) (\<lambda>fam.
     socket_fileno (Some fam) fd)))"

definition server_on_unix_socket :: "ustr \<Rightarrow> (osys, pyserver) prog" where
  "server_on_unix_socket p =
     seq_p (catch_p (os_unlink p) (\<lambda>e. if is_os FileNotFoundError e then return_p () else raise_p e))
    (bind_p (socket_new AF_UNIX) (\<lambda>so.
     seq_p (socket_bind_path so p)
    (seq_p (os_chmod p 384)
    (seq_p (socket_listen so) (server_on_socket so)))))"

section \<open>\<open>main\<close>\<close>

text \<open>The process's surroundings.\<close>

record process =
  environ :: "ustr \<Rightarrow> ustr option"
  getpid :: nat

text \<open>A Flux standard duration as a float: seconds, or infinity, in their order.\<close>

datatype duration = Secs rat | Infinite

instantiation duration :: linorder
begin

fun less_eq_duration :: "duration \<Rightarrow> duration \<Rightarrow> bool" where
  "less_eq_duration _ Infinite = True"
| "less_eq_duration Infinite (Secs _) = False"
| "less_eq_duration (Secs a) (Secs b) = (a \<le> b)"

definition less_duration :: "duration \<Rightarrow> duration \<Rightarrow> bool" where
  "less_duration a b \<longleftrightarrow> a \<le> b \<and> \<not> b \<le> a"

instance
proof
  fix x y z :: duration
  show "x < y \<longleftrightarrow> x \<le> y \<and> \<not> y \<le> x" by (rule less_duration_def)
  show "x \<le> x" by (cases x) simp_all
  show "x \<le> y \<Longrightarrow> y \<le> z \<Longrightarrow> x \<le> z" by (cases x; cases y; cases z) simp_all
  show "x \<le> y \<Longrightarrow> y \<le> x \<Longrightarrow> x = y" by (cases x; cases y) simp_all
  show "x \<le> y \<or> y \<le> x" by (cases x; cases y) auto
qed

end

text \<open>The namespace the command line is parsed into.\<close>

record args =
  host :: ustr
  port :: "int option"
  socket :: "ustr option"
  allow_user :: "ustr option"
  idle_arg :: "duration option"
  verbose_arg :: bool

text \<open>A string option that is given and not empty, which is what \<open>if args.socket\<close> tests.\<close>

definition truthy :: "ustr option \<Rightarrow> bool" where
  "truthy v \<longleftrightarrow> (case v of None \<Rightarrow> False | Some t \<Rightarrow> t \<noteq> [])"

definition socket_activated :: "process \<Rightarrow> exn + bool" where
  "socket_activated pr =
     (if environ pr (us ''LISTEN_PID'') = Some (str_int (int (getpid pr)))
      then map_sum id (\<lambda>n. n \<ge> 1)
             (text_int (case environ pr (us ''LISTEN_FDS'') of None \<Rightarrow> us ''0'' | Some v \<Rightarrow> v))
      else Inr False)"

text \<open>\<open>_fsd\<close>: what \<open>parse_fsd\<close> refuses is an \<open>ArgumentTypeError\<close>, which argparse reports.\<close>

definition fsd :: "(ustr \<Rightarrow> exn + duration) \<Rightarrow> ustr \<Rightarrow> exn + duration" where
  "fsd parse_fsd v =
     (case parse_fsd v of
        Inl e \<Rightarrow> Inl (if is_ValueError e then ArgumentTypeError (exn_str e) else e)
      | Inr d \<Rightarrow> Inr d)"

text \<open>
  The command line: the options with their conversions, in the order of the \<open>add_argument\<close> calls
  after \<open>--help\<close>, and the defaults. \<open>Inl\<close> an exception a conversion let escape, then \<open>Inl\<close> an exit
  status (2 is a usage error) or \<open>Inr\<close> the parsed arguments.
\<close>

definition OPTIONS :: "(ustr \<Rightarrow> exn + duration) \<Rightarrow> args options" where
  "OPTIONS parse_fsd =
     [(us ''-h'', Help), (us ''--help'', Help),
      (us ''--host'', Store (\<lambda>v. Inr (\<lambda>a. a\<lparr>host := v\<rparr>))),
      (us ''--port'', Store (\<lambda>v. map_sum id (\<lambda>n a. a\<lparr>port := Some n\<rparr>) (text_int v))),
      (us ''--socket'', Store (\<lambda>v. Inr (\<lambda>a. a\<lparr>socket := Some v\<rparr>))),
      (us ''--allow-user'', Store (\<lambda>v. Inr (\<lambda>a. a\<lparr>allow_user := Some v\<rparr>))),
      (us ''--idle-timeout'', Store (\<lambda>v. map_sum id (\<lambda>d a. a\<lparr>idle_arg := Some d\<rparr>) (fsd parse_fsd v))),
      (us ''-v'', Store_true (\<lambda>a. a\<lparr>verbose_arg := True\<rparr>)),
      (us ''--verbose'', Store_true (\<lambda>a. a\<lparr>verbose_arg := True\<rparr>))]"

definition DEFAULTS :: args where
  "DEFAULTS = \<lparr>host = us ''127.0.0.1'', port = None, socket = None, allow_user = None, idle_arg = None,
     verbose_arg = False\<rparr>"

definition command_line :: "(ustr \<Rightarrow> exn + duration) \<Rightarrow> ustr list \<Rightarrow> exn + nat + args" where
  "command_line parse_fsd argv = parse_args (OPTIONS parse_fsd) (\<lambda>_. True) DEFAULTS argv"

text \<open>The idle timeout to set, none for \<open>"infinity"\<close>; one that is not positive is a usage error.\<close>

definition idle_option :: "args \<Rightarrow> nat + rat option" where
  "idle_option a =
     (case idle_arg a of
        None \<Rightarrow> Inr None
      | Some Infinite \<Rightarrow> Inr None
      | Some (Secs t) \<Rightarrow> if Secs t \<le> Secs 0 then Inl 2 else Inr (Some t))"

definition print_stderr :: "ustr \<Rightarrow> (osys, unit) prog" where
  "print_stderr m = modify_p (\<lambda>s. s\<lparr>stderr := stderr s @ [m]\<rparr>)"

definition allowed_uid :: "os_env \<Rightarrow> args \<Rightarrow> (osys, nat + nat) prog" where
  "allowed_uid os a =
     (if truthy (allow_user a)
      then (case getpwnam os (the (allow_user a)) of
              None \<Rightarrow> seq_p (print_stderr (us ''error: unknown user: '' @ the (allow_user a))) (return_p (Inl 1))
            | Some pw \<Rightarrow> return_p (Inr (pw_uid pw)))
      else return_p (Inr (getuid os)))"

text \<open>\<open>os.path.join(a, b)\<close>\<close>

definition path_join :: "ustr \<Rightarrow> ustr \<Rightarrow> ustr" where
  "path_join a b = (if py_startswith [47] b then b else if a = [] \<or> last a = 47 then a @ b else a @ 47 # b)"

text \<open>The whole process: the operating system, and the handle cache with the broker.\<close>

type_synonym ('w, 'h) state = "osys \<times> ('w, 'h) srv"

definition on_os :: "(osys, 'a) prog \<Rightarrow> (('w, 'h) state, 'a) prog" where
  "on_os m st = (case m (fst st) of (r, s) \<Rightarrow> (r, (s, snd st)))"

definition on_srv :: "(('w, 'h) srv, 'a) prog \<Rightarrow> (('w, 'h) state, 'a) prog" where
  "on_srv m st = (case m (snd st) of (r, s) \<Rightarrow> (r, (fst st, s)))"

definition rundir :: "('w, 'h, 's, 'i) flux_api \<Rightarrow> (('w, 'h) srv, ustr) prog" where
  "rundir api = bind_p (flux_handle api) (\<lambda>h. on_world (attr_get api h (us ''rundir'')))"

text \<open>
  The handler around the choice of the socket. \<open>socket_path\<close> is the local variable of that
  name, \<open>None\<close> while it has not been assigned.
\<close>

definition bind_address :: "args \<Rightarrow> ustr option \<Rightarrow> exn + ustr" where
  "bind_address a socket_path =
     (case port a of
        Some n \<Rightarrow> Inr (host a @ us '':'' @ str_int n)
      | None \<Rightarrow>
          if truthy (socket a) then Inr (the (socket a))
          else (case socket_path of
                  None \<Rightarrow> Inl (UnboundLocalError (us ''cannot access local variable socket_path''))
                | Some p \<Rightarrow> Inr p))"

definition bind_failed ::
  "args \<Rightarrow> ustr option \<Rightarrow> exn \<Rightarrow> (('w, 'h) state, nat + 'a) prog" where
  "bind_failed a socket_path e =
     (if \<not> is_OSError e then raise_p e
      else if exn_errno e = Some 98 then
        bind_p (lift_p (bind_address a socket_path)) (\<lambda>addr.
          seq_p (on_os (print_stderr (us ''error: address '' @ addr @ us '' already in use''))) (return_p (Inl 1)))
      else if exn_errno e = Some 13 then
        bind_p (lift_p (bind_address a socket_path)) (\<lambda>addr.
          seq_p (on_os (print_stderr (us ''error: permission denied binding to '' @ addr))) (return_p (Inl 1)))
      else seq_p (on_os (print_stderr (us ''error: failed to bind socket: '' @ exn_str e))) (return_p (Inl 1)))"

definition unix_path ::
  "('w, 'h, 's, 'i) flux_api \<Rightarrow> args \<Rightarrow> (('w, 'h) state, nat + ustr) prog" where
  "unix_path api a =
     (if truthy (socket a) then return_p (Inr (the (socket a)))
      else catch_p
        (bind_p (on_srv (rundir api)) (\<lambda>d. return_p (Inr (path_join d (us ''rest'')))))
        (\<lambda>e. if is_OSError e
               then seq_p (on_os (print_stderr (us ''error: cannot get flux rundir: '' @ exn_str e)))
                   (seq_p (on_os (print_stderr (us ''hint: use --port for TCP mode outside a flux instance'')))
                          (return_p (Inl 1)))
             else raise_p e))"

definition open_server ::
  "os_env \<Rightarrow> ('w, 'h, 's, 'i) flux_api \<Rightarrow> process \<Rightarrow> args \<Rightarrow> nat \<Rightarrow> (('w, 'h) state, nat + pyserver) prog" where
  "open_server os api pr a uid =
     bind_p (lift_p (socket_activated pr)) (\<lambda>activated.
       if activated then
         catch_p (on_os (bind_p (listen_socket LISTEN_FDS_START) (\<lambda>so.
                    bind_p (server_on_socket so) (\<lambda>srv. return_p (Inr srv)))))
                 (bind_failed a None)
       else (case port a of
         Some n \<Rightarrow>
           catch_p (on_os (bind_p (server_on_address (host a) n) (\<lambda>srv. return_p (Inr srv))))
                   (bind_failed a None)
       | None \<Rightarrow>
           if uid \<noteq> getuid os then
             seq_p (on_os (print_stderr (us ''error: --allow-user requires socket activation; a self-created socket is owner-only'')))
                   (return_p (Inl 1))
           else bind_p (unix_path api a) (\<lambda>r. case r of
               Inl code \<Rightarrow> return_p (Inl code)
             | Inr p \<Rightarrow>
                 catch_p (on_os (bind_p (server_on_unix_socket p) (\<lambda>srv. return_p (Inr srv))))
                         (bind_failed a (Some p)))))"

text \<open>What \<open>main\<close> hands to \<open>serve()\<close>.\<close>

record serving =
  srv_socket :: pyserver
  srv_peer_uid :: "nat option"
  srv_idle :: "rat option"
  srv_verbose :: bool

definition configure :: "args \<Rightarrow> nat \<Rightarrow> rat option \<Rightarrow> pyserver \<Rightarrow> (('w, 'h) state, serving) prog" where
  "configure a uid timeout srv =
     seq_p
       (if family srv \<noteq> AF_UNIX \<and> truthy (allow_user a)
          then on_os (print_stderr (us ''warning: --allow-user has no effect on a TCP socket (SO_PEERCRED unavailable)''))
        else return_p ())
       (return_p \<lparr>srv_socket = srv, srv_peer_uid = (if family srv = AF_UNIX then Some uid else None),
          srv_idle = timeout, srv_verbose = verbose_arg a\<rparr>)"

text \<open>\<open>Inl\<close> an exit status, \<open>Inr\<close> the server it runs; first what follows the parsing.\<close>

definition main_parsed ::
  "os_env \<Rightarrow> ('w, 'h, 's, 'i) flux_api \<Rightarrow> process \<Rightarrow> args \<Rightarrow> (('w, 'h) state, nat + serving) prog" where
  "main_parsed os api pr a =
     (case idle_option a of
       Inl code \<Rightarrow> return_p (Inl code)
     | Inr timeout \<Rightarrow>
         bind_p (on_os (allowed_uid os a)) (\<lambda>u. case u of
           Inl code \<Rightarrow> return_p (Inl code)
         | Inr uid \<Rightarrow>
             bind_p (open_server os api pr a uid) (\<lambda>r. case r of
               Inl code \<Rightarrow> return_p (Inl code)
             | Inr srv \<Rightarrow> bind_p (configure a uid timeout srv) (\<lambda>c. return_p (Inr c)))))"

definition main ::
  "os_env \<Rightarrow> ('w, 'h, 's, 'i) flux_api \<Rightarrow> (ustr \<Rightarrow> exn + duration) \<Rightarrow> process \<Rightarrow> ustr list
    \<Rightarrow> (('w, 'h) state, nat + serving) prog" where
  "main os api parse_fsd pr argv =
     bind_p (lift_p (command_line parse_fsd argv)) (\<lambda>p. case p of
       Inl code \<Rightarrow> return_p (Inl code)
     | Inr a \<Rightarrow> main_parsed os api pr a)"

end
