(* ===== verification/Argparse_Spec.thy ===== *)
theory Argparse_Spec
  imports Argparse
begin

text \<open>
  The command lines a parser is meant for, as a syntax with a meaning: a list of settings, each
  spelled in one of the usual ways. The parser reads every such line as it is meant.
\<close>

section \<open>Spellings\<close>

text \<open>
  \<open>--option=value\<close>, \<open>--option value\<close>, \<open>--flag\<close> and several flags in one word, \<open>-xy\<close>; a long name may
  be abbreviated.
\<close>

datatype spelling = Joined ustr ustr | Separate ustr ustr | Switch ustr | Flags ustr

fun words :: "spelling \<Rightarrow> ustr list" where
  "words (Joined p v) = [p @ 61 # v]"
| "words (Separate p v) = [p, v]"
| "words (Switch p) = [p]"
| "words (Flags cs) = [45 # cs]"

text \<open>What a written option name stands for: itself, or the only long option it begins.\<close>

definition resolve :: "'n options \<Rightarrow> ustr \<Rightarrow> 'n action option" where
  "resolve opts p =
     (if 61 \<in> set p then None
      else case map_of opts p of
        Some a \<Rightarrow> Some a
      | None \<Rightarrow>
          if take 2 p = us ''--'' \<and> p \<noteq> us ''--''
            then (case filter (\<lambda>x. py_startswith p (fst x)) opts of [x] \<Rightarrow> Some (snd x) | _ \<Rightarrow> None)
          else None)"

text \<open>A word that can be the value of the option before it.\<close>

definition is_value :: "'n options \<Rightarrow> ustr \<Rightarrow> bool" where
  "is_value opts v \<longleftrightarrow> v \<noteq> us ''--'' \<and> (case parse_optional opts v of Inr None \<Rightarrow> True | _ \<Rightarrow> False)"

lemma is_value_plain: "v = [] \<or> hd v \<noteq> 45 \<Longrightarrow> is_value opts v"
  by (auto simp: is_value_def parse_optional_def us_Cons)

fun stored :: "'n action option \<Rightarrow> ustr \<Rightarrow> ('n \<Rightarrow> 'n) option" where
  "stored (Some (Store f)) v = (case f v of Inl e \<Rightarrow> None | Inr g \<Rightarrow> Some g)"
| "stored _ v = None"

fun flags :: "'n options \<Rightarrow> ustr \<Rightarrow> ('n \<Rightarrow> 'n) option" where
  "flags opts [] = Some (\<lambda>n. n)"
| "flags opts (c # cs) =
     (case map_of opts [45, c] of
        Some (Store_true g) \<Rightarrow> map_option (\<lambda>h n. h (g n)) (flags opts cs)
      | _ \<Rightarrow> None)"

fun meaning :: "'n options \<Rightarrow> spelling \<Rightarrow> ('n \<Rightarrow> 'n) option" where
  "meaning opts (Joined p v) = stored (resolve opts p) v"
| "meaning opts (Separate p v) = (if is_value opts v then stored (resolve opts p) v else None)"
| "meaning opts (Switch p) = (case resolve opts p of Some (Store_true g) \<Rightarrow> Some g | _ \<Rightarrow> None)"
| "meaning opts (Flags cs) = (if 2 \<le> length cs then flags opts cs else None)"

text \<open>
  The options of the parsers here: no name twice, all short ones are flags, and \<open>--help\<close> is not the
  only long one.
\<close>

definition well_formed :: "'n options \<Rightarrow> bool" where
  "well_formed opts \<longleftrightarrow> distinct (map fst opts)
     \<and> list_all (\<lambda>(name, a). hd name = 45 \<and> 61 \<notin> set name
         \<and> (if take 2 name = us ''--'' then 3 \<le> length name else length name = 2 \<and> \<not> takes_value a)) opts
     \<and> 2 \<le> length (filter (\<lambda>x. py_startswith (us ''--'') (fst x)) opts)"

lemma well_formed_in:
  "well_formed opts \<Longrightarrow> (p, a) \<in> set opts \<Longrightarrow> 2 \<le> length p \<and> hd p = 45 \<and> p \<noteq> us ''--'' \<and> 61 \<notin> set p
     \<and> (take 2 p \<noteq> us ''--'' \<longrightarrow> length p = 2 \<and> \<not> takes_value a)"
  by (auto simp: well_formed_def list_all_iff split: if_splits)

lemma well_formedD:
  "well_formed opts \<Longrightarrow> map_of opts p = Some a \<Longrightarrow> 2 \<le> length p \<and> hd p = 45 \<and> p \<noteq> us ''--'' \<and> 61 \<notin> set p
     \<and> (take 2 p \<noteq> us ''--'' \<longrightarrow> length p = 2 \<and> \<not> takes_value a)"
  by (rule well_formed_in [OF _ map_of_SomeD])

section \<open>Reading them\<close>

lemma map_filter_if: "List.map_filter (\<lambda>x. if P x then Some (f x) else None) xs = map f (filter P xs)"
  by (simp add: map_filter_def comp_def)

lemma filter_key:
  "distinct (map fst xs) \<Longrightarrow> filter (\<lambda>x. fst x = k) xs = (case map_of xs k of None \<Rightarrow> [] | Some v \<Rightarrow> [(k, v)])"
proof (induction xs)
  case (Cons x xs)
  then show ?case
    using map_of_eq_None_iff [of xs k] by (cases "fst x = k") (auto simp: prod_eq_iff)
qed simp

lemma map_filter_eqI: "(\<And>x. x \<in> set xs \<Longrightarrow> f x = g x) \<Longrightarrow> List.map_filter f xs = List.map_filter g xs"
  by (induction xs) (simp_all add: map_filter_simps split: option.split)

lemma option_tuples_long:
  assumes "take 2 p = us ''--''" "61 \<notin> set p"
  shows "option_tuples opts p = map (\<lambda>x. (Some (snd x), fst x, None)) (filter (\<lambda>x. py_startswith p (fst x)) opts)"
    and "option_tuples opts (p @ 61 # v)
      = map (\<lambda>x. (Some (snd x), fst x, Some (us ''='', v))) (filter (\<lambda>x. py_startswith p (fst x)) opts)"
proof -
  have "take 2 (p @ 61 # v) = us ''--''"
    using assms by (cases p; cases "tl p") (auto simp: us_Cons)
  with assms show "option_tuples opts (p @ 61 # v)
      = map (\<lambda>x. (Some (snd x), fst x, Some (us ''='', v))) (filter (\<lambda>x. py_startswith p (fst x)) opts)"
    by (simp add: option_tuples_def case_prod_unfold map_filter_if before_append after_append)
  show "option_tuples opts p = map (\<lambda>x. (Some (snd x), fst x, None)) (filter (\<lambda>x. py_startswith p (fst x)) opts)"
    using assms after_None [of 61 p]
    by (simp add: option_tuples_def case_prod_unfold map_filter_if before_id)
qed

lemma resolve_words:
  assumes "well_formed opts" and "resolve opts p = Some a"
  shows "p \<noteq> us ''--'' \<and> (\<exists>name. parse_optional opts p = Inr (Some (Some a, name, None))
    \<and> (\<forall>v. parse_optional opts (p @ 61 # v) = Inr (Some (Some a, name, Some (us ''='', v)))))"
proof -
  have eq: "61 \<notin> set p" using assms(2) by (auto simp: resolve_def split: if_splits)
  have fresh: "map_of opts (p @ 61 # v) = None" for v
    using well_formedD [OF assms(1), of "p @ 61 # v"] by (cases "map_of opts (p @ 61 # v)") auto
  show ?thesis
  proof (cases "map_of opts p")
    case (Some b)
    with assms(2) eq have "b = a" by (simp add: resolve_def)
    with Some well_formedD [OF assms(1) Some] fresh eq show ?thesis
      by (auto simp: parse_optional_def before_append after_append hd_append)
  next
    case None
    with assms(2) eq obtain x where p: "take 2 p = us ''--''" "p \<noteq> us ''--''"
      and x: "filter (\<lambda>x. py_startswith p (fst x)) opts = [x]" "snd x = a"
      by (auto simp: resolve_def split: if_splits list.splits)
    from p have "p \<noteq> []" "hd p = 45" "length p \<noteq> 1" by (cases p; cases "tl p"; auto simp: us_Cons)+
    with None p x eq fresh after_None [of 61 p] show ?thesis
      by (simp add: parse_optional_def option_tuples_long before_append after_append before_id)
  qed
qed

lemma is_value_word: "is_value opts v \<Longrightarrow> v \<noteq> us ''--'' \<and> parse_optional opts v = Inr None"
  by (auto simp: is_value_def split: sum.splits option.splits)

lemma stored_Some: "stored r v = Some g \<Longrightarrow> \<exists>f. r = Some (Store f) \<and> f v = Inr g"
  by (cases "(r, v)" rule: stored.cases) (auto split: sum.splits)

text \<open>A short option with more in its word.\<close>

lemma short_tuples:
  assumes "well_formed opts" and "take 2 s \<noteq> us ''--''" and "2 < length s"
  shows "option_tuples opts s
    = (case map_of opts (take 2 s) of None \<Rightarrow> [] | Some a \<Rightarrow> [(Some a, take 2 s, Some ([], drop 2 s))])"
proof -
  have no: "\<not> py_startswith s name" if "(name, a) \<in> set opts" for name a
  proof
    assume "py_startswith s name"
    then obtain r where r: "name = s @ r" by (auto simp: py_startswith_iff)
    with assms(3) have "take 2 name = take 2 s" by simp
    with well_formed_in [OF assms(1) that] assms(2,3) r show False by auto
  qed
  have "option_tuples opts s
      = List.map_filter (\<lambda>x. if fst x = take 2 s then Some (Some (snd x), fst x, Some ([], drop 2 s)) else None) opts"
    unfolding option_tuples_def if_not_P [OF assms(2)] using no by (intro map_filter_eqI) auto
  also have "\<dots> = map (\<lambda>x. (Some (snd x), fst x, Some ([], drop 2 s))) (filter (\<lambda>x. fst x = take 2 s) opts)"
    by (rule map_filter_if)
  also have "\<dots> = (case map_of opts (take 2 s) of None \<Rightarrow> [] | Some a \<Rightarrow> [(Some a, take 2 s, Some ([], drop 2 s))])"
    using assms(1) by (auto simp: well_formed_def filter_key split: option.split)
  finally show ?thesis .
qed

lemma flags_word:
  assumes "well_formed opts" and "2 \<le> length cs" and "flags opts cs = Some g"
  shows "45 # cs \<noteq> us ''--'' \<and> (\<exists>f. map_of opts [45, hd cs] = Some (Store_true f)
    \<and> parse_optional opts (45 # cs) = Inr (Some (Some (Store_true f), [45, hd cs], Some ([], tl cs))))"
proof -
  obtain c d ds where cs: "cs = c # d # ds" using assms(2) by (cases cs; cases "tl cs") auto
  then obtain f where f: "map_of opts [45, c] = Some (Store_true f)"
    using assms(3) by (auto split: option.splits action.splits)
  from well_formedD [OF assms(1) f] have c: "c \<noteq> 45" "c \<noteq> 61" by (auto simp: us_Cons)
  have mo: "map_of opts (45 # cs) = None"
    using well_formedD [OF assms(1), of "45 # cs"] c cs by (cases "map_of opts (45 # cs)") (auto simp: us_Cons)
  moreover have "map_of opts (before 61 (45 # cs)) = None \<or> after 61 (45 # cs) = None"
  proof (rule ccontr)
    assume "\<not> ?thesis"
    then obtain a where a: "map_of opts (before 61 (45 # cs)) = Some a" "61 \<in> set (45 # cs)"
      using after_None [of 61 "45 # cs"] by auto
    have "61 \<notin> set e" if "flags opts e \<noteq> None" for e
      using that
    proof (induction e)
      case (Cons x xs)
      then obtain h where "map_of opts [45, x] = Some h" by (auto split: option.splits)
      from well_formedD [OF assms(1) this] Cons show ?case by (auto split: option.splits action.splits)
    qed simp
    with a assms(3) show False by auto
  qed
  moreover have "option_tuples opts (45 # cs) = [(Some (Store_true f), [45, c], Some ([], tl cs))]"
    using short_tuples [OF assms(1), of "45 # cs"] c cs f by (simp add: us_Cons)
  ultimately show ?thesis
    using f c cs by (auto simp: parse_optional_def us_Cons split: option.splits)
qed

lemma flags_cluster:
  assumes "well_formed opts" and "flags opts cs = Some g" and "c \<noteq> 45"
  shows "\<exists>acts. cluster opts nxt (Store_true f) [45, c] (cluster_rest cs) = Inr (acts, [], 0)
    \<and> (\<forall>n. take_actions acts n = Inr (Inr (g (f n))))"
  using assms(2,3)
proof (induction cs arbitrary: c f g)
  case Nil
  then show ?case by (auto simp: cluster_rest_def)
next
  case (Cons x xs)
  then obtain h k where h: "map_of opts [45, x] = Some (Store_true h)" "flags opts xs = Some k" "g = (\<lambda>n. k (h n))"
    by (auto split: option.splits action.splits)
  from well_formedD [OF assms(1) h(1)] have x: "x \<noteq> 45" "x \<noteq> 61" by (auto simp: us_Cons)
  obtain acts where acts: "cluster opts nxt (Store_true h) [45, x] (cluster_rest xs) = Inr (acts, [], 0)"
    "\<And>n. take_actions acts n = Inr (Inr (k (h n)))" using Cons.IH [OF h(2) x(1)] by blast
  with h x Cons.prems show ?case by (simp add: cluster_rest_def)
qed

text \<open>One spelling: it is classified whatever follows, and then takes effect and is gone.\<close>

lemma spelling_read:
  assumes "well_formed opts" and "meaning opts sp = Some g"
  shows "\<exists>ks. (\<forall>r ws. classify opts r = Inr ws \<longrightarrow> classify opts (words sp @ r) = Inr (ks @ ws))
    \<and> (\<forall>ws n extras. consume opts (ks @ ws) n extras = consume opts ws (g n) extras)"
proof (cases sp)
  case (Joined p v)
  then obtain f where f: "resolve opts p = Some (Store f)" "f v = Inr g"
    using assms(2) stored_Some by fastforce
  obtain name where "p \<noteq> us ''--''" "parse_optional opts (p @ 61 # v) = Inr (Some (Some (Store f), name, Some (us ''='', v)))"
    using resolve_words [OF assms(1) f(1)] by blast
  moreover have "p @ 61 # v \<noteq> us ''--''"
    by (cases p; cases "tl p") (auto simp: us_Cons)
  ultimately show ?thesis
    using f(2) Joined by (intro exI [of _ "[(p @ 61 # v, Optional (Some (Store f), name, Some (us ''='', v)))]"]) simp
next
  case (Separate p v)
  then obtain f where v: "is_value opts v" and f: "resolve opts p = Some (Store f)" "f v = Inr g"
    using assms(2) stored_Some by (fastforce split: if_splits)
  obtain name where "p \<noteq> us ''--''" "parse_optional opts p = Inr (Some (Some (Store f), name, None))"
    using resolve_words [OF assms(1) f(1)] by blast
  then show ?thesis
    using f(2) Separate is_value_word [OF v]
    by (intro exI [of _ "[(p, Optional (Some (Store f), name, None)), (v, Argument)]"]) (simp add: next_value_def)
next
  case (Flags cs)
  then have cs: "2 \<le> length cs" "flags opts cs = Some g" using assms(2) by (auto split: if_splits)
  obtain f where f: "45 # cs \<noteq> us ''--''" "map_of opts [45, hd cs] = Some (Store_true f)"
    "parse_optional opts (45 # cs) = Inr (Some (Some (Store_true f), [45, hd cs], Some ([], tl cs)))"
    using flags_word [OF assms(1) cs] by blast
  obtain c d ds where c: "cs = c # d # ds" using cs(1) by (cases cs; cases "tl cs") auto
  from f c cs(2) obtain h where h: "flags opts (d # ds) = Some h" "g = (\<lambda>n. h (f n))" by (auto simp del: flags.simps(2) simp: flags.simps(2) [of opts c])
  have "c \<noteq> 45" using well_formedD [OF assms(1) f(2)] c by (auto simp: us_Cons)
  moreover have "cluster_rest (d # ds) = Some ([], d # ds)"
    using h(1) well_formedD [OF assms(1), of "[45, d]"] by (auto simp: cluster_rest_def split: option.splits)
  ultimately have "consume opts ((45 # cs, Optional (Some (Store_true f), [45, hd cs], Some ([], tl cs))) # ws) n extras
      = consume opts ws (g n) extras" for ws n extras
    using flags_cluster [OF assms(1) h(1), of c "next_value ws" f] h(2) c by auto
  with f(1,3) Flags show ?thesis
    by (intro exI [of _ "[(45 # cs, Optional (Some (Store_true f), [45, hd cs], Some ([], tl cs)))]"]) simp
next
  case (Switch p)
  then have r: "resolve opts p = Some (Store_true g)"
    using assms(2) by (auto split: option.splits action.splits)
  obtain name where "p \<noteq> us ''--''" "parse_optional opts p = Inr (Some (Some (Store_true g), name, None))"
    using resolve_words [OF assms(1) r] by blast
  then show ?thesis
    using Switch by (intro exI [of _ "[(p, Optional (Some (Store_true g), name, None))]"]) simp
qed

lemma spellings_read:
  assumes "well_formed opts" and "list_all (\<lambda>sp. meaning opts sp \<noteq> None) sps"
  shows "\<exists>ws. classify opts (concat (map words sps)) = Inr ws
    \<and> (\<forall>n extras. consume opts ws n extras = Inr (Inr (foldl (\<lambda>n sp. the (meaning opts sp) n) n sps, extras)))"
  using assms(2)
proof (induction sps)
  case (Cons sp sps)
  then obtain g where g: "meaning opts sp = Some g" by auto
  from spelling_read [OF assms(1) g] obtain ks where
    ks: "\<And>r ws. classify opts r = Inr ws \<Longrightarrow> classify opts (words sp @ r) = Inr (ks @ ws)"
      "\<And>ws n extras. consume opts (ks @ ws) n extras = consume opts ws (g n) extras" by blast
  from Cons obtain ws where ws: "classify opts (concat (map words sps)) = Inr ws"
    "\<And>n extras. consume opts ws n extras = Inr (Inr (foldl (\<lambda>n sp. the (meaning opts sp) n) n sps, extras))" by auto
  show ?case using ks(1) [OF ws(1)] ks(2) ws(2) g by (intro exI [of _ "ks @ ws"]) simp
qed simp

text \<open>The whole line: the settings take effect one after the other, so the last one for a name wins.\<close>

definition settings :: "'n options \<Rightarrow> spelling list \<Rightarrow> 'n \<Rightarrow> 'n" where
  "settings opts sps n = foldl (\<lambda>n sp. the (meaning opts sp) n) n sps"

lemma parse_args_spelled:
  assumes "well_formed opts" and "list_all (\<lambda>sp. meaning opts sp \<noteq> None) sps" and "given (settings opts sps n)"
  shows "parse_args opts given n (concat (map words sps)) = Inr (Inr (settings opts sps n))"
proof -
  obtain ws where "classify opts (concat (map words sps)) = Inr ws"
    "\<And>n extras. consume opts ws n extras = Inr (Inr (settings opts sps n, extras))"
    using spellings_read [OF assms(1,2)] by (auto simp: settings_def)
  then show ?thesis using assms(3) by (simp add: parse_args_def)
qed

section \<open>Only them\<close>

text \<open>
  The converse: a line that is accepted is a sequence of settings. First what a word must be that is
  taken for an option.
\<close>

lemma parse_optional_cases:
  assumes "well_formed opts" and "parse_optional opts w = Inr (Some (Some a, name, e))"
  shows "(e = None \<and> resolve opts w = Some a)
    \<or> (\<exists>p v. w = p @ 61 # v \<and> e = Some (us ''='', v) \<and> resolve opts p = Some a)
    \<or> (\<exists>c cs. w = 45 # c # cs \<and> cs \<noteq> [] \<and> name = [45, c] \<and> e = Some ([], cs) \<and> map_of opts [45, c] = Some a)"
proof -
  have w: "w \<noteq> []" "hd w = 45" using assms(2) by (auto simp: parse_optional_def split: if_splits)
  consider (exact) "map_of opts w = Some a" "e = None"
    | (joined) v where "map_of opts (before 61 w) = Some a" "after 61 w = Some v" "e = Some (us ''='', v)"
    | (tuple) "map_of opts w = None" "length w \<noteq> 1" "option_tuples opts w = [(Some a, name, e)]"
        "map_of opts (before 61 w) = None \<or> after 61 w = None"
    using assms(2) w by (auto simp: parse_optional_def split: if_splits option.splits list.splits)
  then show ?thesis
  proof cases
    case exact
    then show ?thesis using well_formedD [OF assms(1) exact(1)] by (simp add: resolve_def)
  next
    case (joined v)
    then have "w = before 61 w @ 61 # v" using before_after [of w 61] by simp
    moreover have "resolve opts (before 61 w) = Some a" using joined(1) before_notin by (simp add: resolve_def)
    ultimately show ?thesis using joined(3) by blast
  next
    case tuple
    show ?thesis
    proof (cases "take 2 w = us ''--''")
      case True
      let ?p = "before 61 w"
      have "option_tuples opts w = map (\<lambda>x. (Some (snd x), fst x, map_option (\<lambda>v. (us ''='', v)) (after 61 w)))
          (filter (\<lambda>x. py_startswith ?p (fst x)) opts)"
        using True by (simp add: option_tuples_def case_prod_unfold map_filter_if)
      then obtain x where x: "filter (\<lambda>x. py_startswith ?p (fst x)) opts = [x]" "snd x = a"
        "e = map_option (\<lambda>v. (us ''='', v)) (after 61 w)"
        using tuple(3) by (auto simp: map_eq_Cons_conv)
      have p: "take 2 ?p = us ''--''" using True by (cases w; cases "tl w") (auto simp: before_def us_Cons)
      have "?p \<noteq> us ''--''"
      proof
        assume "?p = us ''--''"
        with x(1) assms(1) show False by (simp add: well_formed_def)
      qed
      moreover have "map_of opts ?p = None"
        using tuple(1,4) after_None [of 61 w] before_id [of 61 w] by auto
      ultimately have "resolve opts ?p = Some a"
        using p x(1,2) before_notin [of 61 w] by (simp add: resolve_def)
      then show ?thesis
        using x(3) before_after [of w 61] by (cases "after 61 w") auto
    next
      case False
      then show ?thesis
      proof (cases "2 < length w")
        case True
        from short_tuples [OF assms(1) False True] tuple(3)
        have "map_of opts (take 2 w) = Some a" "name = take 2 w" "e = Some ([], drop 2 w)"
          by (auto split: option.splits)
        then show ?thesis using w True by (cases w; cases "tl w") auto
      next
        case short: False
        then have l: "length w = 2" using w(1) tuple(2) by (cases w; cases "tl w") auto
        have "(Some a, name, e) \<in> set (option_tuples opts w)" using tuple(3) by simp
        then have m: "(name, a) \<in> set opts" "py_startswith w name"
          using False l by (auto simp: option_tuples_def map_filter_def py_startswith_def split: if_splits)
        then have "take 2 name = w" using l by (auto simp: py_startswith_def)
        with well_formed_in [OF assms(1) m(1)] False have "name = w" by auto
        with m(1) tuple(1) show ?thesis by (force simp: map_of_eq_None_iff)
      qed
    qed
  qed
qed

lemma short_flag: "well_formed opts \<Longrightarrow> map_of opts [45, c] = Some a \<Longrightarrow> \<not> takes_value a"
  using well_formedD [of opts "[45, c]" a] by (auto simp: us_Cons)

lemma take_flag: "\<not> takes_value a \<Longrightarrow> take_actions ((a, v) # acts) n = Inr (Inr m) \<Longrightarrow>
    \<exists>g. a = Store_true g \<and> take_actions acts (g n) = Inr (Inr m)"
  by (cases a) simp_all

lemma cluster_flags:
  assumes "well_formed opts"
  shows "cs \<noteq> [] \<Longrightarrow> map_of opts [45, c] = Some a \<Longrightarrow> cluster opts nxt a [45, c] (Some ([], cs)) = Inr (acts, [], k) \<Longrightarrow>
    take_actions acts n = Inr (Inr m) \<Longrightarrow> \<exists>g. flags opts (c # cs) = Some g \<and> g n = m \<and> k = 0"
proof (induction cs arbitrary: c a acts n)
  case (Cons x xs)
  have a: "\<not> takes_value a" by (rule short_flag [OF assms Cons.prems(2)])
  with Cons.prems(3) obtain b more where b: "map_of opts [45, x] = Some b" "acts = (a, None) # more"
    "cluster opts nxt b [45, x] (cluster_rest xs) = Inr (more, [], k)"
    by (auto simp: map_sum_def split: if_splits option.splits sum.splits)
  from take_flag [OF a] Cons.prems(4) b(2) obtain g where g: "a = Store_true g" "take_actions more (g n) = Inr (Inr m)"
    by blast
  have nb: "\<not> takes_value b" by (rule short_flag [OF assms b(1)])
  show ?case
  proof (cases xs)
    case Nil
    with b(3) nb have "more = [(b, None)]" "k = 0" by (simp_all add: cluster_rest_def)
    with take_flag [OF nb] g Nil b(1) Cons.prems(2) show ?thesis by fastforce
  next
    case (Cons y ys)
    with b(3) nb have "cluster opts nxt b [45, x] (Some ([], xs)) = Inr (more, [], k)"
      by (auto simp: cluster_rest_def split: if_splits)
    from Cons.IH [OF _ b(1) this g(2)] Cons obtain h where "flags opts (x # xs) = Some h" "h (g n) = m" "k = 0" by auto
    with g(1) Cons.prems(2) show ?thesis by (simp del: flags.simps(2) add: flags.simps(2) [of opts c])
  qed
qed simp

lemma word_spelled:
  assumes "well_formed opts" and "parse_optional opts w = Inr (Some (Some a, name, e))"
    and "cluster opts (next_value ws) a name e = Inr (acts, [], k)" and "take_actions acts n = Inr (Inr m)"
    and "\<forall>v. next_value ws = Some v \<longrightarrow> is_value opts v"
  shows "\<exists>sp g. meaning opts sp = Some g \<and> g n = m \<and> words sp = w # map fst (take k ws)"
  using parse_optional_cases [OF assms(1,2)]
proof (elim disjE exE conjE)
  assume e: "e = None" and r: "resolve opts w = Some a"
  show ?thesis
  proof (cases "takes_value a")
    case False
    with assms(3) e have acts: "acts = [(a, None)]" "k = 0" by simp_all
    with take_flag [OF False] assms(4) obtain g where "a = Store_true g" "g n = m" by force
    with r acts show ?thesis by (intro exI [of _ "Switch w"] exI [of _ g]) simp
  next
    case True
    then obtain f where f: "a = Store f" by (cases a) simp_all
    with assms(3) e obtain v where v: "next_value ws = Some v" "acts = [(a, Some v)]" "k = 1"
      by (auto split: option.splits)
    with assms(4) f obtain g where "f v = Inr g" "g n = m" by (auto split: sum.splits if_splits)
    moreover have "map fst (take 1 ws) = [v]"
      using v(1) by (auto simp: next_value_def split: list.splits word_kind.splits)
    ultimately show ?thesis
      using r f v assms(5) by (intro exI [of _ "Separate w v"] exI [of _ g]) simp
  qed
next
  fix p v assume w: "w = p @ 61 # v" and e: "e = Some (us ''='', v)" and r: "resolve opts p = Some a"
  have "takes_value a" using assms(3) e by (auto split: if_splits)
  moreover then have "acts = [(a, Some v)]" "k = 0" using assms(3) e by simp_all
  moreover obtain f where "a = Store f" using \<open>takes_value a\<close> by (cases a) simp_all
  moreover from calculation assms(4) obtain g where "f v = Inr g" "g n = m" by (auto split: sum.splits if_splits)
  ultimately show ?thesis using r w by (intro exI [of _ "Joined p v"] exI [of _ g]) simp
next
  fix c cs assume w: "w = 45 # c # cs" "cs \<noteq> []" "name = [45, c]" "e = Some ([], cs)" "map_of opts [45, c] = Some a"
  from cluster_flags [OF assms(1) w(2,5) assms(3) [unfolded w(3,4)] assms(4)]
  obtain g where "flags opts (c # cs) = Some g" "g n = m" "k = 0" by blast
  with w show ?thesis by (intro exI [of _ "Flags (c # cs)"] exI [of _ g]) (cases cs; simp)
qed

text \<open>Then the line: what is not an option or its value is left over, and so is all after \<open>--\<close>.\<close>

fun genuine :: "'n options \<Rightarrow> ustr \<times> 'n word_kind \<Rightarrow> bool" where
  "genuine opts (w, Optional t) \<longleftrightarrow> parse_optional opts w = Inr (Some t)"
| "genuine opts (w, Argument) \<longleftrightarrow> is_value opts w"
| "genuine opts (w, Terminator) \<longleftrightarrow> False"

lemma classify_words: "classify opts argv = Inr ws \<Longrightarrow> map fst ws = argv"
  by (induction argv arbitrary: ws) (auto simp: map_sum_def comp_def split: if_splits sum.splits)

lemma classify_genuine:
  "classify opts argv = Inr ws \<Longrightarrow> Terminator \<notin> snd ` set ws \<Longrightarrow> list_all (genuine opts) ws"
proof (induction argv arbitrary: ws)
  case (Cons s r)
  show ?case
  proof (cases "s = us ''--''")
    case True
    with Cons.prems show ?thesis by auto
  next
    case False
    with Cons.prems(1) obtain k vs where k: "parse_optional opts s = Inr k" "classify opts r = Inr vs"
      "ws = (s, case k of None \<Rightarrow> Argument | Some t \<Rightarrow> Optional t) # vs"
      by (auto simp: map_sum_def split: sum.splits)
    with Cons False show ?thesis by (cases k) (auto simp: is_value_def)
  qed
qed simp

lemma cluster_uses: "cluster opts nxt a name e = Inr (acts, u, k) \<Longrightarrow> k = 0 \<or> k = 1 \<and> nxt \<noteq> None"
proof (induction opts nxt a name e arbitrary: acts u k rule: cluster.induct)
  case (2 opts nxt a name sep v)
  show ?case
  proof (cases "\<not> takes_value a \<and> \<not> (name ! 1 = 45 \<or> v = []) \<and> \<not> (sep \<noteq> [] \<or> hd v = 45)")
    case True
    with 2 show ?thesis by (fastforce simp: map_sum_def split: option.splits sum.splits)
  qed (use 2(2) in \<open>auto split: if_splits\<close>)
qed (auto split: if_splits option.splits)

text \<open>One step of the reader over an option word that led to success.\<close>

lemma consume_step:
  assumes "consume opts ((w, Optional (Some a, name, e)) # ws) n extras = Inr (Inr r)"
  obtains acts u k m where "cluster opts (next_value ws) a name e = Inr (acts, u, k)"
    "take_actions acts n = Inr (Inr m)" "consume opts (drop k ws) m (extras @ u) = Inr (Inr r)"
  using assms by (auto split: sum.splits)

lemma consume_extras: "consume opts ws n extras = Inr (Inr (m, left)) \<Longrightarrow> \<exists>r. left = extras @ r"
proof (induction opts ws n extras rule: consume.induct)
  case (2 opts w a name e ws n extras)
  obtain acts u k n' where c: "cluster opts (next_value ws) a name e = Inr (acts, u, k)"
    "take_actions acts n = Inr (Inr n')" "consume opts (drop k ws) n' (extras @ u) = Inr (Inr (m, left))"
    using 2(2) by (rule consume_step)
  from 2(1) [OF c(1) refl refl c(2) refl c(3)] show ?case by auto
qed auto

lemma drop_next:
  "k = 0 \<or> k = 1 \<and> next_value ws \<noteq> None \<Longrightarrow> (w, kind) \<in> set ws \<Longrightarrow> kind \<noteq> Argument \<Longrightarrow> (w, kind) \<in> set (drop k ws)"
  by (auto simp: next_value_def split: list.splits word_kind.splits)

lemma consume_terminator:
  "consume opts ws n extras = Inr (Inr (m, left)) \<Longrightarrow> (w, Terminator) \<in> set ws \<Longrightarrow> left \<noteq> []"
proof (induction opts ws n extras rule: consume.induct)
  case (2 opts w' a name e ws n extras)
  obtain acts u k n' where c: "cluster opts (next_value ws) a name e = Inr (acts, u, k)"
    "take_actions acts n = Inr (Inr n')" "consume opts (drop k ws) n' (extras @ u) = Inr (Inr (m, left))"
    using 2(2) by (rule consume_step)
  have "(w, Terminator) \<in> set (drop k ws)"
    using 2(3) by (intro drop_next [OF cluster_uses [OF c(1)]]) simp_all
  from 2(1) [OF c(1) refl refl c(2) refl c(3) this] show ?case .
qed (auto dest: consume_extras)

lemma consume_spelled:
  assumes "well_formed opts"
  shows "consume opts ws n extras = Inr (Inr (m, [])) \<Longrightarrow> list_all (genuine opts) ws \<Longrightarrow>
    \<exists>sps. map fst ws = concat (map words sps) \<and> list_all (\<lambda>sp. meaning opts sp \<noteq> None) sps \<and> m = settings opts sps n"
  using assms
proof (induction opts ws n extras rule: consume.induct)
  case (1 opts n extras)
  then show ?case by (intro exI [of _ "[]"]) (simp add: settings_def)
next
  case (2 opts w a name e ws n extras)
  obtain acts u k n' where c: "cluster opts (next_value ws) a name e = Inr (acts, u, k)"
    "take_actions acts n = Inr (Inr n')" "consume opts (drop k ws) n' (extras @ u) = Inr (Inr (m, []))"
    using 2(2) by (rule consume_step)
  from consume_extras [OF c(3)] have u: "u = []" by simp
  have gen: "list_all (genuine opts) (drop k ws)"
    using 2(3) in_set_dropD [of _ k ws] by (auto simp: list_all_iff)
  from 2(1) [OF c(1) refl refl c(2) refl c(3) gen 2(4)] obtain sps where
    sps: "map fst (drop k ws) = concat (map words sps)" "list_all (\<lambda>sp. meaning opts sp \<noteq> None) sps"
      "m = settings opts sps n'" by blast
  have "\<forall>v. next_value ws = Some v \<longrightarrow> is_value opts v"
    using 2(3) by (auto simp: next_value_def split: list.splits word_kind.splits)
  moreover have "parse_optional opts w = Inr (Some (Some a, name, e))" using 2(3) by simp
  ultimately obtain sp g where sp: "meaning opts sp = Some g" "g n = n'" "words sp = w # map fst (take k ws)"
    using word_spelled [OF 2(4) _ c(1) [unfolded u] c(2)] by blast
  have "map fst ws = map fst (take k ws) @ map fst (drop k ws)" by (simp flip: map_append)
  with sps sp show ?case by (intro exI [of _ "sp # sps"]) (simp add: settings_def)
qed (auto dest: consume_extras)

lemma parse_args_decides:
  assumes "well_formed opts"
  shows "parse_args opts given n argv = Inr (Inr m) \<longleftrightarrow>
    (\<exists>sps. argv = concat (map words sps) \<and> list_all (\<lambda>sp. meaning opts sp \<noteq> None) sps \<and> m = settings opts sps n)
      \<and> given m"
proof
  assume r: "parse_args opts given n argv = Inr (Inr m)"
  then obtain ws where ws: "classify opts argv = Inr ws" "consume opts ws n [] = Inr (Inr (m, []))"
    by (auto simp: parse_args_def split: sum.splits if_splits)
  have "Terminator \<notin> snd ` set ws" using consume_terminator [OF ws(2)] by force
  from consume_spelled [OF assms ws(2) classify_genuine [OF ws(1) this]] classify_words [OF ws(1)] parse_args_given [OF r]
  show "(\<exists>sps. argv = concat (map words sps) \<and> list_all (\<lambda>sp. meaning opts sp \<noteq> None) sps \<and> m = settings opts sps n)
      \<and> given m" by simp
next
  assume "(\<exists>sps. argv = concat (map words sps) \<and> list_all (\<lambda>sp. meaning opts sp \<noteq> None) sps \<and> m = settings opts sps n)
      \<and> given m"
  then show "parse_args opts given n argv = Inr (Inr m)" using parse_args_spelled [OF assms] by blast
qed

end
