(* ===== verification/Options_Spec.thy ===== *)
theory Options_Spec
  imports Startup Argparse_Spec
begin

text \<open>
  What the server's options mean, as its help text says and independently of the parser's table: the
  settings a command line makes, the ways each may be spelled, and what a sequence of settings configures.
  The parser accepts exactly the lines that are such sequences, and configures what they say.
\<close>

section \<open>Names\<close>

text \<open>A name, or a beginning of it that is at least so long.\<close>

definition cut_short :: "ustr \<Rightarrow> nat \<Rightarrow> ustr \<Rightarrow> bool" where
  "cut_short name k p \<longleftrightarrow> py_startswith p name \<and> k \<le> length p"

lemma startswith_free: "py_startswith p s \<Longrightarrow> c \<notin> set s \<Longrightarrow> c \<notin> set p"
  by (auto simp: py_startswith_iff)

lemma startswith_Cons: "py_startswith (c # p) (d # s) \<longleftrightarrow> c = d \<and> py_startswith p s"
  "py_startswith (c # p) [] \<longleftrightarrow> False" "py_startswith [] s"
  by (auto simp: py_startswith_def)

text \<open>What is needed of a long name is set by \<open>--help\<close> and \<open>--host\<close>, the only ones that begin alike.\<close>

definition LONG_NAMES :: "ustr list" where
  "LONG_NAMES = map us [''--help'', ''--host'', ''--port'', ''--socket'', ''--allow-user'', ''--idle-timeout'', ''--verbose'']"

lemma long_names: "name \<in> set LONG_NAMES \<Longrightarrow> take 2 name = us ''--'' \<and> 61 \<notin> set name \<and> 3 \<le> length name"
  by (auto simp: LONG_NAMES_def us_Cons)

lemma resolve_options:
  "resolve (OPTIONS pf) p =
    (if cut_short (us ''--host'') 4 p then Some (Store (\<lambda>v. Inr (\<lambda>a. a\<lparr>host := v\<rparr>)))
     else if cut_short (us ''--port'') 3 p then Some (Store (\<lambda>v. map_sum id (\<lambda>n a. a\<lparr>port := Some n\<rparr>) (text_int v)))
     else if cut_short (us ''--socket'') 3 p then Some (Store (\<lambda>v. Inr (\<lambda>a. a\<lparr>socket := Some v\<rparr>)))
     else if cut_short (us ''--allow-user'') 3 p then Some (Store (\<lambda>v. Inr (\<lambda>a. a\<lparr>allow_user := Some v\<rparr>)))
     else if cut_short (us ''--idle-timeout'') 3 p
       then Some (Store (\<lambda>v. map_sum id (\<lambda>d a. a\<lparr>idle_arg := Some d\<rparr>) (fsd pf v)))
     else if cut_short (us ''--verbose'') 3 p \<or> p = us ''-v'' then Some (Store_true (\<lambda>a. a\<lparr>verbose_arg := True\<rparr>))
     else if cut_short (us ''--help'') 4 p \<or> p = us ''-h'' then Some Help
     else None)"
proof (cases "61 \<in> set p")
  case True
  then have "\<not> cut_short name k p" if "61 \<notin> set name" for name k
    using startswith_free [of p name 61] that by (auto simp: cut_short_def)
  then show ?thesis using True by (auto simp: resolve_def us_Cons)
next
  case False
  show ?thesis
  proof (cases "take 2 p = us ''--'' \<and> 3 \<le> length p")
    case True
    then obtain c r where long: "p = 45 # 45 # c # r"
      by (cases p; cases "tl p"; cases "tl (tl p)") (auto simp: us_Cons)
    consider "c = 104" | "c = 112" | "c = 115" | "c = 97" | "c = 105" | "c = 118"
      | "c \<notin> {104, 112, 115, 97, 105, 118}" by blast
    then show ?thesis
    proof cases
      case 1
      then show ?thesis using long False
       by (cases r) (simp_all add: resolve_def OPTIONS_def cut_short_def us_Cons startswith_Cons)
    qed (use long False in \<open>simp add: resolve_def OPTIONS_def cut_short_def us_Cons startswith_Cons\<close>)+
  next
    case short: False
    have d: "\<not> (take 2 p = us ''--'' \<and> p \<noteq> us ''--'')"
      using short by (cases p; cases "tl p"; cases "tl (tl p)") (auto simp: us_Cons)
    have "\<not> cut_short name k p" if "name \<in> set LONG_NAMES" "3 \<le> k" for name k
      using short long_names [OF that(1)] that(2) by (auto simp: cut_short_def py_startswith_iff)
    note k = this [unfolded LONG_NAMES_def]
    have "resolve (OPTIONS pf) p = map_of (OPTIONS pf) p"
      using False by (simp only: resolve_def d if_False) (simp split: option.split)
    moreover have "p \<notin> set LONG_NAMES" using short long_names [of p] by auto
    ultimately show ?thesis using k by (simp add: OPTIONS_def LONG_NAMES_def)
  qed
qed

section \<open>Values\<close>

text \<open>A word that can stand as the value of the option before it.\<close>

definition plain_value :: "ustr \<Rightarrow> bool" where
  "plain_value v \<longleftrightarrow> v = [] \<or> hd v \<noteq> 45 \<or> v = us ''-''
     \<or> (negative_number v \<or> 32 \<in> set v) \<and> take 2 v \<noteq> us ''-h'' \<and> take 2 v \<noteq> us ''-v''
       \<and> \<not> (take 2 v = us ''--'' \<and> (\<exists>name \<in> set LONG_NAMES. py_startswith (before 61 v) name))"

lemma option_names: "fst ` set (OPTIONS pf) = {us ''-h'', us ''-v''} \<union> set LONG_NAMES"
  by (auto simp: OPTIONS_def LONG_NAMES_def)

lemma map_of_options: "(\<exists>a. map_of (OPTIONS pf) w = Some a) \<longleftrightarrow> w \<in> {us ''-h'', us ''-v''} \<union> set LONG_NAMES"
  unfolding option_names [of pf, symmetric] using map_of_eq_None_iff [of "OPTIONS pf" w] by auto

lemma map_filter_empty: "List.map_filter f xs = [] \<longleftrightarrow> (\<forall>x \<in> set xs. f x = None)"
  by (induction xs) (simp_all add: map_filter_simps split: option.split)

lemma tuples_empty:
  "option_tuples opts s = [] \<longleftrightarrow>
     (if take 2 s = us ''--'' then \<forall>name \<in> fst ` set opts. \<not> py_startswith (before 61 s) name
      else \<forall>name \<in> fst ` set opts. name \<noteq> take 2 s \<and> \<not> py_startswith s name)"
  by (force simp: option_tuples_def map_filter_empty split: if_splits)

lemma is_value_options: "is_value (OPTIONS pf) v \<longleftrightarrow> plain_value v"
proof (cases "v = [] \<or> hd v \<noteq> 45 \<or> v = us ''-''")
  case True
  moreover have "map_of (OPTIONS pf) (us ''-'') = None" by (simp add: OPTIONS_def us_Cons)
  ultimately show ?thesis
    by (auto simp: is_value_def parse_optional_def plain_value_def us_Cons)
next
  case False
  then obtain y r where v: "v = 45 # y # r" by (cases v; cases "tl v") (auto simp: us_Cons)
  have eq: "is_value (OPTIONS pf) v \<longleftrightarrow> v \<noteq> us ''--'' \<and> (negative_number v \<or> 32 \<in> set v)
      \<and> \<not> (\<exists>a. map_of (OPTIONS pf) v = Some a) \<and> \<not> ((\<exists>a. map_of (OPTIONS pf) (before 61 v) = Some a) \<and> 61 \<in> set v)
      \<and> option_tuples (OPTIONS pf) v = []"
    using after_None [of 61 v] unfolding is_value_def parse_optional_def v
    by (auto split: option.splits list.splits)
  show ?thesis
  proof (cases "y = 45")
    case True
    then have t: "take 2 v = us ''--''" by (simp add: v us_Cons)
    then have o: "option_tuples (OPTIONS pf) v = [] \<longleftrightarrow>
        \<not> (\<exists>name \<in> {us ''-h'', us ''-v''} \<union> set LONG_NAMES. py_startswith (before 61 v) name)"
      by (simp add: tuples_empty option_names)
    have b: "before 61 v = 45 # 45 # before 61 r" by (simp add: v True before_def)
    have s: "\<not> py_startswith (before 61 v) (us ''-h'')" "\<not> py_startswith (before 61 v) (us ''-v'')"
      by (simp_all add: b us_Cons startswith_Cons)
    have "option_tuples (OPTIONS pf) v \<noteq> []" if "v \<in> {us ''-h'', us ''-v''} \<union> set LONG_NAMES"
    proof -
      have "v \<in> set LONG_NAMES" using that True by (auto simp: v us_Cons)
      moreover from this have "before 61 v = v" using long_names [of v] by (simp add: before_id)
      moreover have "py_startswith v v" by (simp add: py_startswith_def)
      ultimately show ?thesis unfolding o by auto
    qed
    moreover have "option_tuples (OPTIONS pf) v \<noteq> []" if "before 61 v \<in> {us ''-h'', us ''-v''} \<union> set LONG_NAMES"
    proof -
      have "py_startswith (before 61 v) (before 61 v)" by (simp add: py_startswith_def)
      with that show ?thesis unfolding o by metis
    qed
    moreover have "v \<noteq> us ''--''" if "negative_number v \<or> 32 \<in> set v"
      using that by (auto simp: us_Cons negative_number_def decimals_def decimal_ascii is_digit_def after_def)
    ultimately show ?thesis
      unfolding eq map_of_options plain_value_def using False t o s by (auto simp: us_Cons)
  next
    case False
    then have t: "take 2 v \<noteq> us ''--''" by (simp add: v us_Cons)
    have long: "name \<noteq> take 2 v \<and> name \<noteq> v \<and> name \<noteq> before 61 v \<and> \<not> py_startswith v name" if "name \<in> set LONG_NAMES" for name
      using long_names [OF that] False t by (auto simp: v py_startswith_iff before_def us_Cons)
    then have "option_tuples (OPTIONS pf) v = [] \<longleftrightarrow> take 2 v \<noteq> us ''-h'' \<and> take 2 v \<noteq> us ''-v''"
      using t by (auto simp: tuples_empty option_names v us_Cons startswith_Cons)
    moreover have "take 2 v = w" if "w \<in> {us ''-h'', us ''-v''}" "v = w \<or> before 61 v = w" for w
      using that by (auto simp: v us_Cons before_def split: if_splits)
    moreover have "v \<noteq> us ''--''" using False by (simp add: v us_Cons)
    ultimately show ?thesis
      unfolding eq map_of_options plain_value_def using long t False by (auto simp: v us_Cons)
  qed
qed


section \<open>Settings\<close>

text \<open>
  The settings, and how they may be spelled: the name, or enough of it not to be mistaken for another one,
  with the value in the same word or in the next; the verbose switch also as \<open>-v\<close>, any number of times.
\<close>

datatype setting = Host ustr | Port int | Socket ustr | Allow_user ustr | Idle_timeout duration | Verbose

definition given_as :: "ustr \<Rightarrow> nat \<Rightarrow> ustr list \<Rightarrow> ustr \<Rightarrow> bool" where
  "given_as name k ws v \<longleftrightarrow> (\<exists>p. cut_short name k p \<and> (ws = [p @ 61 # v] \<or> ws = [p, v] \<and> plain_value v))"

fun said :: "(ustr \<Rightarrow> exn + duration) \<Rightarrow> setting \<Rightarrow> ustr list \<Rightarrow> bool" where
  "said pf (Host v) ws \<longleftrightarrow> given_as (us ''--host'') 4 ws v"
| "said pf (Port n) ws \<longleftrightarrow> (\<exists>v. given_as (us ''--port'') 3 ws v \<and> text_int v = Inr n)"
| "said pf (Socket v) ws \<longleftrightarrow> given_as (us ''--socket'') 3 ws v"
| "said pf (Allow_user v) ws \<longleftrightarrow> given_as (us ''--allow-user'') 3 ws v"
| "said pf (Idle_timeout d) ws \<longleftrightarrow> (\<exists>v. given_as (us ''--idle-timeout'') 3 ws v \<and> pf v = Inr d)"
| "said pf Verbose ws \<longleftrightarrow> (\<exists>p. cut_short (us ''--verbose'') 3 p \<and> ws = [p])
     \<or> (\<exists>vs. set vs = {118} \<and> ws = [45 # vs])"

inductive says :: "(ustr \<Rightarrow> exn + duration) \<Rightarrow> setting list \<Rightarrow> ustr list \<Rightarrow> bool" for pf where
  says_nothing: "says pf [] []"
| says_more: "said pf s ws \<Longrightarrow> says pf ss rest \<Longrightarrow> says pf (s # ss) (ws @ rest)"

fun apply_setting :: "setting \<Rightarrow> args \<Rightarrow> args" where
  "apply_setting (Host v) a = a\<lparr>host := v\<rparr>"
| "apply_setting (Port n) a = a\<lparr>port := Some n\<rparr>"
| "apply_setting (Socket v) a = a\<lparr>socket := Some v\<rparr>"
| "apply_setting (Allow_user v) a = a\<lparr>allow_user := Some v\<rparr>"
| "apply_setting (Idle_timeout d) a = a\<lparr>idle_arg := Some d\<rparr>"
| "apply_setting Verbose a = a\<lparr>verbose_arg := True\<rparr>"

lemma fsd_Inr: "fsd pf v = Inr d \<longleftrightarrow> pf v = Inr d"
  by (auto simp: fsd_def split: sum.splits)

text \<open>What an option name followed by a value sets.\<close>

definition sets :: "(ustr \<Rightarrow> exn + duration) \<Rightarrow> ustr \<Rightarrow> ustr \<Rightarrow> setting \<Rightarrow> bool" where
  "sets pf p v s \<longleftrightarrow> (case s of
     Host w \<Rightarrow> cut_short (us ''--host'') 4 p \<and> w = v
   | Port n \<Rightarrow> cut_short (us ''--port'') 3 p \<and> text_int v = Inr n
   | Socket w \<Rightarrow> cut_short (us ''--socket'') 3 p \<and> w = v
   | Allow_user w \<Rightarrow> cut_short (us ''--allow-user'') 3 p \<and> w = v
   | Idle_timeout d \<Rightarrow> cut_short (us ''--idle-timeout'') 3 p \<and> pf v = Inr d
   | Verbose \<Rightarrow> False)"

lemma said_sets:
  "s \<noteq> Verbose \<Longrightarrow> said pf s ws \<longleftrightarrow> (\<exists>p v. sets pf p v s \<and> (ws = [p @ 61 # v] \<or> ws = [p, v] \<and> plain_value v))"
  by (cases s) (auto simp: sets_def given_as_def)

lemma cut_short_starts: "cut_short name k p \<Longrightarrow> 3 \<le> k \<Longrightarrow> take 3 p = take 3 name"
  by (auto simp: cut_short_def py_startswith_iff)

lemma apply_setting_eq:
  "apply_setting (Host v) = (\<lambda>a. a\<lparr>host := v\<rparr>)" "apply_setting (Port n) = (\<lambda>a. a\<lparr>port := Some n\<rparr>)"
  "apply_setting (Socket v) = (\<lambda>a. a\<lparr>socket := Some v\<rparr>)" "apply_setting (Allow_user v) = (\<lambda>a. a\<lparr>allow_user := Some v\<rparr>)"
  "apply_setting (Idle_timeout d) = (\<lambda>a. a\<lparr>idle_arg := Some d\<rparr>)" "apply_setting Verbose = (\<lambda>a. a\<lparr>verbose_arg := True\<rparr>)"
  by (simp_all add: fun_eq_iff)

lemma converted: "(case map_sum id h x of Inl e \<Rightarrow> None | Inr y \<Rightarrow> Some y) = Some g \<longleftrightarrow> (\<exists>y. x = Inr y \<and> g = h y)"
  by (cases x) auto

lemma starts:
  "cut_short (us ''--host'') 4 p \<Longrightarrow> take 3 p = [45, 45, 104]"
  "cut_short (us ''--help'') 4 p \<Longrightarrow> take 3 p = [45, 45, 104]"
  "cut_short (us ''--port'') 3 p \<Longrightarrow> take 3 p = [45, 45, 112]"
  "cut_short (us ''--socket'') 3 p \<Longrightarrow> take 3 p = [45, 45, 115]"
  "cut_short (us ''--allow-user'') 3 p \<Longrightarrow> take 3 p = [45, 45, 97]"
  "cut_short (us ''--idle-timeout'') 3 p \<Longrightarrow> take 3 p = [45, 45, 105]"
  "cut_short (us ''--verbose'') 3 p \<Longrightarrow> take 3 p = [45, 45, 118]"
  by (auto simp: us_Cons dest!: cut_short_starts)

lemma stored_sets: "stored (resolve (OPTIONS pf) p) v = Some g \<longleftrightarrow> (\<exists>s. sets pf p v s \<and> g = apply_setting s)"
proof -
  have ex: "(\<exists>s. sets pf p v s \<and> g = apply_setting s) \<longleftrightarrow>
      cut_short (us ''--host'') 4 p \<and> g = apply_setting (Host v)
      \<or> cut_short (us ''--port'') 3 p \<and> (\<exists>n. text_int v = Inr n \<and> g = apply_setting (Port n))
      \<or> cut_short (us ''--socket'') 3 p \<and> g = apply_setting (Socket v)
      \<or> cut_short (us ''--allow-user'') 3 p \<and> g = apply_setting (Allow_user v)
      \<or> cut_short (us ''--idle-timeout'') 3 p \<and> (\<exists>d. pf v = Inr d \<and> g = apply_setting (Idle_timeout d))"
    (is "?l \<longleftrightarrow> ?r")
  proof
    assume ?l
    then obtain s where "sets pf p v s" "g = apply_setting s" by blast
    then show ?r by (cases s) (auto simp: sets_def)
  next
    assume ?r
    then show ?l by (elim disjE conjE exE) (force simp: sets_def intro: exI [of _ "Host _"])+
  qed
  let ?H = "cut_short (us ''--host'') 4 p" and ?P = "cut_short (us ''--port'') 3 p" and ?S = "cut_short (us ''--socket'') 3 p"
    and ?A = "cut_short (us ''--allow-user'') 3 p" and ?I = "cut_short (us ''--idle-timeout'') 3 p"
  consider "take 3 p = [45, 45, 104]" | "take 3 p = [45, 45, 112]" | "take 3 p = [45, 45, 115]" | "take 3 p = [45, 45, 97]"
    | "take 3 p = [45, 45, 105]" | "take 3 p \<notin> {[45, 45, 104], [45, 45, 112], [45, 45, 115], [45, 45, 97], [45, 45, 105]}"
    by blast
  then show ?thesis
  proof cases
    case 1
    then have "\<not> ?P" "\<not> ?S" "\<not> ?A" "\<not> ?I" using starts [of p] by auto
    then show ?thesis unfolding ex resolve_options by (simp add: apply_setting_eq) auto
  next
    case 2
    then have "\<not> ?H" "\<not> ?S" "\<not> ?A" "\<not> ?I" using starts [of p] by auto
    then show ?thesis unfolding ex resolve_options by (simp add: apply_setting_eq converted)
  next
    case 3
    then have "\<not> ?H" "\<not> ?P" "\<not> ?A" "\<not> ?I" using starts [of p] by auto
    then show ?thesis unfolding ex resolve_options by (simp add: apply_setting_eq) auto
  next
    case 4
    then have "\<not> ?H" "\<not> ?P" "\<not> ?S" "\<not> ?I" using starts [of p] by auto
    then show ?thesis unfolding ex resolve_options by (simp add: apply_setting_eq) auto
  next
    case 5
    then have "\<not> ?H" "\<not> ?P" "\<not> ?S" "\<not> ?A" using starts [of p] by auto
    then show ?thesis unfolding ex resolve_options by (simp add: apply_setting_eq converted fsd_Inr)
  next
    case 6
    then have "\<not> ?H" "\<not> ?P" "\<not> ?S" "\<not> ?A" "\<not> ?I" using starts [of p] by auto
    then show ?thesis unfolding ex resolve_options by simp
  qed
qed

lemma switch_options: "(case resolve (OPTIONS pf) p of Some (Store_true g) \<Rightarrow> Some g | _ \<Rightarrow> None) = Some g
    \<longleftrightarrow> (cut_short (us ''--verbose'') 3 p \<or> p = us ''-v'') \<and> g = apply_setting Verbose"
proof -
  have v: "p \<noteq> us ''-v''" if "cut_short name 4 p \<or> cut_short name 3 p" for name
    using that by (auto simp: cut_short_def us_Cons)
  show ?thesis
    using starts [of p] v unfolding resolve_options by (auto simp: apply_setting_eq us_Cons)
qed

lemma flags_options:
  "flags (OPTIONS pf) cs = (if set cs \<subseteq> {118} then Some (if cs = [] then (\<lambda>a. a) else apply_setting Verbose) else None)"
proof (induction cs)
  case (Cons c cs)
  have m: "map_of (OPTIONS pf) [45, c] = (if c = 104 then Some Help else if c = 118 then Some (Store_true (apply_setting Verbose)) else None)"
    by (simp add: OPTIONS_def us_Cons apply_setting_eq)
  show ?case unfolding flags.simps m Cons.IH by (auto simp: apply_setting_eq)
qed simp

lemma sets_said: "sets pf p v s \<Longrightarrow> ws = [p @ 61 # v] \<or> ws = [p, v] \<and> plain_value v \<Longrightarrow> said pf s ws"
  using said_sets [of s pf ws] by (cases "s = Verbose") (auto simp: sets_def)

lemma meaning_said: "meaning (OPTIONS pf) sp = Some g \<Longrightarrow> \<exists>s. said pf s (words sp) \<and> g = apply_setting s"
proof (cases sp)
  case (Joined p v)
  assume "meaning (OPTIONS pf) sp = Some g"
  then obtain s where "sets pf p v s" "g = apply_setting s" using Joined by (auto simp: stored_sets)
  then show ?thesis using Joined sets_said by (intro exI [of _ s]) simp
next
  case (Separate p v)
  assume "meaning (OPTIONS pf) sp = Some g"
  then obtain s where "sets pf p v s" "g = apply_setting s" "plain_value v"
    using Separate by (auto simp: stored_sets is_value_options split: if_splits)
  then show ?thesis using Separate sets_said by (intro exI [of _ s]) simp
next
  case (Switch p)
  assume "meaning (OPTIONS pf) sp = Some g"
  then have "(cut_short (us ''--verbose'') 3 p \<or> p = us ''-v'') \<and> g = apply_setting Verbose"
    unfolding Switch meaning.simps switch_options .
  moreover have "set [118::int] = {118} \<and> us ''-v'' = 45 # [118]" by (simp add: us_Cons)
  ultimately have "said pf Verbose (words sp)" unfolding Switch by auto
  with \<open>_ \<and> g = _\<close> show ?thesis by blast
next
  case (Flags cs)
  assume "meaning (OPTIONS pf) sp = Some g"
  then have "set cs \<subseteq> {118}" "cs \<noteq> []" "g = apply_setting Verbose"
    using Flags by (auto simp: flags_options split: if_splits)
  then have "set cs = {118}" by (cases cs) auto
  with Flags \<open>g = _\<close> show ?thesis by (intro exI [of _ Verbose]) simp
qed

lemma said_meaning: "said pf s ws \<Longrightarrow> \<exists>sp. words sp = ws \<and> meaning (OPTIONS pf) sp = Some (apply_setting s)"
proof (cases "s = Verbose")
  case False
  assume "said pf s ws"
  with False said_sets obtain p v where "sets pf p v s" "ws = [p @ 61 # v] \<or> ws = [p, v] \<and> plain_value v" by blast
  then have "stored (resolve (OPTIONS pf) p) v = Some (apply_setting s)" "ws = [p @ 61 # v] \<or> ws = [p, v] \<and> plain_value v"
    using stored_sets by blast+
  then show ?thesis
    by (elim disjE) (auto simp: is_value_options intro: exI [of _ "Joined p v"] exI [of _ "Separate p v"])
next
  case True
  assume "said pf s ws"
  then consider p where "cut_short (us ''--verbose'') 3 p" "ws = [p]" | vs where "set vs = {118}" "ws = [45 # vs]"
    using True by auto
  then show ?thesis
  proof cases
    case 1
    then show ?thesis using switch_options [of pf p "apply_setting s"] True by (intro exI [of _ "Switch p"]) simp
  next
    case 2
    show ?thesis
    proof (cases "2 \<le> length vs")
      case True
      with 2 \<open>s = Verbose\<close> flags_options [of pf vs] show ?thesis
        by (intro exI [of _ "Flags vs"]) auto
    next
      case False
      with 2 have "vs = [118]" by (cases vs; cases "tl vs") auto
      then have "ws = [us ''-v'']" using 2 by (simp add: us_Cons)
      then show ?thesis using switch_options [of pf "us ''-v''" "apply_setting s"] True by (intro exI [of _ "Switch (us ''-v'')"]) simp
    qed
  qed
qed

text \<open>The line says the settings, if and only if it is spelled by meaningful spellings with these meanings.\<close>

lemma says_spelled:
  "says pf ss ws \<Longrightarrow> \<exists>sps. ws = concat (map words sps) \<and> list_all (\<lambda>sp. meaning (OPTIONS pf) sp \<noteq> None) sps
     \<and> (\<forall>a. settings (OPTIONS pf) sps a = foldl (\<lambda>a s. apply_setting s a) a ss)"
proof (induction rule: says.induct)
  case (says_more s ws ss rest)
  then obtain sps where "rest = concat (map words sps)" "list_all (\<lambda>sp. meaning (OPTIONS pf) sp \<noteq> None) sps"
    "\<forall>a. settings (OPTIONS pf) sps a = foldl (\<lambda>a s. apply_setting s a) a ss" by blast
  moreover obtain sp where "words sp = ws" "meaning (OPTIONS pf) sp = Some (apply_setting s)"
    using said_meaning [OF says_more.hyps(1)] by blast
  ultimately show ?case by (intro exI [of _ "sp # sps"]) (simp add: settings_def)
qed (auto simp: settings_def intro: exI [of _ "[]"])

lemma spelled_says:
  "list_all (\<lambda>sp. meaning (OPTIONS pf) sp \<noteq> None) sps \<Longrightarrow>
   \<exists>ss. says pf ss (concat (map words sps)) \<and> (\<forall>a. settings (OPTIONS pf) sps a = foldl (\<lambda>a s. apply_setting s a) a ss)"
proof (induction sps)
  case Nil
  then show ?case using says_nothing by (fastforce simp: settings_def)
next
  case (Cons sp sps)
  then obtain ss where "says pf ss (concat (map words sps))"
    "\<forall>a. settings (OPTIONS pf) sps a = foldl (\<lambda>a s. apply_setting s a) a ss" by auto
  moreover obtain s where "said pf s (words sp)" "meaning (OPTIONS pf) sp = Some (apply_setting s)"
    using Cons.prems meaning_said [of pf sp] by auto
  ultimately show ?case using says_more [of pf s "words sp" ss] by (intro exI [of _ "s # ss"]) (auto simp: settings_def)
qed

section \<open>What they configure\<close>

text \<open>What the last setting of a kind leaves.\<close>

definition last_of :: "('a \<Rightarrow> 'b option) \<Rightarrow> 'b \<Rightarrow> 'a list \<Rightarrow> 'b" where
  "last_of f d xs = (case List.map_filter f xs of [] \<Rightarrow> d | y # ys \<Rightarrow> last (y # ys))"

lemma last_of_simps: "last_of f d [] = d" "last_of f d (x # xs) = last_of f (case f x of None \<Rightarrow> d | Some y \<Rightarrow> y) xs"
  by (simp_all add: last_of_def map_filter_simps split: option.split list.split)

definition configured :: "setting list \<Rightarrow> args" where
  "configured ss = \<lparr>host = last_of (\<lambda>s. case s of Host h \<Rightarrow> Some h | _ \<Rightarrow> None) (us ''127.0.0.1'') ss,
     port = last_of (\<lambda>s. case s of Port n \<Rightarrow> Some (Some n) | _ \<Rightarrow> None) None ss,
     socket = last_of (\<lambda>s. case s of Socket p \<Rightarrow> Some (Some p) | _ \<Rightarrow> None) None ss,
     allow_user = last_of (\<lambda>s. case s of Allow_user u \<Rightarrow> Some (Some u) | _ \<Rightarrow> None) None ss,
     idle_arg = last_of (\<lambda>s. case s of Idle_timeout d \<Rightarrow> Some (Some d) | _ \<Rightarrow> None) None ss,
     verbose_arg = (Verbose \<in> set ss)\<rparr>"

lemma settings_configured: "foldl (\<lambda>a s. apply_setting s a) DEFAULTS ss = configured ss"
proof -
  have "foldl (\<lambda>a s. apply_setting s a) a ss = \<lparr>host = last_of (\<lambda>s. case s of Host h \<Rightarrow> Some h | _ \<Rightarrow> None) (host a) ss,
     port = last_of (\<lambda>s. case s of Port n \<Rightarrow> Some (Some n) | _ \<Rightarrow> None) (port a) ss,
     socket = last_of (\<lambda>s. case s of Socket p \<Rightarrow> Some (Some p) | _ \<Rightarrow> None) (socket a) ss,
     allow_user = last_of (\<lambda>s. case s of Allow_user u \<Rightarrow> Some (Some u) | _ \<Rightarrow> None) (allow_user a) ss,
     idle_arg = last_of (\<lambda>s. case s of Idle_timeout d \<Rightarrow> Some (Some d) | _ \<Rightarrow> None) (idle_arg a) ss,
     verbose_arg = (verbose_arg a \<or> Verbose \<in> set ss)\<rparr>" for a
  proof (induction ss arbitrary: a)
    case (Cons s ss)
    then show ?case by (cases s) (simp_all add: last_of_simps)
  qed (simp add: last_of_simps)
  then show ?thesis by (simp add: configured_def DEFAULTS_def)
qed

lemma options_well_formed: "well_formed (OPTIONS parse_fsd)"
  by (simp add: well_formed_def OPTIONS_def us_Cons py_startswith_def)

lemma command_line_says: "command_line pf argv = Inr (Inr a) \<longleftrightarrow> (\<exists>ss. says pf ss argv \<and> a = configured ss)"
  unfolding command_line_def parse_args_decides [OF options_well_formed]
  using says_spelled [of pf _ argv] spelled_says [of pf] settings_configured by metis

end
