(* ===== verification/Startup_Spec.thy ===== *)
theory Startup_Spec
  imports Options_Spec
begin

text \<open>
  What the start of the server guarantees: an inherited socket keeps its family and no
  descriptor is left behind; a self-made unix socket is owner-only before anyone can connect;
  on a unix socket the peer check is always on; and every way \<open>main\<close> can end.
\<close>

section \<open>The calls, one by one\<close>

lemma syscall_p_Inr: "syscall_p c s = (Inr x, t) \<longleftrightarrow> faults s c = None \<and> t = s\<lparr>calls := calls s @ [c]\<rparr>"
  by (auto simp: syscall_p_def split: option.splits)

lemma syscall_p_Inl: "syscall_p c s = (Inl e, t) \<longleftrightarrow> faults s c = Some e \<and> t = s\<lparr>calls := calls s @ [c]\<rparr>"
  by (auto simp: syscall_p_def split: option.splits)

lemma bind_p_eq_Inr: "bind_p m f s = (Inr y, t) \<longleftrightarrow> (\<exists>x u. m s = (Inr x, u) \<and> f x u = (Inr y, t))"
  by (auto simp: bind_p_def split: prod.splits sum.splits)

lemma seq_p_eq_Inr: "seq_p m n s = (Inr y, t) \<longleftrightarrow> (\<exists>u. m s = (Inr (), u) \<and> n u = (Inr y, t))"
  by (auto simp: seq_p_def bind_p_eq_Inr)

lemma bind_p_eq_Inl:
  "bind_p m f s = (Inl e, t) \<longleftrightarrow> m s = (Inl e, t) \<or> (\<exists>x u. m s = (Inr x, u) \<and> f x u = (Inl e, t))"
  by (auto simp: bind_p_def split: prod.splits sum.splits)

lemma free_fd_Some: "free_fd s = Some n \<Longrightarrow> fds s n = None"
  by (auto simp: free_fd_def find_Some_iff)

lemma install_fd_Inr:
  "install_fd d s = (Inr n, t) \<Longrightarrow> fds s n = None \<and> t = s\<lparr>fds := (fds s)(n \<mapsto> d)\<rparr>"
  by (auto simp: install_fd_def free_fd_Some split: option.splits)

lemma os_dup_Inr:
  assumes "os_dup fd s = (Inr n, t)"
  shows "\<exists>d. fds s fd = Some d \<and> fds s n = None
    \<and> t = s\<lparr>fds := (fds s)(n \<mapsto> d), calls := calls s @ [Dup fd]\<rparr>"
  using assms
  by (auto simp: os_dup_def seq_p_eq_Inr bind_p_eq_Inr syscall_p_Inr lookup_fd_def split: option.splits
      dest!: install_fd_Inr)

lemma socket_fileno_Inr:
  "socket_fileno fam fd s = (Inr so, t) \<longleftrightarrow>
     (\<exists>d. faults s (Socket_of_fd fd) = None \<and> fds s fd = Some d
        \<and> so = \<lparr>sock_fd = fd, family = (case fam of Some f \<Rightarrow> f | None \<Rightarrow> domain d)\<rparr>
        \<and> t = s\<lparr>calls := calls s @ [Socket_of_fd fd]\<rparr>)"
  by (auto simp: socket_fileno_def seq_p_eq_Inr bind_p_eq_Inr syscall_p_Inr lookup_fd_def return_p_def
      split: option.splits)

lemma finally_p_Inr: "finally_p m f s = (Inr x, t) \<longleftrightarrow> (\<exists>u. m s = (Inr x, u) \<and> f u = (Inr (), t))"
  by (auto simp: finally_p_def split: prod.splits sum.splits)

lemma socket_close_Inr:
  "socket_close so s = (Inr (), t) \<longleftrightarrow> faults s (Close_fd (sock_fd so)) = None
     \<and> t = s\<lparr>fds := (fds s)(sock_fd so := None), calls := calls s @ [Close_fd (sock_fd so)]\<rparr>"
  by (auto simp: socket_close_def seq_p_eq_Inr syscall_p_Inr modify_p_def)

lemma get_domain_Inr:
  "get_domain so s = (Inr n, t) \<longleftrightarrow>
     (\<exists>d. fds s (sock_fd so) = Some d \<and> n = domain d \<and> faults s (Get_domain (sock_fd so)) = None
        \<and> t = s\<lparr>calls := calls s @ [Get_domain (sock_fd so)]\<rparr>)"
  by (auto simp: get_domain_def seq_p_eq_Inr bind_p_eq_Inr syscall_p_Inr lookup_fd_def return_p_def
      split: option.splits)

lemma address_family_Inr: "address_family n s = (Inr m, t) \<longleftrightarrow> families s n \<and> m = n \<and> t = s"
  by (auto simp: address_family_def)

lemma listen_socket_Inr:
  assumes "listen_socket fd s = (Inr so, t)"
  shows "sock_fd so = fd \<and> (\<exists>d. fds s fd = Some d \<and> family so = domain d) \<and> fds t = fds s"
proof -
  obtain n u where n: "os_dup fd s = (Inr n, u)"
    using assms by (auto simp: listen_socket_def bind_p_eq_Inr)
  then obtain d where d: "fds s fd = Some d" "fds s n = None"
    "u = s\<lparr>fds := (fds s)(n \<mapsto> d), calls := calls s @ [Dup fd]\<rparr>"
    using os_dup_Inr by blast
  then have "(fds u)(n := None) = fds s" by (auto simp: fun_eq_iff)
  with assms n d show ?thesis
    by (auto simp: listen_socket_def bind_p_eq_Inr socket_fileno_Inr finally_p_Inr get_domain_Inr
        address_family_Inr socket_close_Inr)
qed

lemma listen_socket_family:
  "listen_socket fd s = (Inr so, t) \<Longrightarrow> \<exists>d. fds s fd = Some d \<and> family so = domain d"
  "listen_socket fd s = (Inr so, t) \<Longrightarrow> sock_fd so = fd"
  by (simp_all add: listen_socket_Inr)

text \<open>
  C31. An inherited listening descriptor is wrapped as itself, with the address family the
  kernel reports for it (never a default), and the duplicate used to ask is closed again: the
  descriptor table is what it was.
\<close>

theorem listen_socket_preserves:
  assumes "listen_socket fd s = (Inr so, t)"
  shows "sock_fd so = fd \<and> (\<exists>d. fds s fd = Some d \<and> family so = domain d) \<and> fds t = fds s"
  using assms by (rule listen_socket_Inr)

text \<open>The other direction: with nothing refused and a descriptor to spare, it succeeds.\<close>

lemma listen_socket_succeeds:
  assumes "fds s fd = Some d" and "families s (domain d)" and "\<forall>c. faults s c = None" and "free_fd s = Some n"
  shows "\<exists>t. listen_socket fd s = (Inr \<lparr>sock_fd = fd, family = domain d\<rparr>, t)
    \<and> faults t = faults s \<and> max_fds t = max_fds s"
proof -
  have n: "fds s n = None" by (rule free_fd_Some [OF assms(4)])
  then have "n \<noteq> fd" using assms(1) by auto
  then show ?thesis
    using assms n
    by (simp add: listen_socket_def os_dup_def seq_p_def bind_p_def syscall_p_def lookup_fd_def
        install_fd_def free_fd_def socket_fileno_def return_p_def finally_p_def get_domain_def
        address_family_def socket_close_def modify_p_def)
qed

definition sample_osys :: osys where
  "sample_osys = \<lparr>fds = [0 \<mapsto> \<lparr>domain = AF_INET, is_listening = False\<rparr>,
       3 \<mapsto> \<lparr>domain = AF_UNIX, is_listening = True\<rparr>],
     max_fds = 8, nodes = (\<lambda>_. None), umask = 18, families = (\<lambda>n. n = AF_UNIX \<or> n = AF_INET),
     faults = (\<lambda>_. None), calls = [], stderr = []\<rparr>"

lemma sample_free_fd: "free_fd sample_osys = Some 1"
  by (simp add: free_fd_def sample_osys_def eval_nat_numeral upt_rec)

lemma listen_socket_preserves_witness:
  "\<exists>so t. listen_socket 3 sample_osys = (Inr so, t) \<and> family so = AF_UNIX \<and> fds t = fds sample_osys"
proof -
  have "fds sample_osys 3 = Some \<lparr>domain = AF_UNIX, is_listening = True\<rparr>" by (simp add: sample_osys_def)
  from listen_socket_succeeds [OF this _ _ sample_free_fd]
  obtain t where t: "listen_socket 3 sample_osys = (Inr \<lparr>sock_fd = 3, family = AF_UNIX\<rparr>, t)"
    by (auto simp: sample_osys_def)
  from listen_socket_preserves [OF t] t show ?thesis by auto
qed

section \<open>Before, after and on failure\<close>

text \<open>
  \<open>triple P m Q R\<close>: from a state in \<open>P\<close>, \<open>m\<close> returns in a state in \<open>Q\<close> or raises in one in
  \<open>R\<close>.
\<close>

definition triple :: "('s \<Rightarrow> bool) \<Rightarrow> ('s, 'a) prog \<Rightarrow> ('s \<Rightarrow> bool) \<Rightarrow> ('s \<Rightarrow> bool) \<Rightarrow> bool" where
  "triple P m Q R \<longleftrightarrow> (\<forall>s. P s \<longrightarrow> (case m s of (Inr _, t) \<Rightarrow> Q t | (Inl _, t) \<Rightarrow> R t))"

lemma tripleD: "triple P m Q R \<Longrightarrow> P s \<Longrightarrow> m s = (r, t) \<Longrightarrow> (case r of Inr _ \<Rightarrow> Q t | Inl _ \<Rightarrow> R t)"
  unfolding triple_def by (cases r) fastforce+

lemma triple_bind:
  "triple P m Q R \<Longrightarrow> (\<And>x. triple Q (f x) Q' R) \<Longrightarrow> triple P (bind_p m f) Q' R"
  unfolding triple_def bind_p_def by (fastforce split: prod.splits sum.splits)

lemma triple_seq: "triple P m Q R \<Longrightarrow> triple Q n Q' R \<Longrightarrow> triple P (seq_p m n) Q' R"
  unfolding seq_p_def by (rule triple_bind)

lemma triple_catch: "triple P m Q R' \<Longrightarrow> (\<And>e. triple R' (h e) Q R) \<Longrightarrow> triple P (catch_p m h) Q R"
  unfolding triple_def catch_p_def by (fastforce split: prod.splits sum.splits)

lemma triple_return: "triple P (return_p x) P R"
  and triple_raise: "triple P (raise_p e) Q P"
  by (simp_all add: triple_def prog_simps)

lemma triple_if: "triple P m Q R \<Longrightarrow> triple P n Q R \<Longrightarrow> triple P (if b then m else n) Q R"
  by simp

text \<open>The descriptors that clients can connect to.\<close>

definition listeners :: "osys \<Rightarrow> nat set" where
  "listeners s = {n. \<exists>d. fds s n = Some d \<and> is_listening d}"

lemma listeners_updates [simp]:
  "listeners (s\<lparr>calls := c\<rparr>) = listeners s" "listeners (s\<lparr>nodes := m\<rparr>) = listeners s"
  "listeners (s\<lparr>stderr := e\<rparr>) = listeners s"
  by (simp_all add: listeners_def)

abbreviation quiet :: "nat set \<Rightarrow> osys \<Rightarrow> bool" where
  "quiet L s \<equiv> listeners s \<subseteq> L"

abbreviation owner_only :: "ustr \<Rightarrow> osys \<Rightarrow> bool" where
  "owner_only p s \<equiv> nodes s p = Some 384"

lemma quiet_syscall: "triple (quiet L) (syscall_p c) (quiet L) (quiet L)"
  and owner_only_syscall: "triple (owner_only p) (syscall_p c) (owner_only p) (owner_only p)"
  by (simp_all add: triple_def syscall_p_def split: option.splits)

lemma quiet_unlink: "triple (quiet L) (os_unlink p) (quiet L) (quiet L)"
  unfolding os_unlink_def by (rule triple_seq [OF quiet_syscall]) (simp add: triple_def)

lemma quiet_install: "\<not> is_listening d \<Longrightarrow> triple (quiet L) (install_fd d) (quiet L) (quiet L)"
  by (auto simp: triple_def install_fd_def listeners_def split: option.splits if_splits)

lemma owner_only_install: "triple (owner_only p) (install_fd d) (owner_only p) (owner_only p)"
  by (simp add: triple_def install_fd_def split: option.splits)

lemma quiet_new: "triple (quiet L) (socket_new f) (quiet L) (quiet L)"
  unfolding socket_new_def
  by (rule triple_seq [OF quiet_syscall], rule triple_bind [OF quiet_install triple_return]) simp

lemma owner_only_new: "triple (owner_only p) (socket_new f) (owner_only p) (owner_only p)"
  unfolding socket_new_def
  by (rule triple_seq [OF owner_only_syscall], rule triple_bind [OF owner_only_install triple_return])

lemma quiet_bind: "triple (quiet L) (socket_bind_path so p) (quiet L) (quiet L)"
  unfolding socket_bind_path_def by (rule triple_seq [OF quiet_syscall]) (simp add: triple_def)

lemma chmod_owner_only: "triple (quiet L) (os_chmod p 384) (owner_only p) (quiet L)"
  unfolding os_chmod_def by (rule triple_seq [OF quiet_syscall]) (simp add: triple_def)

lemma owner_only_listen: "triple (owner_only p) (socket_listen so) (owner_only p) (owner_only p)"
proof -
  have "triple (owner_only p) (lookup_fd n) (owner_only p) (owner_only p)" for n
    by (simp add: triple_def lookup_fd_def split: option.splits)
  moreover have "triple (owner_only p) (modify_p (\<lambda>s. s\<lparr>fds := f s\<rparr>)) (owner_only p) (owner_only p)" for f
    by (simp add: triple_def modify_p_def)
  ultimately show ?thesis
    unfolding socket_listen_def by (rule triple_seq [OF owner_only_syscall triple_bind])
qed

lemma owner_only_close: "triple (owner_only p) (socket_close so) (owner_only p) (owner_only p)"
  unfolding socket_close_def
  by (rule triple_seq [OF _ owner_only_syscall]) (simp add: triple_def modify_p_def)

lemma owner_only_server_on_socket:
  "triple (owner_only p) (server_on_socket so) (owner_only p) (owner_only p)"
proof -
  have close: "triple (owner_only p)
      (catch_p (socket_close x) (\<lambda>e. if is_OSError e then return_p () else raise_p e))
      (owner_only p) (owner_only p)" for x
    by (rule triple_catch [OF owner_only_close]) (rule triple_if [OF triple_return triple_raise])
  show ?thesis
    unfolding server_on_socket_def
    by (rule triple_bind [OF owner_only_new]) (rule triple_seq [OF close triple_seq [OF owner_only_syscall triple_return]])
qed

lemma triple_post:
  "triple P m Q R \<Longrightarrow> (\<And>s. Q s \<Longrightarrow> Q' s) \<Longrightarrow> (\<And>s. R s \<Longrightarrow> R' s) \<Longrightarrow> triple P m Q' R'"
  unfolding triple_def by (fastforce split: prod.splits sum.splits)

lemma triple_seq_raise:
  "triple P m Q R \<Longrightarrow> triple Q n Q' R' \<Longrightarrow> triple P (seq_p m n) Q' (\<lambda>s. R s \<or> R' s)"
  unfolding triple_def seq_p_def bind_p_def by (fastforce split: prod.splits sum.splits)

lemma triple_weaken: "triple P m Q R \<Longrightarrow> triple P m Q (\<lambda>s. R s \<or> R' s)"
  by (erule triple_post) auto

lemma unix_socket_triple:
  "triple (quiet L) (server_on_unix_socket p) (owner_only p) (\<lambda>s. quiet L s \<or> owner_only p s)"
proof -
  have listen: "triple (quiet L) (seq_p (os_chmod p 384) (seq_p (socket_listen so) (server_on_socket so)))
      (owner_only p) (\<lambda>s. quiet L s \<or> owner_only p s)" for so
    by (rule triple_seq_raise [OF chmod_owner_only triple_seq [OF owner_only_listen owner_only_server_on_socket]])
  have unlink: "triple (quiet L)
      (catch_p (os_unlink p) (\<lambda>e. if is_os FileNotFoundError e then return_p () else raise_p e))
      (quiet L) (quiet L)"
    by (rule triple_catch [OF quiet_unlink]) (rule triple_if [OF triple_return triple_raise])
  show ?thesis
    unfolding server_on_unix_socket_def
    by (rule triple_seq [OF triple_weaken [OF unlink]], rule triple_bind [OF triple_weaken [OF quiet_new]],
        rule triple_seq [OF triple_weaken [OF quiet_bind] listen])
qed

text \<open>
  C24. The self-made socket is for its owner only: whatever calls the kernel refuses, if a
  descriptor is listening that was not before, the file at the path has mode 0600 (so the
  mode is set before clients can connect, and a failure to set it leaves nothing listening),
  and a server that is returned always has it.
\<close>

theorem unix_socket_owner_only:
  assumes "server_on_unix_socket p s = (r, t)"
  shows "(listeners t \<subseteq> listeners s \<or> nodes t p = Some 384) \<and> (\<forall>so. r = Inr so \<longrightarrow> nodes t p = Some 384)"
  using tripleD [OF unix_socket_triple [of "listeners s" p] _ assms] by (cases r) auto

lemma sample_run:
  "\<exists>t. server_on_unix_socket (us ''/run/rest'') sample_osys = (Inr \<lparr>sock_fd = 1, family = AF_UNIX\<rparr>, t)"
  by (simp add: server_on_unix_socket_def os_unlink_def syscall_p_def sample_osys_def seq_p_def bind_p_def
      catch_p_def socket_new_def install_fd_def free_fd_def return_p_def socket_bind_path_def os_chmod_def
      socket_listen_def lookup_fd_def modify_p_def server_on_socket_def socket_close_def ENOENT_def
      eval_nat_numeral upt_rec)

lemma unix_socket_owner_only_witness:
  "\<exists>so t. server_on_unix_socket (us ''/run/rest'') sample_osys = (Inr so, t) \<and> nodes t (us ''/run/rest'') = Some 384"
proof -
  obtain t where t: "server_on_unix_socket (us ''/run/rest'') sample_osys = (Inr \<lparr>sock_fd = 1, family = AF_UNIX\<rparr>, t)"
    using sample_run by blast
  from unix_socket_owner_only [OF t] t show ?thesis by blast
qed

section \<open>\<open>main\<close>\<close>

text \<open>Whose connections the command line asks for.\<close>

definition wanted_uid :: "os_env \<Rightarrow> args \<Rightarrow> nat option" where
  "wanted_uid os a =
     (if truthy (allow_user a) then map_option pw_uid (getpwnam os (the (allow_user a))) else Some (getuid os))"

lemma return_p_Inr: "return_p x s = (Inr y, t) \<longleftrightarrow> y = x \<and> t = s"
  by (auto simp: return_p_def)

lemma allowed_uid_Inr: "allowed_uid os a s = (Inr (Inr uid), t) \<Longrightarrow> wanted_uid os a = Some uid \<and> t = s"
  by (auto simp: allowed_uid_def wanted_uid_def seq_p_eq_Inr return_p_Inr split: if_splits option.splits)

lemma on_os_Inr: "on_os m st = (Inr x, t) \<longleftrightarrow> (\<exists>s. m (fst st) = (Inr x, s) \<and> t = (s, snd st))"
  by (auto simp: on_os_def split: prod.splits)

lemma idle_option_positive: "idle_option a = Inr (Some i) \<Longrightarrow> 0 < i"
  by (auto simp: idle_option_def split: option.splits duration.splits if_splits)

lemma configure_Inr:
  "configure a uid timeout srv st = (Inr c, t) \<Longrightarrow>
     srv_socket c = srv \<and> srv_idle c = timeout
     \<and> srv_peer_uid c = (if family srv = AF_UNIX then Some uid else None)"
  by (auto simp: configure_def seq_p_eq_Inr return_p_Inr)

lemma lift_p_Inr: "lift_p r s = (Inr x, t) \<longleftrightarrow> r = Inr x \<and> t = s"
  by (auto simp: lift_p_def)

text \<open>An early exit is a value \<open>Inl\<close>: a bind that goes on after one did not take it.\<close>

lemma exit_case_Inr:
  "(case r of Inl code \<Rightarrow> return_p (Inl code) | Inr y \<Rightarrow> g y) s = (Inr (Inr c), t)
     \<longleftrightarrow> (\<exists>y. r = Inr y \<and> g y s = (Inr (Inr c), t))"
  by (auto simp: return_p_Inr split: sum.splits)

lemma main_parsed_Inr:
  assumes "main_parsed os api pr a st = (Inr (Inr c), t)"
  obtains timeout uid srv w where
    "idle_option a = Inr timeout" "wanted_uid os a = Some uid"
    "open_server os api pr a uid st = (Inr (Inr srv), w)" "configure a uid timeout srv w = (Inr c, t)"
proof -
  from assms obtain timeout uid srv w v where
    i: "idle_option a = Inr timeout"
    and u: "allowed_uid os a (fst st) = (Inr (Inr uid), v)"
    and o: "open_server os api pr a uid (v, snd st) = (Inr (Inr srv), w)"
    and c: "configure a uid timeout srv w = (Inr c, t)"
    by (auto simp: main_parsed_def bind_p_eq_Inr lift_p_Inr return_p_Inr on_os_Inr exit_case_Inr)
  from allowed_uid_Inr [OF u] have "wanted_uid os a = Some uid" "v = fst st" by simp_all
  with i o c show ?thesis using that [OF i] by simp
qed

lemma main_Inr:
  assumes "main os api parse_fsd pr argv st = (Inr (Inr c), t)"
  obtains a where "command_line parse_fsd argv = Inr (Inr a)" "main_parsed os api pr a st = (Inr (Inr c), t)"
  using assms by (auto simp: main_def bind_p_eq_Inr lift_p_Inr exit_case_Inr)

lemma main_configured:
  assumes "main_parsed os api pr a st = (Inr (Inr c), t)"
  shows "srv_peer_uid c = (if family (srv_socket c) = AF_UNIX then wanted_uid os a else None)"
    and "family (srv_socket c) = AF_UNIX \<Longrightarrow> srv_peer_uid c \<noteq> None" and "srv_idle c = Some i \<Longrightarrow> 0 < i"
    and "idle_option a = Inr (srv_idle c)"
proof -
  from assms obtain timeout uid srv w where *: "idle_option a = Inr timeout"
    "wanted_uid os a = Some uid" "configure a uid timeout srv w = (Inr c, t)"
    by (rule main_parsed_Inr)
  have "srv_socket c = srv" "srv_idle c = timeout"
    "srv_peer_uid c = (if family srv = AF_UNIX then Some uid else None)"
    using configure_Inr [OF *(3)] by simp_all
  with *(1,2) idle_option_positive [of a]
  show "srv_peer_uid c = (if family (srv_socket c) = AF_UNIX then wanted_uid os a else None)"
    and "family (srv_socket c) = AF_UNIX \<Longrightarrow> srv_peer_uid c \<noteq> None" and "srv_idle c = Some i \<Longrightarrow> 0 < i"
    and "idle_option a = Inr (srv_idle c)"
    by auto
qed

lemma main_peer:
  assumes "main os api parse_fsd pr argv st = (Inr (Inr c), t)" and "command_line parse_fsd argv = Inr (Inr a)"
    and "family (srv_socket c) = AF_UNIX"
  shows "srv_peer_uid c = wanted_uid os a"
  using assms(1)
proof (rule main_Inr)
  fix b assume "command_line parse_fsd argv = Inr (Inr b)" "main_parsed os api pr b st = (Inr (Inr c), t)"
  with main_configured(1) [OF this(2)] assms(2,3) show ?thesis by simp
qed

text \<open>
  C17. Whatever the command line, the environment and the kernel do: a server that \<open>main\<close>
  starts on a unix socket always checks its peers, against the uid of the user named by
  \<open>--allow-user\<close> or else its own; a server on TCP never pretends to; and an idle timeout,
  if there is one, is positive.
\<close>

theorem main_peer_check:
  assumes "main os api parse_fsd pr argv st = (Inr (Inr c), t)"
  shows "\<exists>a. command_line parse_fsd argv = Inr (Inr a)
    \<and> srv_peer_uid c = (if family (srv_socket c) = AF_UNIX then wanted_uid os a else None)
    \<and> (family (srv_socket c) = AF_UNIX \<longrightarrow> srv_peer_uid c \<noteq> None)
    \<and> (\<forall>i. srv_idle c = Some i \<longrightarrow> 0 < i)"
proof -
  obtain a where "command_line parse_fsd argv = Inr (Inr a)" "main_parsed os api pr a st = (Inr (Inr c), t)"
    using assms by (rule main_Inr)
  with main_configured [OF this(2)] show ?thesis by auto
qed

lemma bind_failed_not_server: "bind_failed a p e st \<noteq> (Inr (Inr srv), t)"
  by (auto simp: bind_failed_def bind_p_eq_Inr seq_p_eq_Inr return_p_Inr raise_p_def)

lemma catch_p_eq_Inr:
  "catch_p m h s = (Inr x, t) \<longleftrightarrow> m s = (Inr x, t) \<or> (\<exists>e u. m s = (Inl e, u) \<and> h e u = (Inr x, t))"
  by (auto simp: catch_p_def split: prod.splits sum.splits)

lemma server_on_socket_Inr: "server_on_socket so s = (Inr srv, t) \<Longrightarrow> srv = so"
  by (auto simp: server_on_socket_def bind_p_eq_Inr seq_p_eq_Inr return_p_Inr)

lemma server_on_unix_socket_family: "server_on_unix_socket p s = (Inr srv, t) \<Longrightarrow> family srv = AF_UNIX"
  by (auto simp: server_on_unix_socket_def bind_p_eq_Inr seq_p_eq_Inr return_p_Inr socket_new_def
      dest!: server_on_socket_Inr)

lemma server_on_address_family: "server_on_address hst n s = (Inr srv, t) \<Longrightarrow> family srv = AF_INET"
  by (auto simp: server_on_address_def bind_p_eq_Inr seq_p_eq_Inr catch_p_eq_Inr return_p_Inr raise_p_def
      socket_new_def)


section \<open>How \<open>main\<close> ends\<close>

text \<open>The last thing on standard error is a line that says what is wrong, perhaps with a hint.\<close>

definition complained :: "osys \<Rightarrow> bool" where
  "complained s \<longleftrightarrow>
     (\<exists>ms m. stderr s = ms @ [us ''error: '' @ m]
        \<or> stderr s = ms @ [us ''error: '' @ m, us ''hint: use --port for TCP mode outside a flux instance''])"

lemma complained_print: "py_startswith (us ''error: '') m \<Longrightarrow> complained (s\<lparr>stderr := stderr s @ [m]\<rparr>)"
  by (auto simp: complained_def py_startswith_iff)

definition decent :: "exn + nat + 'a \<Rightarrow> osys \<Rightarrow> bool" where
  "decent r s \<longleftrightarrow> (case r of Inl e \<Rightarrow> \<not> is_OSError e | Inr (Inl code) \<Rightarrow> code = 1 \<and> complained s | Inr (Inr _) \<Rightarrow> True)"

definition decently :: "(osys \<times> 'b, nat + 'a) prog \<Rightarrow> bool" where
  "decently m \<longleftrightarrow> (\<forall>st. decent (fst (m st)) (fst (snd (m st))))"

lemma decentlyD: "decently m \<Longrightarrow> decent (fst (m st)) (fst (snd (m st)))"
  unfolding decently_def by (rule spec)

lemma decentlyI: "(\<And>st. decent (fst (m st)) (fst (snd (m st)))) \<Longrightarrow> decently m"
  unfolding decently_def by (rule allI)

lemma decently_return: "decently (return_p (Inr x))"
  by (simp add: decently_def decent_def return_p_def)

lemma decently_raise: "\<not> is_OSError e \<Longrightarrow> decently (raise_p e)"
  by (simp add: decently_def decent_def raise_p_def)

lemma decently_exit:
  "py_startswith (us ''error: '') m \<Longrightarrow> decently (seq_p (on_os (print_stderr m)) (return_p (Inl 1)))"
  by (simp add: decently_def decent_def seq_p_def bind_p_def on_os_def print_stderr_def modify_p_def
      return_p_def complained_print)

lemma decently_bind:
  assumes m: "\<And>s e. fst (m s) = Inl e \<Longrightarrow> \<not> is_OSError e" and f: "\<And>x. decently (f x)"
  shows "decently (bind_p m f)"
proof (rule decentlyI)
  fix st
  obtain r t where r: "m st = (r, t)" by (cases "m st")
  then show "decent (fst (bind_p m f st)) (fst (snd (bind_p m f st)))"
    using m [of st] decentlyD [OF f, of _ t] by (cases r) (simp_all add: bind_p_def decent_def)
qed

lemma decently_case:
  assumes m: "decently m" and f: "\<And>x. decently (f x)"
  shows "decently (bind_p m (\<lambda>r. case r of Inl code \<Rightarrow> return_p (Inl code) | Inr x \<Rightarrow> f x))"
proof (rule decentlyI)
  fix st
  let ?b = "bind_p m (\<lambda>r. case r of Inl code \<Rightarrow> return_p (Inl code) | Inr x \<Rightarrow> f x)"
  obtain r t where r: "m st = (r, t)" by (cases "m st")
  have d: "decent r (fst t)" using decentlyD [OF m, of st] r by simp
  consider e where "r = Inl e" | code where "r = Inr (Inl code)" | x where "r = Inr (Inr x)"
    by (metis old.sum.exhaust)
  then show "decent (fst (?b st)) (fst (snd (?b st)))"
  proof cases
    case 3
    with r have "?b st = f x t" by (simp add: bind_p_def)
    with decentlyD [OF f, of x t] show ?thesis by simp
  qed (use d r in \<open>simp_all add: bind_p_def decent_def return_p_def\<close>)
qed

lemma decently_catch:
  assumes m: "\<And>st r t. m st = (Inr r, t) \<Longrightarrow> decent (Inr r) (fst t)" and h: "\<And>e. decently (h e)"
  shows "decently (catch_p m h)"
proof (rule decentlyI)
  fix st
  obtain r t where r: "m st = (r, t)" by (cases "m st")
  then show "decent (fst (catch_p m h st)) (fst (snd (catch_p m h st)))"
    using m [of st _ t] decentlyD [OF h, of _ t] by (cases r) (simp_all add: catch_p_def)
qed

lemma decently_if: "decently m \<Longrightarrow> decently n \<Longrightarrow> decently (if b then m else n)"
  by simp

lemma bind_address_error: "bind_address a p = Inl e \<Longrightarrow> \<not> is_OSError e"
  by (auto simp: bind_address_def split: option.splits if_splits)

lemma error_lines [simp]:
  "py_startswith (us ''error: '') (us ''error: unknown user: '' @ m)"
  "py_startswith (us ''error: '') (us ''error: address '' @ m)"
  "py_startswith (us ''error: '') (us ''error: permission denied binding to '' @ m)"
  "py_startswith (us ''error: '') (us ''error: failed to bind socket: '' @ m)"
  "py_startswith (us ''error: '') (us ''error: cannot get flux rundir: '' @ m)"
  "py_startswith (us ''error: '')
     (us ''error: --allow-user requires socket activation; a self-created socket is owner-only'')"
  by (simp_all add: py_startswith_def lit_simps)

lemma bind_address_decent:
  "(\<And>x. decently (f x)) \<Longrightarrow> decently (bind_p (lift_p (bind_address a p)) f)"
  using bind_address_error by (intro decently_bind) (simp_all add: lift_p_def)

lemma bind_failed_decent: "decently (bind_failed a p e)"
proof (cases "is_OSError e")
  case False
  then show ?thesis by (simp add: bind_failed_def decently_raise)
next
  case True
  then show ?thesis
    unfolding bind_failed_def
    by (simp only: not_True_eq_False if_False)
      (intro decently_if bind_address_decent decently_exit error_lines)
qed

lemma opened_decent:
  "decently (catch_p (on_os (bind_p m (\<lambda>srv. return_p (Inr srv)))) (bind_failed a p))"
  by (rule decently_catch [OF _ bind_failed_decent]) (auto simp: on_os_Inr bind_p_eq_Inr return_p_Inr decent_def)

lemma no_rundir_decent:
  "decently (seq_p (on_os (print_stderr (us ''error: cannot get flux rundir: '' @ m)))
     (seq_p (on_os (print_stderr (us ''hint: use --port for TCP mode outside a flux instance''))) (return_p (Inl 1))))"
proof -
  obtain k where "us ''error: cannot get flux rundir: '' @ m = us ''error: '' @ k"
    using error_lines(5) [of m] unfolding py_startswith_iff by blast
  then show ?thesis
    by (intro decentlyI) (auto simp: decent_def seq_p_def bind_p_def on_os_def print_stderr_def modify_p_def
        return_p_def complained_def)
qed

lemma unix_path_decent: "decently (unix_path api a)"
proof -
  have "decently (catch_p (bind_p (on_srv (rundir api)) (\<lambda>d. return_p (Inr (path_join d (us ''rest'')))))
      (\<lambda>e. if is_OSError e
         then seq_p (on_os (print_stderr (us ''error: cannot get flux rundir: '' @ exn_str e)))
           (seq_p (on_os (print_stderr (us ''hint: use --port for TCP mode outside a flux instance'')))
             (return_p (Inl 1)))
         else raise_p e))"
    by (rule decently_catch)
      (auto simp: bind_p_eq_Inr return_p_Inr decent_def simp del: One_nat_def
        intro!: no_rundir_decent decently_raise)
  then show ?thesis
    unfolding unix_path_def by (rule decently_if [OF decently_return])
qed

lemma value_error_not_os: "is_ValueError e \<Longrightarrow> \<not> is_OSError e"
  by (cases e) simp_all

lemma inherited_decent:
  "decently (catch_p (on_os (bind_p (listen_socket LISTEN_FDS_START) (\<lambda>so.
     bind_p (server_on_socket so) (\<lambda>srv. return_p (Inr srv))))) (bind_failed a None))"
  using opened_decent by (simp only: bind_p_assoc [symmetric])

lemma self_made_decent:
  "decently (bind_p (unix_path api a) (\<lambda>r. case r of Inl code \<Rightarrow> return_p (Inl code)
     | Inr p \<Rightarrow> catch_p (on_os (bind_p (server_on_unix_socket p) (\<lambda>srv. return_p (Inr srv))))
         (bind_failed a (Some p))))"
  by (rule decently_case [OF unix_path_decent opened_decent])

lemma socket_activated_error: "socket_activated pr = Inl e \<Longrightarrow> \<not> is_OSError e"
  using value_error_not_os [OF text_int_error]
  by (auto simp: socket_activated_def map_sum_def split: if_splits sum.splits)

lemma open_server_decent: "decently (open_server os api pr a uid)"
  unfolding open_server_def
  by (rule decently_bind)
    (auto simp: lift_p_def simp del: One_nat_def split: option.split
      intro!: socket_activated_error inherited_decent opened_decent self_made_decent decently_exit)

lemma allowed_decent: "decently (on_os (allowed_uid os a) :: (('w, 'h) state, nat + nat) prog)"
proof (rule decentlyI)
  fix st :: "('w, 'h) state"
  have "complained (fst st\<lparr>stderr := stderr (fst st) @ [us ''error: unknown user: '' @ u]\<rparr>)" for u
    by (rule complained_print) simp
  then show "decent (fst (on_os (allowed_uid os a) st)) (fst (snd (on_os (allowed_uid os a) st)))"
    by (simp add: decent_def on_os_def allowed_uid_def return_p_def seq_p_def bind_p_def print_stderr_def
        modify_p_def split: option.splits)
qed

lemma configure_decent: "decently (bind_p (configure a uid timeout srv) (\<lambda>c. return_p (Inr c)))"
proof (rule decently_bind [OF _ decently_return])
  show "\<not> is_OSError e" if "fst (configure a uid timeout srv st) = Inl e" for st e
    using that by (simp add: configure_def seq_p_def bind_p_def return_p_def on_os_def print_stderr_def
        modify_p_def split: if_splits)
qed

lemma main_parsed_exits:
  assumes "main_parsed os api pr a st = (r, t)"
  shows "(r = Inr (Inl 2) \<and> t = st) \<or> decent r (fst t)"
proof (cases "idle_option a")
  case (Inl code)
  then have "code = 2" by (auto simp: idle_option_def split: option.splits duration.splits if_splits)
  with assms Inl show ?thesis by (simp add: main_parsed_def return_p_def)
next
  case (Inr timeout)
  let ?rest = "bind_p (on_os (allowed_uid os a)) (\<lambda>u. case u of Inl code \<Rightarrow> return_p (Inl code)
    | Inr uid \<Rightarrow> bind_p (open_server os api pr a uid) (\<lambda>r. case r of Inl code \<Rightarrow> return_p (Inl code)
        | Inr srv \<Rightarrow> bind_p (configure a uid timeout srv) (\<lambda>c. return_p (Inr c))))"
  have "main_parsed os api pr a st = ?rest st" using Inr by (simp add: main_parsed_def)
  moreover have "decently ?rest"
    by (intro decently_case allowed_decent open_server_decent configure_decent)
  ultimately show ?thesis using decentlyD [of ?rest st] assms by (metis fst_conv snd_conv)
qed

text \<open>The conversions of the options raise what argparse reports, if \<open>parse_fsd\<close> raises only \<open>ValueError\<close>s.\<close>

lemma options_stored:
  assumes "Store f \<in> snd ` set (OPTIONS parse_fsd)" and "f v = Inl e"
  shows "text_int v = Inl e \<or> fsd parse_fsd v = Inl e"
  using assms by (auto simp: OPTIONS_def map_sum_def split: sum.splits)

lemma command_line_raise:
  assumes "\<forall>v e. parse_fsd v = Inl e \<longrightarrow> is_ValueError e"
  shows "command_line parse_fsd argv \<noteq> Inl e"
proof
  assume "command_line parse_fsd argv = Inl e"
  then obtain f v where "Store f \<in> snd ` set (OPTIONS parse_fsd)" "f v = Inl e" "\<not> is_argument_error e"
    using parse_args_raise [of "OPTIONS parse_fsd"] unfolding command_line_def by blast
  with options_stored [OF this(1,2)] text_int_error [of v e] assms show False
    by (cases e) (auto simp: fsd_def split: sum.splits if_splits)
qed

lemma command_line_exit: "command_line parse_fsd argv = Inr (Inl code) \<Longrightarrow> code = 0 \<or> code = 2"
  using parse_args_exit [of "OPTIONS parse_fsd" "\<lambda>_. True" DEFAULTS argv code] by (auto simp: command_line_def)


text \<open>
  C26. However \<open>main\<close> ends, it is on purpose: no \<open>OSError\<close> of the kernel, the password database
  or the broker escapes it as a traceback; if it exits by itself the status is 0, for \<open>--help\<close>, or 2, a
  usage error, both before anything was touched, or 1, and then the last line on standard error says what
  is wrong.
\<close>

theorem main_exits:
  assumes "\<forall>v e. parse_fsd v = Inl e \<longrightarrow> is_ValueError e"
    and "main os api parse_fsd pr argv st = (r, t)"
  shows "((r = Inr (Inl 0) \<or> r = Inr (Inl 2)) \<and> t = st)
    \<or> (case r of Inl e \<Rightarrow> \<not> is_OSError e | Inr (Inl code) \<Rightarrow> code = 1 \<and> complained (fst t) | Inr (Inr _) \<Rightarrow> True)"
proof (cases "command_line parse_fsd argv")
  case (Inl e)
  with command_line_raise [OF assms(1)] show ?thesis by blast
next
  case (Inr p)
  show ?thesis
  proof (cases p)
    case (Inl code)
    with assms(2) Inr have "r = Inr (Inl code)" "t = st" by (simp_all add: main_def lift_p_def bind_p_def return_p_def)
    with command_line_exit [of parse_fsd argv code] Inr Inl show ?thesis by auto
  next
    case a: (Inr a)
    with assms(2) Inr have "main_parsed os api pr a st = (r, t)" by (simp add: main_def lift_p_def bind_p_def)
    from main_parsed_exits [OF this] show ?thesis by (auto simp: decent_def)
  qed
qed

section \<open>\<open>main\<close> on concrete systems\<close>


definition activated_process :: process where
  "activated_process = \<lparr>environ = [us ''LISTEN_PID'' \<mapsto> us ''7'', us ''LISTEN_FDS'' \<mapsto> us ''1''], getpid = 7\<rparr>"

lemma activated: "socket_activated activated_process = Inr True"
proof -
  have "str_int 7 = us ''7''" by (simp add: str_int_def dec_digits.simps [of 7] lit_simps)
  moreover have "us ''LISTEN_PID'' \<noteq> us ''LISTEN_FDS''" by (simp add: lit_simps)
  moreover have "text_int (us ''1'') = Inr 1"
    by (simp add: text_int_ascii py_int_digits is_digit_def digits_value_def int_max_str_digits_def lit_simps)
  ultimately show ?thesis by (simp add: socket_activated_def activated_process_def)
qed

lemma sample_inherited:
  "\<exists>t. bind_p (listen_socket 3) server_on_socket sample_osys = (Inr \<lparr>sock_fd = 3, family = AF_UNIX\<rparr>, t)"
  by (simp add: listen_socket_def os_dup_def syscall_p_def sample_osys_def seq_p_def bind_p_def lookup_fd_def
      catch_p_def socket_new_def install_fd_def free_fd_def return_p_def socket_fileno_def finally_p_def
      get_domain_def address_family_def modify_p_def server_on_socket_def socket_close_def
      eval_nat_numeral upt_rec)

abbreviation "alice_args \<equiv> DEFAULTS\<lparr>allow_user := Some (us ''alice'')\<rparr>"

abbreviation "activated_parsed \<equiv> main_parsed sample_os sample_api activated_process alice_args"
abbreviation "activated_main \<equiv> main sample_os sample_api (\<lambda>_. Inr Infinite) activated_process [us ''--allow-user=alice'']"

lemma alice_line: "command_line parse_fsd [us ''--allow-user='' @ u] = Inr (Inr (DEFAULTS\<lparr>allow_user := Some u\<rparr>))"
proof -
  let ?sps = "[Joined (us ''--allow-user'') u]"
  have "resolve (OPTIONS parse_fsd) (us ''--allow-user'') = Some (Store (\<lambda>v. Inr (\<lambda>a. a\<lparr>allow_user := Some v\<rparr>)))"
    by (simp add: resolve_def OPTIONS_def us_Cons)
  then have m: "meaning (OPTIONS parse_fsd) (hd ?sps) = Some (\<lambda>a. a\<lparr>allow_user := Some u\<rparr>)" by simp
  have w: "us ''--allow-user='' @ u = us ''--allow-user'' @ 61 # u" by (simp add: us_Cons)
  show ?thesis
    using parse_args_spelled [OF options_well_formed [of parse_fsd], where sps = ?sps and given = "\<lambda>_. True" and n = DEFAULTS] m
    unfolding command_line_def w by (simp add: settings_def)
qed

lemma sample_parsed:
  "\<exists>c t. activated_parsed (sample_osys, sample_srv) = (Inr (Inr c), t) \<and> family (srv_socket c) = AF_UNIX"
proof -
  obtain t where t: "bind_p (listen_socket 3) server_on_socket sample_osys = (Inr \<lparr>sock_fd = 3, family = AF_UNIX\<rparr>, t)"
    using sample_inherited by blast
  have "on_os (bind_p (listen_socket LISTEN_FDS_START) (\<lambda>so. bind_p (server_on_socket so) (\<lambda>srv. return_p (Inr srv))))
      (sample_osys, sample_srv) = (Inr (Inr \<lparr>sock_fd = 3, family = AF_UNIX\<rparr> :: nat + pyserver), (t, sample_srv))"
    by (simp add: on_os_def LISTEN_FDS_START_def bind_p_Inr [where m = "bind_p (listen_socket 3) server_on_socket", OF t]
        return_p_def bind_p_assoc [symmetric])
  then have "open_server sample_os sample_api activated_process alice_args 1000 (sample_osys, sample_srv)
      = (Inr (Inr \<lparr>sock_fd = 3, family = AF_UNIX\<rparr>), (t, sample_srv))"
    by (simp add: open_server_def activated lift_p_def bind_p_def [of "\<lambda>s. (Inr True, s)"] catch_p_Inr)
  moreover have "allowed_uid sample_os alice_args sample_osys = (Inr (Inr 1000), sample_osys)"
    by (simp add: allowed_uid_def truthy_def sample_os_def sample_pw_def return_p_def lit_simps)
  ultimately show ?thesis
    by (simp add: main_parsed_def idle_option_def DEFAULTS_def bind_p_def on_os_def configure_def seq_p_def return_p_def)
qed


lemma sample_line: "command_line parse_fsd [us ''--allow-user=alice''] = Inr (Inr alice_args)"
proof -
  have "us ''--allow-user=alice'' = us ''--allow-user='' @ us ''alice''" by (simp add: us_Cons)
  then show ?thesis by (simp only: alice_line)
qed

lemma main_eq: "command_line parse_fsd argv = Inr (Inr a) \<Longrightarrow> main os api parse_fsd pr argv st = main_parsed os api pr a st"
  by (simp add: main_def lift_p_def bind_p_def)

lemma sample_main:
  "\<exists>c t. activated_main (sample_osys, sample_srv) = (Inr (Inr c), t) \<and> family (srv_socket c) = AF_UNIX"
  using sample_parsed by (simp add: main_eq [OF sample_line])

lemma main_peer_check_witness:
  "\<exists>c t. activated_main (sample_osys, sample_srv) = (Inr (Inr c), t) \<and> srv_peer_uid c = Some 1000"
proof -
  obtain c t where m: "activated_main (sample_osys, sample_srv) = (Inr (Inr c), t)"
    "family (srv_socket c) = AF_UNIX"
    using sample_main by blast
  have "wanted_uid sample_os alice_args = Some 1000"
    by (simp add: wanted_uid_def truthy_def sample_os_def sample_pw_def lit_simps)
  with main_peer_check [OF m(1)] m show ?thesis by (auto simp: sample_line)
qed


lemma main_exits_witness:
  "complained (fst (snd (main sample_os sample_api (\<lambda>v. Inl (ValueError v)) activated_process
     [us ''--allow-user='' @ us ''nobody''] (sample_osys, sample_srv))))"
proof -
  let ?m = "main sample_os sample_api (\<lambda>v. Inl (ValueError v)) activated_process
     [us ''--allow-user='' @ us ''nobody''] (sample_osys, sample_srv)"
  have "fst ?m = Inr (Inl 1)"
    unfolding main_eq [OF alice_line]
    by (simp add: main_parsed_def idle_option_def DEFAULTS_def allowed_uid_def truthy_def sample_os_def lit_simps
        return_p_def bind_p_def on_os_def seq_p_def print_stderr_def modify_p_def)
  moreover have "((fst ?m = Inr (Inl 0) \<or> fst ?m = Inr (Inl 2)) \<and> snd ?m = (sample_osys, sample_srv))
    \<or> (case fst ?m of Inl e \<Rightarrow> \<not> is_OSError e | Inr (Inl code) \<Rightarrow> code = 1 \<and> complained (fst (snd ?m)) | Inr (Inr _) \<Rightarrow> True)"
    by (rule main_exits [OF _ prod.collapse [symmetric]]) simp
  ultimately show ?thesis by simp
qed

text \<open>
  Not every failure under socket activation is reported: when the inherited socket cannot
  be used because of errno 98 or 13, and neither \<open>--port\<close> nor \<open>--socket\<close> was given, the handler
  that should print the address reads \<open>socket_path\<close>, which that branch never assigned, and
  \<open>main\<close> dies of an \<open>UnboundLocalError\<close> with nothing printed.
\<close>

theorem main_activated_unbound:
  assumes "socket_activated pr = Inr True" and "listen_socket 3 s = (Inl e, s')"
    and "is_OSError e" and "exn_errno e = Some 13 \<or> exn_errno e = Some 98"
    and "port a = None" and "\<not> truthy (socket a)"
  shows "open_server os api pr a uid (s, b)
    = (Inl (UnboundLocalError (us ''cannot access local variable socket_path'')), (s', b))"
  using assms by (auto simp: open_server_def lift_p_def bind_p_def catch_p_def on_os_def LISTEN_FDS_START_def
      bind_failed_def bind_address_def)

definition denied_osys :: osys where
  "denied_osys = sample_osys\<lparr>faults := [Dup 3 \<mapsto> OSError PermissionError (Some 13) (us ''[Errno 13] Permission denied'')]\<rparr>"

lemma main_activated_unbound_witness:
  "fst (open_server sample_os sample_api activated_process alice_args 1000 (denied_osys, sample_srv))
     = Inl (UnboundLocalError (us ''cannot access local variable socket_path''))"
proof -
  have d: "listen_socket 3 denied_osys = (Inl (OSError PermissionError (Some 13) (us ''[Errno 13] Permission denied'')),
      denied_osys\<lparr>calls := [Dup 3]\<rparr>)"
    by (simp add: listen_socket_def os_dup_def syscall_p_def seq_p_def bind_p_def denied_osys_def sample_osys_def)
  show ?thesis
    by (simp add: main_activated_unbound [OF activated d] DEFAULTS_def truthy_def)
qed

text \<open>
  Nor is a port out of range: the \<open>OverflowError\<close> of \<open>bind\<close> is no \<open>OSError\<close>, so \<open>main\<close> dies with
  nothing printed, though not without closing the socket it had made.
\<close>

lemma bind_inet_range:
  assumes "n < 0 \<or> 65535 < n" and "\<forall>c. faults s c = None"
  shows "\<exists>m t. socket_bind_inet so hst n s = (Inl (OtherException m), t) \<and> fds t = fds s
    \<and> stderr t = stderr s \<and> faults t = faults s"
  using assms by (auto simp: socket_bind_inet_def raise_p_def overflow_error_def seq_p_def bind_p_def syscall_p_def)

theorem main_port_range:
  assumes "socket_activated pr = Inr False" and "port a = Some n" and "n < 0 \<or> 65535 < n"
    and "\<forall>c. faults s c = None" and "free_fd s = Some k"
  shows "\<exists>m t. open_server os api pr a uid (s, b) = (Inl (OtherException m), (t, b))
    \<and> stderr t = stderr s \<and> fds t = fds s"
proof -
  let ?s = "s\<lparr>calls := calls s @ [New_socket AF_INET], fds := (fds s)(k \<mapsto> \<lparr>domain = AF_INET, is_listening = False\<rparr>)\<rparr>"
  have new: "socket_new AF_INET s = (Inr \<lparr>sock_fd = k, family = AF_INET\<rparr>, ?s)"
    using assms(4,5) by (simp add: socket_new_def seq_p_def bind_p_def syscall_p_def install_fd_def free_fd_def return_p_def)
  obtain m t where "socket_bind_inet \<lparr>sock_fd = k, family = AF_INET\<rparr> (host a) n ?s = (Inl (OtherException m), t)"
    "fds t = fds ?s" "stderr t = stderr s" "faults t = faults s"
    using bind_inet_range [OF assms(3), of ?s "\<lparr>sock_fd = k, family = AF_INET\<rparr>" "host a"] assms(4) by auto
  moreover have "(fds s)(k := None) = fds s" using free_fd_Some [OF assms(5)] by (auto simp: fun_eq_iff)
  ultimately show ?thesis
    using new assms(1,2,4)
    by (auto simp: open_server_def lift_p_def bind_p_def catch_p_def on_os_def server_on_address_def seq_p_def
        socket_close_def syscall_p_def modify_p_def raise_p_def bind_failed_def)
qed

lemma main_port_range_witness:
  "\<exists>m t. open_server sample_os sample_api (activated_process\<lparr>getpid := 8\<rparr>) (DEFAULTS\<lparr>port := Some 70000\<rparr>) 1000
      (sample_osys, sample_srv) = (Inl (OtherException m), t)"
proof -
  have "str_int 8 = us ''8''" by (simp add: str_int_def dec_digits.simps [of 8] lit_simps)
  then have "socket_activated (activated_process\<lparr>getpid := 8\<rparr>) = Inr False"
    by (simp add: socket_activated_def activated_process_def lit_simps)
  from main_port_range [OF this, of "DEFAULTS\<lparr>port := Some 70000\<rparr>" 70000 sample_osys 1]
  show ?thesis by (simp add: sample_free_fd) (force simp: sample_osys_def)
qed

end
