(* ===== verification/Process.thy ===== *)
theory Process
  imports Service Loop Startup_Spec
begin

text \<open>
  The whole process: \<open>main\<close>, the loop of \<open>serve()\<close> with its signals, timeouts and refusals, and the
  handler that runs on the bytes of an admitted connection. The loop and the handler are put
  together as one transition system; what the handler does to Flux is placed at the start of its
  request, and its output is written in any number of pieces, between which signals may fall. A signal
  that falls earlier, into a call of the bindings, and gives the request up is one of the exceptions
  that call may raise: what the calls before it have done is then what the request has done. How the
  handler ends is carried along, since the clauses around it decide how the loop takes leave of the request.
\<close>

section \<open>The loop with the handler behind it\<close>

datatype event = Client peer client | Other cause

definition handled ::
  "interp \<Rightarrow> hcls \<Rightarrow> os_env \<Rightarrow> ('w, 'h, 's, 'i) flux_api \<Rightarrow> client \<Rightarrow> (('w, 'h) srv, unit) prog" where
  "handled py cls os api k c = handle_raw py cls (do_method py cls os api) (open_conn k c)"

text \<open>
  What is left of a request when its handler has written its last byte and returned or raised: the rest of
  \<open>process_request\<close>, with its \<open>finally\<close> clause, and the two \<open>except\<close> clauses around its call in
  \<open>_handle_request_noblock\<close>. What they make of it is what the loop goes on with.
\<close>

definition process_rest :: "exn + unit \<Rightarrow> peer \<Rightarrow> (server, unit) prog" where
  "process_rest r p =
     finally_p (seq_p (lift_p r) (modify_p (shutdown_request p))) (modify_p (\<lambda>s. s\<lparr>in_request := False\<rparr>))"

definition noblock_rest :: "exn + unit \<Rightarrow> peer \<Rightarrow> (server, unit) prog" where
  "noblock_rest r p =
     catch_p (process_rest r p)
       (\<lambda>e. if e = KeyboardInterrupt then seq_p (modify_p (shutdown_request p)) (raise_p e)
            else seq_p (modify_p (\<lambda>s. s\<lparr>errlog := errlog s @ [us ''Exception occurred during processing of request'']\<rparr>))
                   (modify_p (shutdown_request p)))"

definition resume :: "peer \<Rightarrow> (exn + unit) \<times> server \<Rightarrow> server \<times> phase" where
  "resume p rs =
     (case rs of
        (Inr _, s) \<Rightarrow> (s, Testing)
      | (Inl e, s) \<Rightarrow> (wind_up s, Ended (if e = KeyboardInterrupt then Truncated p [] else Raised e)))"

text \<open>
  The last component is how the handler of the last request ended. Where it ended with a
  \<open>KeyboardInterrupt\<close>, it is the signal's step that takes leave of the request.
\<close>

type_synonym ('w, 'h) service = "(server \<times> phase) \<times> ('w, 'h) srv \<times> (exn + unit)"

inductive service_step ::
  "interp \<Rightarrow> hcls \<Rightarrow> os_env \<Rightarrow> ('w, 'h, 's, 'i) flux_api \<Rightarrow> event \<Rightarrow> ('w, 'h) service \<Rightarrow> ('w, 'h) service \<Rightarrow> bool"
  for py cls os api where
  admitted: "serve_step (Connects p ws) st (s, Serving p ws) \<Longrightarrow> handled py cls os api k c = (r, c') \<Longrightarrow>
    concat ws = sent c' \<Longrightarrow> service_step py cls os api (Client p k) (st, c, x) ((s, Serving p ws), c', r)"
| turned_away: "serve_step (Connects p ws) st (s, ph) \<Longrightarrow> ph \<noteq> Serving p ws \<Longrightarrow>
    service_step py cls os api (Client p k) (st, c, x) ((s, ph), c, x)"
| leaves: "x \<noteq> Inl KeyboardInterrupt \<Longrightarrow>
    service_step py cls os api (Other (if x = Inr () then Loop else Fails)) ((s, Serving p []), c, x)
      (resume p (noblock_rest x p s), c, x)"
| other: "serve_step e st st' \<Longrightarrow> (\<And>p ws. e \<noteq> Connects p ws) \<Longrightarrow>
    (\<And>p. snd st = Serving p [] \<Longrightarrow> e \<noteq> Loop \<and> e \<noteq> Fails) \<Longrightarrow>
    service_step py cls os api (Other e) (st, c, x) (st', c, x)"

lemma noblock_rest_returns:
  "noblock_rest (Inr u) p s = (Inr (), (shutdown_request p s)\<lparr>in_request := False\<rparr>)"
  by (simp add: noblock_rest_def process_rest_def finally_p_def seq_p_def bind_p_def catch_p_def prog_simps)

lemma noblock_rest_raises:
  "e \<noteq> KeyboardInterrupt \<Longrightarrow> noblock_rest (Inl e) p s = (Inr (), shutdown_request p (s\<lparr>in_request := False,
     errlog := errlog s @ [us ''Exception occurred during processing of request'']\<rparr>))"
  by (simp add: noblock_rest_def process_rest_def finally_p_def seq_p_def bind_p_def catch_p_def prog_simps)

text \<open>The loop's own way to leave a request, which knows no handler, is this one, also for a signal.\<close>

lemma leaves_step:
  assumes "x \<noteq> Inl KeyboardInterrupt"
  shows "serve_step (if x = Inr () then Loop else Fails) (s, Serving p []) (resume p (noblock_rest x p s))"
proof (cases x)
  case (Inl e)
  with assms show ?thesis by (simp add: resume_def noblock_rest_raises request_fails)
next
  case (Inr u)
  then show ?thesis by (simp add: resume_def noblock_rest_returns request_done)
qed

lemma interrupt_leaves: "interrupt (Serving p []) s = resume p (noblock_rest (Inl KeyboardInterrupt) p s)"
  by (simp add: interrupt_def resume_def noblock_rest_def process_rest_def finally_p_def seq_p_def bind_p_def catch_p_def
      prog_simps)

inductive service_run ::
  "interp \<Rightarrow> hcls \<Rightarrow> os_env \<Rightarrow> ('w, 'h, 's, 'i) flux_api \<Rightarrow> ('w, 'h) service \<Rightarrow> event list \<Rightarrow> ('w, 'h) service \<Rightarrow> bool"
  for py cls os api where
  service_start: "service_run py cls os api st [] st"
| service_more: "service_run py cls os api st es st' \<Longrightarrow> service_step py cls os api e st' st'' \<Longrightarrow>
    service_run py cls os api st (es @ [e]) st''"

text \<open>What a run is to the loop alone.\<close>

lemma service_step_loop:
  "service_step py cls os api e st st' \<Longrightarrow> \<exists>c. serve_step c (fst st) (fst st')
     \<and> (is_signal c \<longleftrightarrow> (\<exists>x. e = Other x \<and> is_signal x))"
proof (induction rule: service_step.induct)
  case (leaves x s p c)
  then show ?case using leaves_step [OF leaves, of s p] by (intro exI [of _ "if x = Inr () then Loop else Fails"]) simp
qed fastforce+

lemma service_run_loop:
  "service_run py cls os api st es st' \<Longrightarrow> \<exists>cs. serve_run (fst st) cs (fst st')
     \<and> signals cs = length (filter (\<lambda>e. \<exists>x. e = Other x \<and> is_signal x) es)"
proof (induction rule: service_run.induct)
  case (service_start st)
  show ?case using run_start by (fastforce simp: signals_def)
next
  case (service_more st es st' e st'')
  obtain cs where cs: "serve_run (fst st) cs (fst st')"
    "signals cs = length (filter (\<lambda>e. \<exists>x. e = Other x \<and> is_signal x) es)" using service_more.IH by blast
  obtain c where c: "serve_step c (fst st') (fst st'')" "is_signal c \<longleftrightarrow> (\<exists>x. e = Other x \<and> is_signal x)"
    using service_step_loop [OF service_more.hyps(2)] by blast
  have "serve_run (fst st) (cs @ [c]) (fst st'')" by (rule run_step [OF cs(1) c(1)])
  moreover have "signals (cs @ [c]) = length (filter (\<lambda>e. \<exists>x. e = Other x \<and> is_signal x) (es @ [e]))"
    using cs(2) c(2) by simp
  ultimately show ?case by blast
qed

section \<open>Whose requests take effect\<close>

text \<open>The requests of one user in a history, and what they do one after the other.\<close>

fun requests_of :: "nat \<Rightarrow> event list \<Rightarrow> client list" where
  "requests_of a [] = []"
| "requests_of a (Client p k # es) = (if peer_uid p = Inr a then k # requests_of a es else requests_of a es)"
| "requests_of a (Other e # es) = requests_of a es"

lemma requests_of_append: "requests_of a (es @ fs) = requests_of a es @ requests_of a fs"
  by (induction es rule: requests_of.induct) simp_all

definition handle_all ::
  "interp \<Rightarrow> hcls \<Rightarrow> os_env \<Rightarrow> ('w, 'h, 's, 'i) flux_api \<Rightarrow> client list \<Rightarrow> ('w, 'h) srv \<Rightarrow> ('w, 'h) srv" where
  "handle_all py cls os api ks c = foldl (\<lambda>c k. snd (handled py cls os api k c)) c ks"

text \<open>The permitted user never changes while the loop runs.\<close>

lemma shutdown_allowed [simp]: "allowed_peer_uid (shutdown_request p s) = allowed_peer_uid s"
  by (simp add: shutdown_request_def close_sock_def emit_def)

lemma stop_allowed: "stop s = (b, t) \<Longrightarrow> allowed_peer_uid t = allowed_peer_uid s"
  by (auto simp: stop_def Let_def split: if_splits)

lemma refuse_allowed: "allowed_peer_uid (snd (refuse p s)) = allowed_peer_uid s"
  by (auto simp: refuse_def seq_p_def bind_p_def catch_p_def sock_sendall_def sock_shutdown_wr_def
      prog_simps emit_def trim_refused_eq Let_def split: option.splits if_splits)

lemma verify_allowed:
  assumes "verify_request p s = (r, t)"
  shows "allowed_peer_uid t = allowed_peer_uid s"
proof -
  have "allowed_peer_uid t = allowed_peer_uid s" if "refuse p (s\<lparr>errlog := l\<rparr>) = (q, t)" for l q
    using refuse_allowed [of p "s\<lparr>errlog := l\<rparr>"] that by simp
  moreover have "allowed_peer_uid t = allowed_peer_uid s" if "refuse p s = (q, t)" for q
    using refuse_allowed [of p s] that by simp
  ultimately show ?thesis
    using assms
    by (auto simp: verify_request_def seq_p_def bind_p_def log_stderr_def prog_simps
        split: option.splits sum.splits if_splits prod.splits)
qed

lemma allowed_step:
  "serve_step e st st' \<Longrightarrow> allowed_peer_uid (fst st') = allowed_peer_uid (fst st)"
proof (induction rule: serve_step.induct)
  case (signal_raises ph s s1)
  then show ?case by (cases ph) (auto simp: interrupt_def wind_up_def dest: stop_allowed)
next
  case (alarm_raises ph s a s1)
  then show ?case by (cases ph) (auto simp: interrupt_def wind_up_def dest: stop_allowed)
qed (auto simp: wind_up_def handle_timeout_def emit_def reap_eq dest: verify_allowed stop_allowed)

inductive_cases connects_step: "serve_step (Connects p ws) st st'"

lemma connects_cases:
  assumes "serve_step (Connects p ws) st st'"
  shows "(snd st' = Serving p ws) = (fst (verify_request p (get_request p (fst st))) = Inr True)"
    and "snd st' = Serving q vs \<Longrightarrow> q = p \<and> vs = ws"
  using assms by (auto elim: connects_step)

lemma service_effect_step:
  assumes "service_step py cls os api e (st, c, x) (st', c', x')" and "allowed_peer_uid (fst st) = Some a"
  shows "c' = handle_all py cls os api (requests_of a [e]) c"
  using assms(1)
proof (cases rule: service_step.cases)
  case (admitted p ws s k)
  then have "fst (verify_request p (get_request p (fst st))) = Inr True"
    using connects_cases(1) [OF admitted(3)] by simp
  then have "peer_uid p = Inr a" using gate_refused_fst [OF assms(2)] by blast
  then show ?thesis using admitted by (simp add: handle_all_def)
next
  case (turned_away p ws s ph k)
  then have "fst (verify_request p (get_request p (fst st))) \<noteq> Inr True"
    using connects_cases(1) [OF turned_away(5)] by simp
  then have "peer_uid p \<noteq> Inr a" using get_request_admits [OF assms(2)] by fastforce
  then show ?thesis using turned_away by (simp add: handle_all_def)
qed (simp_all add: handle_all_def)

lemma service_effects:
  "service_run py cls os api (st, c, x) es (st', c', x') \<Longrightarrow> allowed_peer_uid (fst st) = Some a \<Longrightarrow>
   c' = handle_all py cls os api (requests_of a es) c \<and> allowed_peer_uid (fst st') = Some a"
proof (induction "(st, c, x)" es "(st', c', x')" arbitrary: st' c' x' rule: service_run.induct)
  case service_start
  then show ?case by (simp add: handle_all_def)
next
  case (service_more es mid e)
  obtain st1 c1 x1 where mid: "mid = (st1, c1, x1)" by (cases mid)
  from service_more.hyps(2) [OF mid] service_more.prems
  have c1: "c1 = handle_all py cls os api (requests_of a es) c" and s1: "allowed_peer_uid (fst st1) = Some a" by blast+
  from service_effect_step [OF _ s1] service_more.hyps(3) mid
  have "c' = handle_all py cls os api (requests_of a [e]) c1" by blast
  then have "c' = handle_all py cls os api (requests_of a (es @ [e])) c"
    by (simp add: c1 handle_all_def requests_of_append)
  moreover have "allowed_peer_uid (fst st') = Some a"
    using service_step_loop [OF service_more.hyps(3)] allowed_step s1 mid by fastforce
  ultimately show ?case by blast
qed

section \<open>A request of the permitted user, through the loop\<close>

lemma service_run_trans:
  "service_run py cls os api b fs d \<Longrightarrow> service_run py cls os api a es b \<Longrightarrow> service_run py cls os api a (es @ fs) d"
proof (induction rule: service_run.induct)
  case (service_more st fs st' e st'')
  then have "service_run py cls os api a ((es @ fs) @ [e]) st''" by (intro service_run.service_more)
  then show ?case by simp
qed simp

lemma service_one: "service_step py cls os api e a b \<Longrightarrow> service_run py cls os api a [e] b"
  using service_more [OF service_start] by fastforce

lemma service_writes:
  "service_run py cls os api ((s, Serving p ws), c, x) (replicate (length ws) (Other Loop))
     ((s\<lparr>trace := trace s @ map (Sent (sock p)) ws\<rparr>, Serving p []), c, x)"
proof (induction ws arbitrary: s)
  case Nil
  then show ?case by (simp add: service_start)
next
  case (Cons w ws)
  let ?s = "emit (Sent (sock p) w) s"
  have "service_step py cls os api (Other Loop) ((s, Serving p (w # ws)), c, x) ((?s, Serving p ws), c, x)"
    by (rule other [OF write_chunk]) simp_all
  from service_run_trans [OF Cons.IH [of ?s] service_one [OF this]] show ?case by (simp add: emit_def)
qed

text \<open>Whatever the handler makes of the connection, unless a signal falls into it.\<close>

lemma request_through_loop:
  assumes inv: "loop_inv (s, Waiting d)" and gate: "allowed_peer_uid s = Some a" "peer_uid p = Inr a"
    and sock: "sock p \<notin> fst ` set (refused s)" "shut_fault p = None"
    and h: "handled py cls os api k c = (r, c')" "r \<noteq> Inl KeyboardInterrupt" "concat ws = sent c'"
  shows "\<exists>t d'. service_run py cls os api ((s, Waiting d), c, x)
      (Client p k # replicate (length ws) (Other Loop) @ [Other (if r = Inr () then Loop else Fails), Other Loop])
      ((t, Waiting d'), c', r)
    \<and> trace t = trace (reap s) @ [Accepted (sock p)] @ map (Sent (sock p)) ws @ [Shut_wr (sock p), Closed (sock p)]
    \<and> \<not> in_request t"
proof -
  let ?g = "(get_request p s)\<lparr>in_request := True\<rparr>"
  let ?w = "?g\<lparr>trace := trace ?g @ map (Sent (sock p)) ws\<rparr>"
  have idle: "\<not> idle s" "\<not> stopping s" using inv by (auto simp: loop_inv_def)
  have "service_step py cls os api (Client p k) ((s, Waiting d), c, x) ((?g, Serving p ws), c', r)"
    by (rule admitted [OF admit [OF get_request_admits [OF gate]] h(1,3)])
  from service_run_trans [OF service_writes service_one [OF this]]
  have 1: "service_run py cls os api ((s, Waiting d), c, x) (Client p k # replicate (length ws) (Other Loop)) ((?w, Serving p []), c', r)"
    by simp
  obtain t where t: "resume p (noblock_rest r p ?w) = (t, Testing)" "trace t = trace ?w @ [Shut_wr (sock p), Closed (sock p)]"
    "\<not> in_request t" "\<not> idle t" "\<not> stopping t"
  proof -
    have "\<not> (\<exists>e \<in> set (refused (reap s)). fst e = sock p)" using sock(1) by (force simp: reap_eq)
    then have sh: "shutdown_request p u = u\<lparr>trace := trace u @ [Shut_wr (sock p), Closed (sock p)]\<rparr>"
      if "refused u = refused (reap s)" for u
      using that sock(2) by (simp add: shutdown_request_def close_sock_def emit_def)
    show thesis
    proof (cases r)
      case (Inl e)
      then show thesis
        using h(2) idle by (intro that [of "fst (resume p (noblock_rest r p ?w))"]) (simp_all add: resume_def noblock_rest_raises sh get_request_def emit_def)
    next
      case (Inr u)
      then show thesis
        using idle by (intro that [of "fst (resume p (noblock_rest r p ?w))"]) (simp_all add: resume_def noblock_rest_returns sh get_request_def emit_def)
    qed
  qed
  have "service_step py cls os api (Other (if r = Inr () then Loop else Fails)) ((?w, Serving p []), c', r) ((t, Testing), c', r)"
    using leaves [OF h(2), of py cls os api ?w p c'] t(1) by simp
  moreover have "serve_step Loop (t, Testing) (t, Waiting (map_option (\<lambda>x. clock t + x) (serve_timeout t)))"
    using t(4,5) by (rule test_wait)
  then have "service_step py cls os api (Other Loop) ((t, Testing), c', r)
      ((t, Waiting (map_option (\<lambda>x. clock t + x) (serve_timeout t))), c', r)"
    by (rule other) simp_all
  ultimately have 2: "service_run py cls os api ((?w, Serving p []), c', r)
      [Other (if r = Inr () then Loop else Fails), Other Loop] ((t, Waiting (map_option (\<lambda>x. clock t + x) (serve_timeout t))), c', r)"
    using service_more [OF service_one] by fastforce
  have "trace t = trace (reap s) @ [Accepted (sock p)] @ map (Sent (sock p)) ws @ [Shut_wr (sock p), Closed (sock p)]"
    using t(2) by (simp add: get_request_def emit_def)
  moreover have "service_run py cls os api ((s, Waiting d), c, x)
      (Client p k # replicate (length ws) (Other Loop) @ [Other (if r = Inr () then Loop else Fails), Other Loop])
      ((t, Waiting (map_option (\<lambda>x. clock t + x) (serve_timeout t))), c', r)"
    using service_run_trans [OF 2 1] by (simp only: append_Cons)
  ultimately show ?thesis using t(3) by blast
qed

text \<open>
  C10. Every connection of the permitted user comes to its end and leaves the server ready for the next, whatever the
  client sends and however it stops, and in however many pieces the output is written: without any signal, the loop's own
  steps, one per piece and two more, take it from the accept to the next wait; on the socket go nothing, one
  whole JSON reply or one whole error page, then the half-close and the close, and nothing in between; and the
  request flag is cleared.
\<close>

theorem owner_request_completes:
  assumes "texts_ok py" and "email_no_io py" and "jobid_raises_value_error api" and "f58_plain api"
    and "uninterrupted api" and "\<forall>text. email_fault py text \<noteq> Some KeyboardInterrupt"
    and "loop_inv (s, Waiting d)" and "allowed_peer_uid s = Some a" and "peer_uid p = Inr a"
    and "sock p \<notin> fst ` set (refused s)" and "shut_fault p = None" and "faults_of k = []"
  shows "\<exists>r c'. handled py (handler_cls py verbose) os api k c = (r, c')
    \<and> (sent c' = [] \<or> reply_sent py (handler_cls py verbose) all_codes (open_conn k c) c'
       \<or> page_sent py (handler_cls py verbose) {400, 414, 431, 501, 505} (open_conn k c) c')
    \<and> (\<forall>ws. concat ws = sent c' \<longrightarrow> (\<exists>es t d'. filter (\<lambda>e. \<exists>x. e = Other x \<and> is_signal x) es = []
         \<and> length es = length ws + 2
         \<and> service_run py (handler_cls py verbose) os api ((s, Waiting d), c, x) (Client p k # es) ((t, Waiting d'), c', r)
         \<and> trace t = trace (reap s) @ [Accepted (sock p)] @ map (Sent (sock p)) ws @ [Shut_wr (sock p), Closed (sock p)]
         \<and> \<not> in_request t))"
proof -
  let ?cls = "handler_cls py verbose"
  obtain r c' where h: "handled py ?cls os api k c = (r, c')" by fastforce
  note bytes = handle_any_bytes [OF assms(1-4) ready_open [OF assms(12)] h [unfolded handled_def]]
  have r: "r \<noteq> Inl KeyboardInterrupt" using bytes assms(5,6) by auto
  have out: "sent c' = [] \<or> reply_sent py ?cls all_codes (open_conn k c) c'
      \<or> page_sent py ?cls {400, 414, 431, 501, 505} (open_conn k c) c'"
    using bytes by (auto split: sum.splits)
  have "\<exists>es t d'. filter (\<lambda>e. \<exists>x. e = Other x \<and> is_signal x) es = [] \<and> length es = length ws + 2
      \<and> service_run py ?cls os api ((s, Waiting d), c, x) (Client p k # es) ((t, Waiting d'), c', r)
      \<and> trace t = trace (reap s) @ [Accepted (sock p)] @ map (Sent (sock p)) ws @ [Shut_wr (sock p), Closed (sock p)]
      \<and> \<not> in_request t" if "concat ws = sent c'" for ws
  proof -
    let ?es = "replicate (length ws) (Other Loop) @ [Other (if r = Inr () then Loop else Fails), Other Loop]"
    have "filter (\<lambda>e. \<exists>x. e = Other x \<and> is_signal x) ?es = []" "length ?es = length ws + 2" by auto
    with request_through_loop [OF assms(7-11) h r that, of x] show ?thesis by blast
  qed
  with h out show ?thesis by blast
qed

section \<open>The process\<close>

text \<open>How \<open>main\<close> leaves \<open>serve()\<close>: a \<open>KeyboardInterrupt\<close> is swallowed, any other exception goes on.\<close>

definition after_serve :: "ending \<Rightarrow> exn + unit" where
  "after_serve e =
     (case e of Raised x \<Rightarrow> Inl x | Stopped \<Rightarrow> Inr () | Idled \<Rightarrow> Inr () | Interrupted \<Rightarrow> Inr () | Truncated p ws \<Rightarrow> Inr ())"

text \<open>The service a successful \<open>main\<close> starts.\<close>

definition started :: "serving \<Rightarrow> ('w, 'h) srv \<Rightarrow> ('w, 'h) service" where
  "started cfg c = ((fresh_server (srv_peer_uid cfg) (srv_idle cfg), Testing), c, Inr ())"

definition serves_as ::
  "interp \<Rightarrow> os_env \<Rightarrow> ('w, 'h, 's, 'i) flux_api \<Rightarrow> serving \<Rightarrow> ('w, 'h) srv \<Rightarrow> event list \<Rightarrow> ('w, 'h) service \<Rightarrow> bool" where
  "serves_as py os api cfg c es st =
     service_run py (handler_cls py (srv_verbose cfg)) os api (started cfg c) es st"

text \<open>
  C1. From the command line to the broker: whenever \<open>main\<close> gets a server going on a unix socket, then
  whatever connections, signals, timeouts and failures follow in whatever order, all that ever happens
  to the Flux handle and the broker is what the requests of one user do, one after the other in the
  order of their arrival: the user named by \<open>--allow-user\<close>, or else the owner of the process.
\<close>

theorem process_serves_owner_only:
  assumes "main os api parse_fsd pr argv st = (Inr (Inr cfg), (w, c))" and "command_line parse_fsd argv = Inr (Inr a)"
    and "family (srv_socket cfg) = AF_UNIX" and "wanted_uid os a = Some u" and "serves_as py os api cfg c es (loop, c', x)"
  shows "c' = handle_all py (handler_cls py (srv_verbose cfg)) os api (requests_of u es) c"
proof -
  have "srv_peer_uid cfg = Some u" using main_peer [OF assms(1,2,3)] assms(4) by simp
  then have "allowed_peer_uid (fst (fresh_server (srv_peer_uid cfg) (srv_idle cfg), Testing)) = Some u"
    by (simp add: fresh_server_def)
  from service_effects [OF assms(5) [unfolded serves_as_def started_def] this] show ?thesis by blast
qed

lemma idle_timeout_step: "serve_step e st st' \<Longrightarrow> idle_timeout (fst st') = idle_timeout (fst st)"
proof (induction rule: serve_step.induct)
  case (signal_raises ph s s1)
  then show ?case by (cases ph) (auto simp: interrupt_def wind_up_def dest: stop_idle_timeout)
next
  case (alarm_raises ph s a s1)
  then show ?case by (cases ph) (auto simp: interrupt_def wind_up_def dest: stop_idle_timeout)
qed (auto simp: wind_up_def handle_timeout_def emit_def dest: verify_idle_timeout stop_idle_timeout)

lemma serve_run_idle_timeout: "serve_run st cs st' \<Longrightarrow> idle_timeout (fst st') = idle_timeout (fst st)"
  by (induction rule: serve_run.induct) (auto dest: idle_timeout_step)

text \<open>Every connection fails, where it fails, with an \<open>OSError\<close> (\<open>behaves\<close>).\<close>

definition all_behave :: "event list \<Rightarrow> bool" where
  "all_behave es \<longleftrightarrow> list_all (\<lambda>e. case e of Client p k \<Rightarrow> behaves p | Other _ \<Rightarrow> True) es"

lemma verify_returns:
  assumes "behaves p"
  shows "\<exists>b t. verify_request p s = (Inr b, t)"
  using assms
  by (auto simp: behaves_def verify_request_def refuse_eq seq_p_def bind_p_def log_stderr_def prog_simps
      split: option.splits sum.splits)

text \<open>The loop ends with an exception only when checking a connection raised it.\<close>

lemma service_never_raises:
  assumes "service_step py cls os api e st st'" and "all_behave [e]" and "\<forall>x. snd (fst st) \<noteq> Ended (Raised x)"
  shows "\<forall>x. snd (fst st') \<noteq> Ended (Raised x)"
proof -
  have loop: "\<forall>x. snd st' \<noteq> Ended (Raised x)"
    if "serve_step c st st'" "\<forall>x. snd st \<noteq> Ended (Raised x)" "\<And>p ws s. c = Connects p ws \<Longrightarrow> \<exists>b t. verify_request p s = (Inr b, t)"
    for c st st'
    using that
  proof (induction rule: serve_step.induct)
    case (verify_raises p s e s2 ws d)
    then show ?case using verify_raises(3) [OF refl, of "get_request p s"] by simp
  qed (auto simp: interrupt_def split: phase.splits)
  show ?thesis
    using assms
  proof (cases rule: service_step.cases)
    case (admitted p ws st0 s k c r c' x)
    then show ?thesis by simp
  next
    case (turned_away p ws st0 s ph k c x)
    have v: "\<exists>b t. verify_request p s' = (Inr b, t)" for s'
      using verify_returns [of p] assms(2) turned_away(1) by (simp add: all_behave_def)
    have "\<forall>x. snd (s, ph) \<noteq> Ended (Raised x)"
      by (rule loop [OF turned_away(4)]) (use v assms(3) turned_away(2) in auto)
    then show ?thesis by (simp add: turned_away(3))
  next
    case (leaves x s p c)
    have "(if x = Inr () then Loop else Fails) \<noteq> Connects q ws" for q ws by simp
    then have "\<forall>y. snd (resume p (noblock_rest x p s)) \<noteq> Ended (Raised y)"
      using loop [OF leaves_step [OF leaves(4)], of s p] by simp
    then show ?thesis using leaves(3) by simp
  next
    case (other e st0 st1 c x)
    then show ?thesis using loop [of e st0 st1] assms(3) by simp
  qed
qed

lemma service_run_never_raises:
  "service_run py cls os api st es st' \<Longrightarrow> all_behave es \<Longrightarrow> \<forall>x. snd (fst st) \<noteq> Ended (Raised x) \<Longrightarrow>
   \<forall>x. snd (fst st') \<noteq> Ended (Raised x)"
proof (induction rule: service_run.induct)
  case (service_more st es st' e st'')
  then show ?case using service_never_raises [OF service_more.hyps(2)] by (simp add: all_behave_def)
qed

text \<open>
  C6. The process ends well: once \<open>main\<close> has a server going and that server's loop ends, for whatever
  reason and after whatever history of connections that fail only as the kernel documents, signals and
  timeouts, \<open>main\<close> returns without an exception, the listening socket is closed and no alarm is left.
  A response was cut short only if two signals came, and without any signal the reason is idleness,
  which takes an idle timeout.
\<close>

theorem process_ends_well:
  assumes "main os api parse_fsd pr argv st = (Inr (Inr cfg), (w, c))" and "all_behave es"
    and "serves_as py os api cfg c es ((s, Ended e), c', x)"
  shows "after_serve e = Inr () \<and> \<not> listening s \<and> alarm s = None
    \<and> (\<forall>p ws. e = Truncated p ws \<longrightarrow> 2 \<le> length (filter (\<lambda>e. \<exists>x. e = Other x \<and> is_signal x) es))
    \<and> (filter (\<lambda>e. \<exists>x. e = Other x \<and> is_signal x) es = [] \<longrightarrow> e = Idled \<and> srv_idle cfg \<noteq> None)"
proof -
  let ?s0 = "(fresh_server (srv_peer_uid cfg) (srv_idle cfg), Testing)"
  note run = assms(3) [unfolded serves_as_def started_def]
  have raised: "\<forall>x. e \<noteq> Raised x" using service_run_never_raises [OF run assms(2)] by simp
  obtain cs where cs: "serve_run ?s0 cs (s, Ended e)"
    "signals cs = length (filter (\<lambda>e. \<exists>x. e = Other x \<and> is_signal x) es)"
    using service_run_loop [OF run] by auto
  have "loop_inv (s, Ended e)" by (rule loop_inv_run [OF cs(1) loop_inv_start])
  then have "\<not> listening s" "alarm s = None" by (simp_all add: loop_inv_def)
  moreover have "counted (signals cs) (s, Ended e)"
    by (rule counted_run [OF cs(1) loop_inv_start]) (simp add: counted_def fresh_server_def)
  moreover have "after_serve e = Inr ()" using raised by (cases e) (auto simp: after_serve_def)
  moreover have "idle_inv (s, Ended e)" "idle_timeout s = srv_idle cfg"
    using idle_inv_run [OF cs(1)] serve_run_idle_timeout [OF cs(1)] by (simp_all add: idle_inv_def fresh_server_def)
  ultimately show ?thesis
    using raised by (cases e) (auto simp: counted_def idle_inv_def cs(2))
qed

section \<open>On the sample\<close>

lemma sample_waits:
  "\<exists>d. service_run py cls os api (started cfg c) [Other Loop]
     ((fresh_server (srv_peer_uid cfg) (srv_idle cfg), Waiting d), c, Inr ())"
proof -
  let ?s = "fresh_server (srv_peer_uid cfg) (srv_idle cfg)"
  have "serve_step Loop (?s, Testing) (?s, Waiting (map_option (\<lambda>t. clock ?s + t) (serve_timeout ?s)))"
    by (rule test_wait) (simp_all add: fresh_server_def)
  then have "service_step py cls os api (Other Loop) (started cfg c)
      ((?s, Waiting (map_option (\<lambda>t. clock ?s + t) (serve_timeout ?s))), c, Inr ())"
    unfolding started_def by (rule other) simp_all
  from service_more [OF service_start this] show ?thesis by auto
qed

lemma sample_admits:
  assumes "srv_peer_uid cfg = Some 1000"
  shows "\<exists>st. service_run py cls os api (started cfg c) [Other Loop, Client (sample_peer 5 1000) sample_client] st"
proof -
  let ?s = "fresh_server (srv_peer_uid cfg) (srv_idle cfg)" and ?p = "sample_peer 5 1000"
  obtain d where w: "service_run py cls os api (started cfg c) [Other Loop] ((?s, Waiting d), c, Inr ())"
    using sample_waits by blast
  obtain r c' where h: "handled py cls os api sample_client c = (r, c')" by fastforce
  have "verify_request ?p (get_request ?p ?s) = (Inr True, get_request ?p ?s)"
    using assms by (intro get_request_admits [of _ 1000]) (simp_all add: fresh_server_def sample_peer_uid)
  then have "service_step py cls os api (Client ?p sample_client) ((?s, Waiting d), c, Inr ())
      (((get_request ?p ?s)\<lparr>in_request := True\<rparr>, Serving ?p [sent c']), c', r)"
    by (intro admitted [OF admit h]) simp_all
  from service_more [OF w this] show ?thesis by auto
qed

lemma process_serves_owner_only_witness:
  "\<exists>cfg loop c c' x. serves_as sample_py sample_os sample_api cfg c
       [Other Loop, Client (sample_peer 5 1000) sample_client] (loop, c', x)
     \<and> c' = snd (handled sample_py (handler_cls sample_py (srv_verbose cfg)) sample_os sample_api sample_client c)"
proof -
  obtain cfg w c where m: "activated_main (sample_osys, sample_srv) = (Inr (Inr cfg), (w, c))"
    "family (srv_socket cfg) = AF_UNIX"
    using sample_main by (metis prod.collapse)
  have u: "wanted_uid sample_os alice_args = Some 1000"
    by (simp add: wanted_uid_def truthy_def sample_os_def sample_pw_def lit_simps)
  have "srv_peer_uid cfg = Some 1000" using main_peer [OF m(1) sample_line m(2)] u by simp
  then obtain loop c' x where run: "serves_as sample_py sample_os sample_api cfg c
      [Other Loop, Client (sample_peer 5 1000) sample_client] (loop, c', x)"
    using sample_admits unfolding serves_as_def by (metis prod_cases3)
  have "requests_of 1000 [Other Loop, Client (sample_peer 5 1000) sample_client] = [sample_client]"
    by (simp add: sample_peer_uid)
  then have "c' = snd (handled sample_py (handler_cls sample_py (srv_verbose cfg)) sample_os sample_api sample_client c)"
    using process_serves_owner_only [OF m(1) sample_line m(2) u run] by (simp add: handle_all_def)
  with run show ?thesis by blast
qed

lemma process_ends_well_witness:
  "\<exists>cfg c s x. serves_as sample_py sample_os sample_api cfg c [Other Loop, Other Signal] ((s, Ended Interrupted), c, x)
     \<and> \<not> listening s"
proof -
  obtain cfg w c where m: "activated_main (sample_osys, sample_srv) = (Inr (Inr cfg), (w, c))"
    using sample_main by (metis prod.collapse)
  let ?cls = "handler_cls sample_py (srv_verbose cfg)" and ?s = "fresh_server (srv_peer_uid cfg) (srv_idle cfg)"
  obtain d where w: "service_run sample_py ?cls sample_os sample_api (started cfg c) [Other Loop] ((?s, Waiting d), c, Inr ())"
    using sample_waits by blast
  obtain t where "stop ?s = (True, t)" by (simp add: stop_def Let_def fresh_server_def)
  then have "serve_step Signal (?s, Waiting d) (interrupt (Waiting d) t)"
    by (intro signal_raises) (simp_all add: running_def)
  then have "serve_step Signal (?s, Waiting d) (wind_up t, Ended Interrupted)" by (simp add: interrupt_def)
  then have "service_step sample_py ?cls sample_os sample_api (Other Signal) ((?s, Waiting d), c, Inr ())
      ((wind_up t, Ended Interrupted), c, Inr ())"
    by (rule other) simp_all
  from service_more [OF w this] have run: "serves_as sample_py sample_os sample_api cfg c [Other Loop, Other Signal]
      ((wind_up t, Ended Interrupted), c, Inr ())"
    unfolding serves_as_def by simp
  have "all_behave [Other Loop, Other Signal]" by (simp add: all_behave_def)
  from process_ends_well [OF m this run] run show ?thesis by blast
qed

lemma owner_request_completes_witness:
  "\<exists>r c'. handled sample_py (handler_cls sample_py False) sample_os sample_api (sample_client\<lparr>input := ''GET''\<rparr>) sample_srv = (r, c')
     \<and> (\<exists>es t d'. service_run sample_py (handler_cls sample_py False) sample_os sample_api
           ((fresh_server (Some 1000) None, Waiting None), sample_srv, Inr ())
           (Client (sample_peer 5 1000) (sample_client\<lparr>input := ''GET''\<rparr>) # es) ((t, Waiting d'), c', r)
         \<and> trace t = [Accepted 5, Sent 5 (sent c'), Shut_wr 5, Closed 5])"
proof -
  let ?s = "fresh_server (Some 1000) None" and ?p = "sample_peer 5 1000" and ?k = "sample_client\<lparr>input := ''GET''\<rparr>"
  have py: "email_no_io sample_py" "\<forall>text. email_fault sample_py text \<noteq> Some KeyboardInterrupt"
    by (simp_all add: email_no_io_def sample_py_def)
  have s: "loop_inv (?s, Waiting None)" "sock ?p \<notin> fst ` set (refused ?s)" "shut_fault ?p = None" "faults_of ?k = []"
    and none: "trace (reap ?s) = []" and five: "sock ?p = 5" and uid: "peer_uid ?p = Inr 1000"
    by (simp_all add: sample_peer_uid)
      (simp_all add: loop_inv_def fresh_server_def sample_peer_def sample_client_def reap_eq)
  note main = owner_request_completes [OF sample_texts py(1) sample_jobid sample_f58 sample_uninterrupted py(2) s(1)
      fresh_sample(1) uid s(2-4), where verbose = False and os = sample_os and c = sample_srv and x = "Inr ()"]
  then obtain r c' where h: "handled sample_py (handler_cls sample_py False) sample_os sample_api ?k sample_srv = (r, c')"
    and all: "\<forall>ws. concat ws = sent c' \<longrightarrow> (\<exists>es t d'. filter (\<lambda>e. \<exists>x. e = Other x \<and> is_signal x) es = []
         \<and> length es = length ws + 2
         \<and> service_run sample_py (handler_cls sample_py False) sample_os sample_api ((?s, Waiting None), sample_srv, Inr ())
             (Client ?p ?k # es) ((t, Waiting d'), c', r)
         \<and> trace t = trace (reap ?s) @ [Accepted (sock ?p)] @ map (Sent (sock ?p)) ws @ [Shut_wr (sock ?p), Closed (sock ?p)]
         \<and> \<not> in_request t)" by blast
  have "concat [sent c'] = sent c'" by simp
  with all have "\<exists>es t d'. service_run sample_py (handler_cls sample_py False) sample_os sample_api
      ((?s, Waiting None), sample_srv, Inr ()) (Client ?p ?k # es) ((t, Waiting d'), c', r)
      \<and> trace t = trace (reap ?s) @ [Accepted (sock ?p)] @ map (Sent (sock ?p)) [sent c'] @ [Shut_wr (sock ?p), Closed (sock ?p)]"
    by blast
  with h show ?thesis unfolding none five by simp
qed

end
