(* ===== verification/Packaged.thy ===== *)
theory Packaged
  imports Process
begin

text \<open>
  The server as the packaged systemd units run it: on the socket that systemd made, with the command
  line of \<open>systemd/flux-rest-server@.service.in\<close>. What systemd does is a hypothesis: descriptor 3 is a
  listening unix socket and the environment says so.
\<close>

section \<open>The unit\<close>

text \<open>\<open>ExecStart\<close>, after the name of the command; \<open>web_user\<close> is what \<open>configure\<close> was given.\<close>

definition UNIT_ARGV :: "ustr \<Rightarrow> ustr list" where
  "UNIT_ARGV web_user = [us ''--allow-user='' @ web_user, us ''--idle-timeout=5m'']"

text \<open>What a service manager hands over: an open unix socket as descriptor 3.\<close>

definition socket_handed_over :: "process \<Rightarrow> osys \<Rightarrow> bool" where
  "socket_handed_over pr s \<longleftrightarrow> socket_activated pr = Inr True
     \<and> (case fds s 3 of None \<Rightarrow> False | Some d \<Rightarrow> domain d = AF_UNIX)"

text \<open>A kernel that refuses nothing and has a descriptor to spare.\<close>

definition obliging :: "osys \<Rightarrow> bool" where
  "obliging s \<longleftrightarrow> faults s = (\<lambda>_. None) \<and> free_fd s \<noteq> None \<and> families s AF_UNIX"

section \<open>It starts\<close>

lemma unit_line:
  assumes "parse_fsd (us ''5m'') = Inr d"
  shows "command_line parse_fsd (UNIT_ARGV u) = Inr (Inr (DEFAULTS\<lparr>allow_user := Some u, idle_arg := Some d\<rparr>))"
proof -
  let ?sps = "[Joined (us ''--allow-user'') u, Joined (us ''--idle-timeout'') (us ''5m'')]"
  have "resolve (OPTIONS parse_fsd) (us ''--allow-user'') = Some (Store (\<lambda>v. Inr (\<lambda>a. a\<lparr>allow_user := Some v\<rparr>)))"
    "resolve (OPTIONS parse_fsd) (us ''--idle-timeout'')
      = Some (Store (\<lambda>v. map_sum id (\<lambda>d a. a\<lparr>idle_arg := Some d\<rparr>) (fsd parse_fsd v)))"
    by (simp_all add: resolve_def OPTIONS_def us_Cons)
  then have m: "meaning (OPTIONS parse_fsd) (hd ?sps) = Some (\<lambda>a. a\<lparr>allow_user := Some u\<rparr>)"
    "meaning (OPTIONS parse_fsd) (?sps ! 1) = Some (\<lambda>a. a\<lparr>idle_arg := Some d\<rparr>)"
    using assms by (simp_all add: fsd_def)
  have w: "UNIT_ARGV u = [us ''--allow-user'' @ 61 # u, us ''--idle-timeout'' @ 61 # us ''5m'']"
    by (simp add: UNIT_ARGV_def us_Cons)
  show ?thesis
    using parse_args_spelled [OF options_well_formed [of parse_fsd], where sps = ?sps and given = "\<lambda>_. True" and n = DEFAULTS] m
    unfolding command_line_def w by (simp add: settings_def)
qed

lemma server_on_socket_succeeds:
  assumes "\<forall>c. faults s c = None" and "free_fd s = Some n"
  shows "\<exists>t. server_on_socket so s = (Inr so, t)"
  using assms
  by (simp add: server_on_socket_def bind_p_def seq_p_def catch_p_def socket_new_def syscall_p_def install_fd_def
      free_fd_def return_p_def socket_close_def modify_p_def)

lemma inherited_starts:
  assumes "socket_handed_over pr s" and "obliging s"
  shows "\<exists>t. open_server os api pr a uid (s, b) = (Inr (Inr \<lparr>sock_fd = 3, family = AF_UNIX\<rparr>), (t, b))"
proof -
  obtain d n where d: "fds s 3 = Some d" "domain d = AF_UNIX" and n: "free_fd s = Some n"
    and act: "socket_activated pr = Inr True" and ok: "\<forall>c. faults s c = None" "families s AF_UNIX"
    using assms by (auto simp: socket_handed_over_def obliging_def split: option.splits)
  obtain t where t: "listen_socket 3 s = (Inr \<lparr>sock_fd = 3, family = AF_UNIX\<rparr>, t)"
    and same: "faults t = faults s" "max_fds t = max_fds s"
    using listen_socket_succeeds [OF d(1) _ ok(1) n] ok(2) d(2) by auto
  have "fds t = fds s" using listen_socket_Inr [OF t] by blast
  then have "free_fd t = Some n" using n same by (simp add: free_fd_def)
  then obtain v where v: "server_on_socket \<lparr>sock_fd = 3, family = AF_UNIX\<rparr> t = (Inr \<lparr>sock_fd = 3, family = AF_UNIX\<rparr>, v)"
    using server_on_socket_succeeds ok(1) same(1) by metis
  have "bind_p (listen_socket LISTEN_FDS_START) (\<lambda>so. bind_p (server_on_socket so) (\<lambda>srv. return_p (Inr srv))) s
      = (Inr (Inr \<lparr>sock_fd = 3, family = AF_UNIX\<rparr> :: nat + pyserver), v)"
    using t v by (simp add: LISTEN_FDS_START_def bind_p_def return_p_def)
  then show ?thesis
    using act by (simp add: open_server_def lift_p_def bind_p_def [of "\<lambda>s. (Inr True, s)"] catch_p_def on_os_def)
qed



end
