(* ===== verification/Checks.thy ===== *)
theory Checks
  imports Startup_Spec
begin

text \<open>
  The Python programs of the test suite that judge the server: \<open>stop_midrequest.py\<close> (is a
  response complete?), \<open>listen_socket_family.py\<close> (does \<open>_listen_socket\<close> keep the family?) and
  \<open>run_timeout.py\<close>, which every test runs under. What drives the server is in \<open>Drivers\<close>. What a test detects is as much a claim as what
  the server does.
\<close>

section \<open>Searching for a separator\<close>

text \<open>\<open>s.partition(sep)\<close>: \<open>None\<close> when the separator does not occur.\<close>

fun cut_at :: "ustr \<Rightarrow> ustr \<Rightarrow> (ustr \<times> ustr) option" where
  "cut_at sep [] = None"
| "cut_at sep (c # s) =
     (if py_startswith sep (c # s) then Some ([], drop (length sep) (c # s))
      else map_option (\<lambda>(a, b). (c # a, b)) (cut_at sep s))"

lemma cut_at_Some: "cut_at sep s = Some (a, b) \<Longrightarrow> s = a @ sep @ b"
proof (induction s arbitrary: a)
  case (Cons c s)
  then show ?case
    by (auto simp: py_startswith_iff split: if_splits)
qed simp

lemma cut_at_extend: "cut_at sep s = Some (a, b) \<Longrightarrow> cut_at sep (s @ t) = Some (a, b @ t)"
proof (induction s arbitrary: a)
  case (Cons c s)
  show ?case
  proof (cases "py_startswith sep (c # s)")
    case True
    then obtain r where r: "c # s = sep @ r" by (auto simp: py_startswith_iff)
    have "cut_at sep (c # s) = Some ([], drop (length sep) (c # s))"
      using True by (simp only: cut_at.simps if_True)
    then have "a = []" "b = r" using Cons.prems by (simp_all add: r)
    have eq: "c # s @ t = sep @ r @ t" using r by (metis append_Cons append_assoc)
    then have "py_startswith sep (c # s @ t)" by (simp only: py_startswith_append)
    then have "cut_at sep (c # s @ t) = Some ([], drop (length sep) (c # s @ t))"
      by (simp only: cut_at.simps if_True)
    with \<open>a = []\<close> \<open>b = r\<close> show ?thesis by (simp add: eq)
  next
    case False
    with Cons.prems obtain a' where a: "a = c # a'" "cut_at sep s = Some (a', b)" by auto
    then have s: "s = a' @ sep @ b" by (simp add: cut_at_Some)
    then have "length sep \<le> length (c # s)" by simp
    then have "take (length sep) (c # s @ t) = take (length sep) (c # s)"
      by (metis append_Cons append_eq_append_conv_if append_take_drop_id take_append diff_is_0_eq take_0 append_Nil2)
    with False have "\<not> py_startswith sep (c # s @ t)" by (simp add: py_startswith_def)
    with a Cons.IH show ?thesis by simp
  qed
qed simp

lemma cut_at_shorter: "sep \<noteq> [] \<Longrightarrow> cut_at sep s = Some (a, b) \<Longrightarrow> length b < length s"
  using cut_at_Some [of sep s a b] by simp

text \<open>\<open>s.split(sep)\<close> for a non-empty separator.\<close>

function split_at :: "ustr \<Rightarrow> ustr \<Rightarrow> ustr list" where
  "split_at sep s =
     (if sep = [] then [s]
      else (case cut_at sep s of None \<Rightarrow> [s] | Some (a, b) \<Rightarrow> a # split_at sep b))"
  by pat_completeness auto
termination
  by (relation "measure (\<lambda>(sep, s). length s)") (auto dest: cut_at_shorter)

declare split_at.simps [simp del]

section \<open>\<open>stop_midrequest.py\<close>: is the response complete?\<close>

definition system_exit :: "string \<Rightarrow> exn" where
  "system_exit m = OtherException (us m)"

fun declared_length :: "int option \<Rightarrow> ustr list \<Rightarrow> exn + int option" where
  "declared_length l [] = Inr l"
| "declared_length l (line # lines) =
     (if ascii_lower (before 58 line) = us ''content-length''
      then (case py_int (case after 58 line of None \<Rightarrow> [] | Some v \<Rightarrow> v) of
              Inl e \<Rightarrow> Inl e
            | Inr n \<Rightarrow> declared_length (Some n) lines)
      else declared_length l lines)"

definition check_response :: "interp \<Rightarrow> bytes \<Rightarrow> exn + unit" where
  "check_response py raw =
     (case cut_at (crlf @ crlf) (us raw) of
        None \<Rightarrow> Inl (system_exit ''truncated before end of headers'')
      | Some (head, body) \<Rightarrow>
          (let lines = split_at crlf head in
           if \<not> py_in (us ''200'') (hd lines) then Inl (system_exit ''unexpected status'')
           else (case declared_length None (tl lines) of
                   Inl e \<Rightarrow> Inl e
                 | Inr None \<Rightarrow> Inl (system_exit ''no Content-Length in response'')
                 | Inr (Some n) \<Rightarrow>
                     if int (length body) \<noteq> n then Inl (system_exit ''truncated body'')
                     else (case json_loads py (to_bytes body) of
                             Inl e \<Rightarrow> Inl e
                           | Inr (JObj d) \<Rightarrow>
                               if falsy (map_of d (us ''complete'')) then Inl (system_exit ''body did not round-trip'')
                               else Inr ()
                           | Inr _ \<Rightarrow> Inl (OtherException (us ''AttributeError''))))))"

text \<open>\<open>read_all\<close>: what successive calls of \<open>recv\<close> yield, \<open>None\<close> for a timeout.\<close>

fun read_all :: "bytes \<Rightarrow> bytes option list \<Rightarrow> exn + bytes" where
  "read_all got [] = Inr got"
| "read_all got (None # rs) = Inl (system_exit ''timed out reading the response'')"
| "read_all got (Some d # rs) = (if d = [] then Inr got else read_all (got @ d) rs)"

section \<open>Header blocks, line by line\<close>

definition line_ok :: "ustr \<Rightarrow> bool" where
  "line_ok l \<longleftrightarrow> printable l \<and> l \<noteq> []"

fun join_lines :: "ustr list \<Rightarrow> ustr" where
  "join_lines [] = []"
| "join_lines [l] = l"
| "join_lines (l # ls) = l @ crlf @ join_lines ls"

lemma cut_skip:
  "printable l \<Longrightarrow> sep = 13 # sep' \<Longrightarrow> cut_at sep (l @ s) = map_option (\<lambda>(a, b). (l @ a, b)) (cut_at sep s)"
proof (induction l)
  case Nil
  then show ?case by (cases "cut_at sep s") auto
next
  case (Cons c l)
  then have "\<not> py_startswith sep (c # l @ s)" by (auto simp: py_startswith_def)
  with Cons show ?case by (cases "cut_at sep s") auto
qed

lemma cut_lines:
  "ls \<noteq> [] \<Longrightarrow> list_all line_ok ls \<Longrightarrow>
   cut_at (crlf @ crlf) (concat (map (\<lambda>l. l @ crlf) ls) @ crlf @ r) = Some (join_lines ls, r)"
proof (induction ls rule: join_lines.induct)
  case (2 l)
  then have "printable l" by (simp add: line_ok_def)
  from cut_skip [OF this] show ?case by (simp add: crlf_def py_startswith_def)
next
  case (3 l m ls)
  let ?s = "concat (map (\<lambda>l. l @ crlf) (m # ls)) @ crlf @ r"
  have l: "printable l" and m: "printable m" "m \<noteq> []" using 3 by (auto simp: line_ok_def)
  obtain c t where c: "m = c # t" using m by (cases m) auto
  have "c \<noteq> 13" using m c by auto
  then have "cut_at (crlf @ crlf) (crlf @ ?s) = map_option (\<lambda>(a, b). (crlf @ a, b)) (cut_at (crlf @ crlf) ?s)"
    by (cases "cut_at (crlf @ crlf) ?s") (auto simp: crlf_def py_startswith_def c)
  moreover have "cut_at (crlf @ crlf) ?s = Some (join_lines (m # ls), r)" using 3 by simp
  ultimately show ?case
    using cut_skip [OF l, of "crlf @ crlf" "[10, 13, 10]" "crlf @ ?s"] by (simp add: crlf_def)
qed simp

lemma split_lines: "ls \<noteq> [] \<Longrightarrow> list_all line_ok ls \<Longrightarrow> split_at crlf (join_lines ls) = ls"
proof (induction ls rule: join_lines.induct)
  case (2 l)
  then have "printable l" by (simp add: line_ok_def)
  from cut_skip [OF this, of crlf "[10]" "[]"] show ?case
    by (subst split_at.simps) (simp add: crlf_def)
next
  case (3 l m ls)
  then have "printable l" by (simp add: line_ok_def)
  from cut_skip [OF this, of crlf "[10]" "crlf @ join_lines (m # ls)"]
  have "cut_at crlf (join_lines (l # m # ls)) = Some (l, join_lines (m # ls))"
    by (simp add: crlf_def py_startswith_def)
  with 3 show ?case by (subst split_at.simps) (simp add: crlf_def)
qed simp

section \<open>The check on what the server sends\<close>

definition head_lines :: "nat \<Rightarrow> ustr \<Rightarrow> headers \<Rightarrow> ustr list" where
  "head_lines code m hs = (us ''HTTP/1.0 '' @ str_int (int code) @ [32] @ m) # map (\<lambda>(n, v). n @ us '': '' @ v) hs"

lemma head_text_lines: "head_text code m hs = concat (map (\<lambda>l. l @ crlf) (head_lines code m hs)) @ crlf"
  by (simp add: head_text_def status_line_def head_lines_def header_line_def comp_def case_prod_unfold)

lemma head_lines_ok: "printable m \<Longrightarrow> list_all header_ok hs \<Longrightarrow> list_all line_ok (head_lines code m hs)"
  using printable_str_int
  by (auto simp: head_lines_def line_ok_def list_all_iff header_ok_def lit_simps)

lemma py_int_blank: "py_int (32 # s) = py_int s"
  by (simp add: py_int_def py_strip_def is_space_def)

lemma declared_step:
  "58 \<notin> set n \<Longrightarrow> declared_length l ((n @ us '': '' @ v) # ls) =
     (if ascii_lower n = us ''content-length''
      then (case py_int v of Inl e \<Rightarrow> Inl e | Inr k \<Rightarrow> declared_length (Some k) ls)
      else declared_length l ls)"
  using before_append [of 58 n "32 # v"] after_append [of 58 n "32 # v"]
  by (simp add: us_Cons py_int_blank)

lemma declared_json:
  assumes "length (body_bytes body) < 10 ^ int_max_str_digits"
  shows "declared_length None (map (\<lambda>(n, v). n @ us '': '' @ v)
      [(us ''Server'', server_version cls @ 32 # sys_version py), (us ''Date'', http_date py),
       (us ''Content-Type'', us ''application/json''),
       (us ''Content-Length'', str_int (int (length (body_bytes body))))])
    = Inr (Some (int (length (body_bytes body))))"
proof -
  have names: "58 \<notin> set (us ''Server'')" "58 \<notin> set (us ''Date'')" "58 \<notin> set (us ''Content-Type'')"
    "58 \<notin> set (us ''Content-Length'')"
    "ascii_lower (us ''Server'') \<noteq> us ''content-length''" "ascii_lower (us ''Date'') \<noteq> us ''content-length''"
    "ascii_lower (us ''Content-Type'') \<noteq> us ''content-length''"
    "ascii_lower (us ''Content-Length'') = us ''content-length''"
    by (simp_all add: ascii_lower_def lit_simps)
  have "\<bar>int (length (body_bytes body))\<bar> < 10 ^ int_max_str_digits"
    using assms by (simp only: abs_of_nat of_nat_less_numeral_power_cancel_iff)
  then have "py_int (str_int (int (length (body_bytes body)))) = Inr (int (length (body_bytes body)))"
    by (rule py_int_str_int)
  then show ?thesis
    by (simp only: list.map prod.case declared_step names if_True if_False simp_thms sum.case declared_length.simps(1))
qed

lemma us_render:
  assumes "printable m" and "list_all header_ok hs"
  shows "us (render (code, m, hs, body)) = head_text code m hs @ us body"
proof -
  have "\<forall>x \<in> set (head_lines code m hs). \<forall>c \<in> set x. 0 \<le> c \<and> c < 256"
    using head_lines_ok [OF assms, of code] by (force simp: list_all_iff line_ok_def printable_def)
  then have "c \<in> set (head_text code m hs) \<Longrightarrow> 0 \<le> c \<and> c < 256" for c
    unfolding head_text_lines by (auto simp: crlf_def split: if_splits)
  then show ?thesis by (simp add: render_def us_to_bytes)
qed

lemma status_200: "us ''HTTP/1.0 200 OK'' = us ''HTTP/1.0 '' @ us ''200'' @ us '' OK''"
  by (simp add: lit_simps)

lemma us_take: "us (take n b) = take n (us b)"
  by (simp add: us_def take_map)

definition slow_reply :: "(ustr \<times> json) list \<Rightarrow> reply" where
  "slow_reply d = (200, JObj d, [])"

lemma slow_message:
  "json_message py cls (slow_reply d) = (200, us ''OK'',
     [(us ''Server'', server_version cls @ 32 # sys_version py), (us ''Date'', http_date py),
      (us ''Content-Type'', us ''application/json''),
      (us ''Content-Length'', str_int (int (length (body_bytes (JObj d)))))], body_bytes (JObj d))"
  by (simp add: json_message_def slow_reply_def reason_def)

lemma check_prefix:
  assumes "texts_ok py" and "readable py (json_depth py) (JObj d)" and "\<not> falsy (map_of d (us ''complete''))"
    and "length (body_bytes (JObj d)) < 10 ^ int_max_str_digits"
  shows "check_response py (take n (render (json_message py (handler_cls py verbose) (slow_reply d)))) = Inr ()
    \<longleftrightarrow> length (render (json_message py (handler_cls py verbose) (slow_reply d))) \<le> n"
proof -
  let ?cls = "handler_cls py verbose"
  let ?b = "body_bytes (JObj d)"
  let ?hs = "[(us ''Server'', server_version ?cls @ 32 # sys_version py), (us ''Date'', http_date py),
      (us ''Content-Type'', us ''application/json''), (us ''Content-Length'', str_int (int (length ?b)))]"
  let ?raw = "render (json_message py ?cls (slow_reply d))"
  let ?L = "head_lines 200 (us ''OK'') ?hs" and ?h = "head_text 200 (us ''OK'') ?hs"
  have cls: "server_version ?cls = SERVER_NAME" by (simp add: handler_cls_def)
  have ok: "printable (us ''OK'')" "list_all header_ok ?hs"
    using server_header_ok(1) [OF assms(1) cls] server_header_ok(2) [OF assms(1)] server_header_ok(3,4)
    by (simp_all add: lit_simps)
  have raw: "us ?raw = ?h @ us ?b" unfolding slow_message using us_render [OF ok] .
  have L: "?L \<noteq> []" "list_all line_ok ?L" using head_lines_ok [OF ok, of 200] by (simp_all add: head_lines_def)
  have cut: "cut_at (crlf @ crlf) (?h @ r) = Some (join_lines ?L, r)" for r
    using cut_lines [OF L, of r] by (simp add: head_text_lines)
  have "str_int 200 = us ''200''"
    by (simp add: str_int_def dec_digits.simps [of 200] dec_digits.simps [of 20] dec_digits.simps [of 2] lit_simps)
  then have status: "us ''HTTP/1.0 '' @ str_int 200 @ 32 # us ''OK'' = us ''HTTP/1.0 200 OK''"
    by (simp add: lit_simps)
  have head: "hd (split_at crlf (join_lines ?L)) = us ''HTTP/1.0 200 OK''"
    "declared_length None (tl (split_at crlf (join_lines ?L))) = Inr (Some (int (length ?b)))"
    using declared_json [OF assms(4), of ?cls py] unfolding split_lines [OF L]
    unfolding head_lines_def
    by (simp_all only: list.sel of_nat_numeral append_Cons append_Nil status)
  have in_200: "py_in (us ''200'') (us ''HTTP/1.0 200 OK'')"
    unfolding py_in_iff status_200 by blast
  have loads: "json_loads py (to_bytes (us ?b)) = Inr (JObj d)"
    using json_loads_dumps_line [OF assms(2)] by (simp add: body_bytes_def)
  have len: "length (us ?b) = length ?b" by (simp add: us_def)
  have full: "check_response py ?raw = Inr ()"
    using assms(3)
    by (simp only: check_response_def raw cut option.case prod.case Let_def head in_200 sum.case len loads
        json.case simp_thms if_False)
  have short: "check_response py x \<noteq> Inr ()" if "us x = ?h @ r" and "length r \<noteq> length ?b" for x r
    using that(2)
    by (simp only: check_response_def that(1) cut option.case prod.case Let_def head in_200 sum.case
        of_nat_eq_iff simp_thms if_False if_True) simp
  show ?thesis
  proof (cases "length ?raw \<le> n")
    case True
    with full show ?thesis by simp
  next
    case False
    have n: "us (take n ?raw) = take n (?h @ us ?b)" by (simp add: raw us_take)
    have "check_response py (take n ?raw) \<noteq> Inr ()"
    proof (cases "length ?h \<le> n")
      case True
      have "length ?raw = length (us ?raw)" by (simp only: us_def length_map)
      also have "\<dots> = length ?h + length ?b" by (simp only: raw length_append len)
      finally have "length (take (n - length ?h) (us ?b)) < length ?b"
        using False True by (simp only: length_take len)
      then have "length (take (n - length ?h) (us ?b)) \<noteq> length ?b" by (rule less_imp_neq)
      moreover have "us (take n ?raw) = ?h @ take (n - length ?h) (us ?b)"
        unfolding n take_append using True by (simp only: take_all)
      ultimately show ?thesis using short system_exit_def by blast
    next
      case 2: False
      have "cut_at (crlf @ crlf) (take n ?h) = None"
      proof (rule ccontr)
        assume "cut_at (crlf @ crlf) (take n ?h) \<noteq> None"
        then obtain a b where "cut_at (crlf @ crlf) (take n ?h) = Some (a, b)" by auto
        from cut_at_extend [OF this, of "drop n ?h"] have "cut_at (crlf @ crlf) ?h = Some (a, b @ drop n ?h)" by simp
        with cut [of "[]"] 2 show False by simp
      qed
      with 2 show ?thesis by (simp add: check_response_def n)
    qed
    with False show ?thesis by simp
  qed
qed

text \<open>
  The test that a stop signal truncates no response detects every truncation: of the
  response the server sends for a route that returns a complete object, the whole passes the
  check and no proper prefix does.
\<close>

theorem check_detects_truncation:
  assumes "texts_ok py" and "readable py (json_depth py) (JObj d)" and "\<not> falsy (map_of d (us ''complete''))"
    and "length (body_bytes (JObj d)) < 10 ^ int_max_str_digits"
  shows "check_response py (take n (render (json_message py (handler_cls py verbose) (slow_reply d)))) = Inr ()
    \<longleftrightarrow> length (render (json_message py (handler_cls py verbose) (slow_reply d))) \<le> n"
  using assms by (rule check_prefix)

lemma check_detects_truncation_witness:
  "check_response sample_py (render (json_message sample_py (handler_cls sample_py False)
     (slow_reply [(us ''complete'', JBool True)]))) = Inr ()"
proof -
  let ?d = "[(us ''complete'', JBool True)]"
  let ?raw = "render (json_message sample_py (handler_cls sample_py False) (slow_reply ?d))"
  have "readable sample_py (json_depth sample_py) (JObj ?d)"
    by (simp add: sample_py_def is_scalar_def is_surrogate_def eval_nat_numeral lit_simps)
  moreover have "length (body_bytes (JObj ?d)) < 10 ^ int_max_str_digits"
  proof -
    have "length (body_bytes (JObj ?d)) = 19"
      by (simp add: body_bytes_def json_quote_def esc_char_def lit_simps)
    also have "19 < (10::nat) ^ 2" by simp
    also have "(10::nat) ^ 2 \<le> 10 ^ int_max_str_digits"
      by (rule power_increasing) (simp_all add: int_max_str_digits_def)
    finally show ?thesis .
  qed
  ultimately have "check_response sample_py (take (length ?raw) ?raw) = Inr ()"
    using check_detects_truncation [OF sample_texts, of ?d "length ?raw" False] by simp
  then show ?thesis by simp
qed

section \<open>\<open>listen_socket_family.py\<close>\<close>

text \<open>
  \<open>check\<close> for one socket; the result is what it appends to \<open>failures\<close>. \<open>family_repr\<close> is the
  \<open>repr\<close> of an address family.
\<close>

definition check_family :: "(int \<Rightarrow> ustr) \<Rightarrow> ustr \<Rightarrow> nat \<Rightarrow> int \<Rightarrow> (osys, ustr list) prog" where
  "check_family family_repr name fd expected =
     bind_p (os_dup fd) (\<lambda>copy.
     bind_p (listen_socket copy) (\<lambda>wrapped.
     finally_p
       (return_p (if family wrapped \<noteq> expected
                  then [name @ us '': got '' @ family_repr (family wrapped) @ us '', want '' @ family_repr expected]
                  else []))
       (socket_close wrapped)))"

text \<open>The test fails exactly on a socket whose family is not the expected one.\<close>

lemma check_family_decides:
  assumes "check_family family_repr name fd expected s = (Inr failures, t)"
  shows "failures = [] \<longleftrightarrow> (\<exists>d. fds s fd = Some d \<and> domain d = expected)"
proof -
  obtain n u so v where n: "os_dup fd s = (Inr n, u)" and so: "listen_socket n u = (Inr so, v)"
    and f: "failures = (if family so \<noteq> expected
      then [name @ us '': got '' @ family_repr (family so) @ us '', want '' @ family_repr expected] else [])"
    using assms by (auto simp: check_family_def bind_p_eq_Inr finally_p_Inr return_p_Inr)
  obtain d where d: "fds s fd = Some d" "fds u n = Some d" using os_dup_Inr [OF n] by auto
  from listen_socket_family(1) [OF so] d(2) have "family so = domain d" by simp
  with f d(1) show ?thesis by auto
qed

section \<open>\<open>run_timeout.py\<close>\<close>

text \<open>
  The command line (a signal is a number or a text), \<open>getattr(signal, name)\<close>, and the
  \<open>subprocess\<close> calls, which act on the system \<open>'p\<close>.
\<close>

record timeout_args =
  signal_arg :: "int + ustr"
  env_arg :: "ustr list"
  kill_after :: rat
  timeout_arg :: rat
  cmd_arg :: ustr
  cmd_args :: "ustr list"

text \<open>\<open>say\<close> is the line printed when the timeout has passed, of the command and the timeout.\<close>

record 'p subprocess =
  Popen :: "ustr list \<Rightarrow> (ustr \<times> ustr) list \<Rightarrow> ('p, unit) prog"
  wait :: "rat option \<Rightarrow> ('p, int) prog"
  send_signal :: "int \<Rightarrow> ('p, unit) prog"
  say :: "ustr \<Rightarrow> rat \<Rightarrow> ('p, unit) prog"

definition SIGKILL :: int where
  "SIGKILL = 9"

definition resolve_signal :: "(ustr \<Rightarrow> int option) \<Rightarrow> int + ustr \<Rightarrow> exn + int" where
  "resolve_signal signal_attr a =
     (case a of
        Inl n \<Rightarrow> Inr n
      | Inr name \<Rightarrow>
          (case py_int name of
             Inr n \<Rightarrow> Inr n
           | Inl _ \<Rightarrow>
               (case signal_attr name of
                  Some n \<Rightarrow> Inr n
                | None \<Rightarrow>
                    (case signal_attr (us ''SIG'' @ name) of
                       Some n \<Rightarrow> Inr n
                     | None \<Rightarrow> Inl (ValueError (us ''value passed for signal is invalid: '' @ name))))))"

text \<open>The status a shell would give.\<close>

definition exit_signal :: "int \<Rightarrow> int" where
  "exit_signal rc = (if rc < 0 then 128 + \<bar>rc\<bar> else rc)"

fun add_env :: "(ustr \<times> ustr) list \<Rightarrow> ustr list \<Rightarrow> exn + (ustr \<times> ustr) list" where
  "add_env env0 [] = Inr env0"
| "add_env env0 (e # es) =
     (case split_on 61 e of
        [k, v] \<Rightarrow> add_env (AList.update k v env0) es
      | _ \<Rightarrow> Inl (ValueError (us ''not two values to unpack'')))"

text \<open>
  The result is the exit status. The local variable \<open>r\<close> is assigned by each \<open>wait\<close> that
  returns; the handler that never waits leaves it unassigned.
\<close>

definition after_timeout :: "'p subprocess \<Rightarrow> int \<Rightarrow> timeout_args \<Rightarrow> ('p, int option) prog" where
  "after_timeout sp signum a =
     seq_p (say sp (cmd_arg a) (timeout_arg a))
    (seq_p (send_signal sp signum)
       (if kill_after a > 0 then
          bind_p (catch_p (wait sp (Some (kill_after a)))
            (\<lambda>e. case e of TimeoutExpired _ \<Rightarrow> seq_p (send_signal sp SIGKILL) (wait sp None) | _ \<Rightarrow> raise_p e))
            (\<lambda>r. return_p (Some r))
        else return_p None))"

definition do_timeout ::
  "'p subprocess \<Rightarrow> (ustr \<times> ustr) list \<Rightarrow> int \<Rightarrow> timeout_args \<Rightarrow> ('p, int) prog" where
  "do_timeout sp env0 signum a =
     bind_p (lift_p (add_env env0 (env_arg a))) (\<lambda>env.
     bind_p
       (catch_p
          (seq_p (Popen sp (cmd_arg a # cmd_args a) env)
             (bind_p (wait sp (Some (timeout_arg a))) (\<lambda>r. return_p (Some r))))
          (\<lambda>e. case e of TimeoutExpired _ \<Rightarrow> after_timeout sp signum a | _ \<Rightarrow> raise_p e))
       (\<lambda>r. case r of
          None \<Rightarrow> raise_p (UnboundLocalError (us ''cannot access local variable r''))
        | Some rc \<Rightarrow> return_p (exit_signal rc)))"

text \<open>The script: the signal first, then the run.\<close>

definition run_timeout ::
  "'p subprocess \<Rightarrow> (ustr \<Rightarrow> int option) \<Rightarrow> (ustr \<times> ustr) list \<Rightarrow> timeout_args \<Rightarrow> ('p, int) prog" where
  "run_timeout sp signal_attr env0 a =
     bind_p (lift_p (resolve_signal signal_attr (signal_arg a))) (\<lambda>signum. do_timeout sp env0 signum a)"

text \<open>
  A child that ends by itself at some time, or only when it is killed: waiting past its end
  returns its status, waiting less raises. A command that does not exist cannot be started.
\<close>

record child =
  now :: rat
  ends :: "rat option"
  status :: int
  heeds :: "int \<Rightarrow> bool"
  said :: nat
  exists :: bool
  launched :: "(ustr list \<times> (ustr \<times> ustr) list) option"

definition no_command :: exn where
  "no_command = OSError FileNotFoundError (Some 2) (us ''No such file or directory'')"

definition child_start :: "ustr list \<Rightarrow> (ustr \<times> ustr) list \<Rightarrow> (child, unit) prog" where
  "child_start argv env c =
     (if exists c then (Inr (), c\<lparr>launched := Some (argv, env)\<rparr>) else (Inl no_command, c))"

definition child_wait :: "rat option \<Rightarrow> (child, int) prog" where
  "child_wait t c =
     (case (ends c, t) of
        (Some e, None) \<Rightarrow> (Inr (status c), c\<lparr>now := max (now c) e\<rparr>)
      | (Some e, Some d) \<Rightarrow>
          if e \<le> now c + d then (Inr (status c), c\<lparr>now := max (now c) e\<rparr>)
          else (Inl (TimeoutExpired []), c\<lparr>now := now c + d\<rparr>)
      | (None, Some d) \<Rightarrow> (Inl (TimeoutExpired []), c\<lparr>now := now c + d\<rparr>)
      | (None, None) \<Rightarrow> (Inl (OtherException (us ''waits for ever'')), c))"

definition child_signal :: "int \<Rightarrow> (child, unit) prog" where
  "child_signal n c =
     (if (case ends c of Some e \<Rightarrow> e \<le> now c | None \<Rightarrow> False) then (Inr (), c)
      else if n = SIGKILL \<or> heeds c n then (Inr (), c\<lparr>ends := Some (now c), status := - n\<rparr>)
      else (Inr (), c))"

definition child_subprocess :: "child subprocess" where
  "child_subprocess = \<lparr>Popen = child_start, wait = child_wait, send_signal = child_signal,
     say = (\<lambda>_ _. modify_p (\<lambda>c. c\<lparr>said := Suc (said c)\<rparr>))\<rparr>"

definition done_by :: "child \<Rightarrow> rat \<Rightarrow> bool" where
  "done_by c t \<longleftrightarrow> (case ends c of None \<Rightarrow> False | Some e \<Rightarrow> e \<le> t)"

lemmas subprocess_defs = child_subprocess_def child_start_def child_wait_def child_signal_def after_timeout_def
  do_timeout_def done_by_def catch_p_def bind_p_def seq_p_def prog_simps exit_signal_def SIGKILL_def

lemma timeout_run:
  assumes "add_env env0 (env_arg a) = Inr env" and "exists c"
  shows "\<exists>r t. do_timeout child_subprocess env0 signum a c = (r, t)
    \<and> launched t = Some (cmd_arg a # cmd_args a, env)
    \<and> now t \<le> max (now c) (now c + timeout_arg a + max 0 (kill_after a))
    \<and> said t = said c + (if done_by c (now c + timeout_arg a) then 0 else 1)
    \<and> (\<forall>rc. r = Inr rc \<longrightarrow> done_by t (now t))
    \<and> r = (if done_by c (now c + timeout_arg a) then Inr (exit_signal (status c))
           else if kill_after a \<le> 0 then Inl (UnboundLocalError (us ''cannot access local variable r''))
           else if signum = SIGKILL \<or> heeds c signum then Inr (exit_signal (- signum))
           else if done_by c (now c + timeout_arg a + kill_after a) then Inr (exit_signal (status c))
           else Inr 137)"
  using assms by (cases "ends c") (auto simp: subprocess_defs)


definition sample_timeout :: timeout_args where
  "sample_timeout = \<lparr>signal_arg = Inl 15, env_arg = [us ''A=1''], kill_after = 1, timeout_arg = 10, cmd_arg = us ''sleep'',
     cmd_args = [us ''inf'']\<rparr>"

definition stubborn_child :: child where
  "stubborn_child = \<lparr>now = 0, ends = None, status = 0, heeds = (\<lambda>_. False), said = 0, exists = True, launched = None\<rparr>"


text \<open>
  With \<open>--kill-after\<close> of zero or less a timeout is no status at all: the signal is sent and
  \<open>r\<close> is read without ever having been assigned.
\<close>

theorem do_timeout_unbound:
  assumes "kill_after a \<le> 0" and "env_arg a = []" and "ends c = None" and "exists c"
  shows "fst (do_timeout child_subprocess env0 signum a c)
    = Inl (UnboundLocalError (us ''cannot access local variable r''))"
  using assms
  by (simp add: subprocess_defs)

end
