(* ===== verification/Drivers.thy ===== *)
theory Drivers
  imports Checks
begin

text \<open>
  The parts of the test programs that drive a server: \<open>stalled_client.py\<close>, the \<open>main\<close> of
  \<open>stop_midrequest.py\<close> and the body of \<open>listen_socket_family.py\<close>. A run is given by what its
  successive connections meet. The results: which servers each test tells apart, and what it
  does with the process it has forked.
\<close>

section \<open>What a test meets\<close>

text \<open>
  A connection: whether sending on it fails, and what successive calls of \<open>recv\<close> yield
  (\<open>None\<close> for a timeout, the end of the list for the end of the stream). An attempt to connect
  fails at \<open>socket()\<close> or at \<open>connect()\<close>, or gets a connection.
\<close>

record link =
  send_fault :: "exn option"
  recvs :: "bytes option list"

datatype attempt = No_socket exn | Refused exn | Up link

datatype test_event = Forked | Slept rat | Killed int | Reaped | Said

record bed =
  attempts :: "attempt list"
  wait_status :: int
  events :: "test_event list"

definition happens :: "test_event \<Rightarrow> (bed, unit) prog" where
  "happens e = modify_p (\<lambda>b. b\<lparr>events := events b @ [e]\<rparr>)"

definition ECONNREFUSED :: exn where
  "ECONNREFUSED = OSError PlainOSError (Some 111) (us ''[Errno 111] Connection refused'')"

definition timed_out :: exn where
  "timed_out = OSError TimeoutError None (us ''timed out'')"

definition next_attempt :: "(bed, attempt) prog" where
  "next_attempt b =
     (case attempts b of
        [] \<Rightarrow> (Inr (Refused ECONNREFUSED), b)
      | x # xs \<Rightarrow> (Inr x, b\<lparr>attempts := xs\<rparr>))"

section \<open>\<open>stalled_client.py\<close>\<close>

definition connect_p :: "(bed, link) prog" where
  "connect_p = bind_p next_attempt (\<lambda>x. case x of
     No_socket e \<Rightarrow> raise_p e | Refused e \<Rightarrow> raise_p e | Up l \<Rightarrow> return_p l)"

definition sendall :: "link \<Rightarrow> (bed, unit) prog" where
  "sendall l = (case send_fault l of Some e \<Rightarrow> raise_p e | None \<Rightarrow> return_p ())"

fun receive_all :: "bytes \<Rightarrow> bytes option list \<Rightarrow> exn + bytes" where
  "receive_all got [] = Inr got"
| "receive_all got (None # rs) = Inl timed_out"
| "receive_all got (Some d # rs) = (if d = [] then Inr got else receive_all (got @ d) rs)"

definition request_p :: "(bed, bytes) prog" where
  "request_p = bind_p connect_p (\<lambda>l. seq_p (sendall l) (lift_p (receive_all [] (recvs l))))"

definition has_200 :: "bytes \<Rightarrow> bool" where
  "has_200 raw \<longleftrightarrow> py_in (us ''200'') (us raw)"

fun wait_until_up :: "nat \<Rightarrow> (bed, unit) prog" where
  "wait_until_up 0 = raise_p (system_exit ''server never came up'')"
| "wait_until_up (Suc n) =
     bind_p (catch_p (bind_p request_p (\<lambda>raw. return_p (has_200 raw)))
              (\<lambda>e. if is_OSError e then return_p False else raise_p e))
       (\<lambda>up. if up then return_p () else seq_p (happens (Slept (1 / 10))) (wait_until_up n))"

definition CONNECT_TRIES :: nat where
  "CONNECT_TRIES = 100"

text \<open>The last step: the connection that said nothing must have been closed, without an answer.\<close>

definition dropped :: "link \<Rightarrow> exn + unit" where
  "dropped l =
     (case recvs l of
        [] \<Rightarrow> Inr ()
      | None # _ \<Rightarrow> Inl (system_exit ''stalled connection was never dropped'')
      | Some d # _ \<Rightarrow> if d \<noteq> [] then Inl (system_exit ''stalled connection got data, expected a close'') else Inr ())"

definition stalled_main :: "int option \<Rightarrow> (bed, unit) prog" where
  "stalled_main handler_timeout =
     (if handler_timeout = None then raise_p (system_exit ''Handler.timeout is unset; a stalled client can wedge the server'')
      else seq_p (happens Forked)
        (finally_p
          (seq_p (wait_until_up CONNECT_TRIES)
          (bind_p connect_p (\<lambda>stalled.
           bind_p (catch_p request_p (\<lambda>e.
             if is_os TimeoutError e then raise_p (system_exit ''second client was never served'') else raise_p e))
          (\<lambda>raw.
           if \<not> has_200 raw then raise_p (system_exit ''second client got'')
           else seq_p (lift_p (dropped stalled)) (happens Said)))))
          (seq_p (happens (Killed 15)) (happens Reaped))))"

section \<open>\<open>stop_midrequest.py\<close>\<close>

text \<open>\<open>bound\<close>: the local variable \<open>sock\<close>, closed in the handler, has been assigned.\<close>

fun connect_tries :: "bool \<Rightarrow> nat \<Rightarrow> (bed, link) prog" where
  "connect_tries bound 0 = raise_p (system_exit ''could not connect'')"
| "connect_tries bound (Suc n) =
     bind_p next_attempt (\<lambda>x. case x of
        Up l \<Rightarrow> return_p l
      | Refused e \<Rightarrow>
          if is_OSError e then seq_p (happens (Slept (1 / 10))) (connect_tries True n) else raise_p e
      | No_socket e \<Rightarrow>
          if \<not> is_OSError e then raise_p e
          else if bound then seq_p (happens (Slept (1 / 10))) (connect_tries True n)
          else raise_p (UnboundLocalError (us ''cannot access local variable sock'')))"

definition SLOW_DELAY :: rat where
  "SLOW_DELAY = 1"

definition stop_main :: "interp \<Rightarrow> int \<Rightarrow> (bed, unit) prog" where
  "stop_main py signum =
     seq_p (happens Forked)
    (seq_p
       (finally_p
         (bind_p (connect_tries False CONNECT_TRIES) (\<lambda>l.
            seq_p (sendall l)
           (seq_p (happens (Slept (SLOW_DELAY / 2)))
           (seq_p (happens (Killed signum))
           (bind_p (lift_p (read_all [] (recvs l))) (\<lambda>raw. lift_p (check_response py raw)))))))
         (happens Reaped))
       (\<lambda>b. if wait_status b \<noteq> 0 then raise_p (system_exit ''server exited with wait status'') b
            else happens Said b))"

section \<open>\<open>listen_socket_family.py\<close>\<close>

text \<open>The exit status, with the failures on standard error; \<open>p\<close> is a path in a fresh directory.\<close>

definition family_main :: "(int \<Rightarrow> ustr) \<Rightarrow> ustr \<Rightarrow> (osys, nat) prog" where
  "family_main family_repr p =
     bind_p (socket_new AF_UNIX) (\<lambda>unix_sock.
     seq_p (socket_bind_path unix_sock p)
    (seq_p (socket_listen unix_sock)
    (bind_p (check_family family_repr (us ''AF_UNIX'') (sock_fd unix_sock) AF_UNIX) (\<lambda>failures1.
     seq_p (socket_close unix_sock)
    (bind_p (socket_new AF_INET) (\<lambda>inet_sock.
     seq_p (socket_bind_inet inet_sock (us ''127.0.0.1'') 0)
    (seq_p (socket_listen inet_sock)
    (bind_p (check_family family_repr (us ''AF_INET'') (sock_fd inet_sock) AF_INET) (\<lambda>failures2.
     seq_p (socket_close inet_sock)
    (if failures1 @ failures2 \<noteq> []
       then seq_p (modify_p (\<lambda>s. s\<lparr>stderr := stderr s @ failures1 @ failures2\<rparr>)) (return_p 1)
     else return_p 0))))))))))"

section \<open>The stalled client\<close>

text \<open>What has happened stays: a run only adds events.\<close>

abbreviation since :: "test_event list \<Rightarrow> bed \<Rightarrow> bool" where
  "since es \<equiv> \<lambda>b. \<exists>fs. events b = es @ fs"

lemma keeps_next: "keeps (since es) next_attempt"
  by (auto simp: keeps_def next_attempt_def split: list.splits)

lemma keeps_happens: "keeps (since es) (happens e)"
  by (auto simp: keeps_def happens_def modify_p_def)

text \<open>
  A server that answers one connection at a time: it comes up after some refused connections;
  a connection that says nothing holds it until it is dropped, if it ever is.
\<close>

definition serial_server :: "bool \<Rightarrow> bytes \<Rightarrow> nat \<Rightarrow> attempt list" where
  "serial_server drops answer late =
     replicate late (Refused ECONNREFUSED)
     @ [Up \<lparr>send_fault = None, recvs = [Some answer]\<rparr>,
        Up \<lparr>send_fault = None, recvs = (if drops then [] else [None])\<rparr>,
        Up \<lparr>send_fault = None, recvs = (if drops then [Some answer] else [None])\<rparr>]"

lemma wait_until_up_serial:
  assumes "late < n" and "has_200 answer"
    and "attempts b = replicate late (Refused ECONNREFUSED)
      @ Up \<lparr>send_fault = None, recvs = [Some answer]\<rparr> # rest"
  shows "\<exists>c. wait_until_up n b = (Inr (), c) \<and> attempts c = rest"
  using assms
proof (induction late arbitrary: n b)
  case 0
  then obtain m where "n = Suc m" by (cases n) auto
  with 0 show ?case
    by (auto simp: request_p_def connect_p_def next_attempt_def sendall_def bind_p_def seq_p_def catch_p_def
        lift_p_def return_p_def)
next
  case (Suc late)
  then obtain m where m: "n = Suc m" "late < m" by (cases n) auto
  let ?rest = "replicate late (Refused ECONNREFUSED) @ Up \<lparr>send_fault = None, recvs = [Some answer]\<rparr> # rest"
  let ?b = "b\<lparr>attempts := ?rest, events := events b @ [Slept (1 / 10)]\<rparr>"
  have "wait_until_up n b = wait_until_up m ?b"
    using Suc.prems(3)
    by (simp add: m(1) request_p_def connect_p_def next_attempt_def bind_p_def seq_p_def catch_p_def
        return_p_def raise_p_def ECONNREFUSED_def happens_def modify_p_def)
  moreover have "\<exists>c. wait_until_up m ?b = (Inr (), c) \<and> attempts c = rest"
    using m(2) Suc.prems(2) by (rule Suc.IH) simp
  ultimately show ?case by simp
qed

text \<open>
  \<open>stalled_client.py\<close> passes exactly on a server that ships with a timeout and drops a silent
  connection, however late it comes up.
\<close>

lemma stalled_detects_wedge:
  assumes "late < CONNECT_TRIES" and "has_200 answer" and "attempts b = serial_server drops answer late"
  shows "fst (stalled_main handler_timeout b) = Inr () \<longleftrightarrow> handler_timeout \<noteq> None \<and> drops"
proof (cases "handler_timeout = None")
  case True
  then show ?thesis by (simp add: stalled_main_def raise_p_def)
next
  case False
  let ?b = "b\<lparr>events := events b @ [Forked]\<rparr>"
  let ?rest = "[Up \<lparr>send_fault = None, recvs = (if drops then [] else [None])\<rparr>,
        Up \<lparr>send_fault = None, recvs = (if drops then [Some answer] else [None])\<rparr>]"
  obtain c where "wait_until_up CONNECT_TRIES ?b = (Inr (), c)" "attempts c = ?rest"
    using wait_until_up_serial [OF assms(1,2), of ?b ?rest] assms(3) by (auto simp: serial_server_def)
  with False assms(2) show ?thesis
    by (auto simp: stalled_main_def happens_def modify_p_def seq_p_def bind_p_def finally_p_def
        connect_p_def next_attempt_def return_p_def request_p_def sendall_def lift_p_def catch_p_def dropped_def
        timed_out_def raise_p_def)
qed

text \<open>The server's own answer to the request the test makes is one it counts as an answer.\<close>

lemma render_200:
  assumes "texts_ok py"
  shows "has_200 (render (json_message py (handler_cls py verbose) (200, body, [])))"
proof -
  let ?cls = "handler_cls py verbose"
  have cls: "server_version ?cls = SERVER_NAME" by (simp add: handler_cls_def)
  obtain hs b where m: "json_message py ?cls (200, body, []) = (200, us ''OK'', hs, b)" and "list_all header_ok hs"
    using server_header_ok(1) [OF assms cls] server_header_ok(2) [OF assms] server_header_ok(3,4)
    by (simp add: json_message_def reason_def)
  then have "us (render (200, us ''OK'', hs, b)) = head_text 200 (us ''OK'') hs @ us b"
    by (intro us_render) (simp_all add: lit_simps)
  moreover have "str_int 200 = us ''200''"
    by (simp add: str_int_def dec_digits.simps [of 200] dec_digits.simps [of 20] dec_digits.simps [of 2] lit_simps)
  ultimately show ?thesis
    unfolding m has_200_def py_in_iff head_text_lines head_lines_def
    by (simp add: us_append [symmetric] del: us_append) blast
qed

lemma stalled_passes:
  assumes "texts_ok py" and "late < CONNECT_TRIES"
    and "attempts b = serial_server True
      (render (json_message py (handler_cls py verbose) (200, json_obj [(''status'', JStr (us ''ok''))], []))) late"
  shows "fst (stalled_main Handler_timeout b) = Inr ()"
  using stalled_detects_wedge [OF assms(2) render_200 [OF assms(1)] assms(3)] by (simp add: Handler_timeout_def)

text \<open>Whatever happens, a server that was forked is signalled and waited for, in that order.\<close>

lemma keeps_request: "keeps (since es) request_p"
  unfolding request_p_def connect_p_def sendall_def
  by (intro keeps_bind keeps_seq keeps_next keeps_lift) (auto split: attempt.split option.split)

lemma keeps_wait: "keeps (since es) (wait_until_up n)"
  by (induction n) (auto intro!: keeps_bind keeps_catch keeps_request keeps_seq keeps_happens)

lemma finally_events:
  assumes "keeps (since (events b)) m"
  shows "\<exists>fs. events (snd (finally_p m (seq_p (happens x) (happens y)) b)) = events b @ fs @ [x, y]"
  using assms [unfolded keeps_def, rule_format, of b]
  by (auto simp: finally_p_def happens_def modify_p_def seq_p_def bind_p_def split: prod.splits)

lemma stalled_cleans_up:
  assumes "handler_timeout \<noteq> None"
  shows "\<exists>fs. events (snd (stalled_main handler_timeout b)) = events b @ Forked # fs @ [Killed 15, Reaped]"
proof -
  let ?b = "b\<lparr>events := events b @ [Forked]\<rparr>"
  let ?run = "seq_p (wait_until_up CONNECT_TRIES) (bind_p connect_p (\<lambda>stalled.
      bind_p (catch_p request_p (\<lambda>e. if is_os TimeoutError e then raise_p (system_exit ''second client was never served'')
        else raise_p e))
      (\<lambda>raw. if \<not> has_200 raw then raise_p (system_exit ''second client got'')
        else seq_p (lift_p (dropped stalled)) (happens Said))))"
  have "keeps (since es) ?run" for es
    unfolding connect_p_def
    by (auto intro!: keeps_bind keeps_catch keeps_request keeps_seq keeps_happens keeps_wait keeps_next
        split: attempt.split)
  then have "\<exists>fs. events (snd (finally_p ?run (seq_p (happens (Killed 15)) (happens Reaped)) ?b))
      = events ?b @ fs @ [Killed 15, Reaped]"
    by (rule finally_events)
  moreover have "happens Forked b = (Inr (), ?b)" by (simp add: happens_def modify_p_def)
  then have "stalled_main handler_timeout b = finally_p ?run (seq_p (happens (Killed 15)) (happens Reaped)) ?b"
    unfolding stalled_main_def using assms by (simp only: if_False seq_p_Inr)
  ultimately show ?thesis by simp
qed

section \<open>The stop signal\<close>

text \<open>
  \<open>stop_midrequest.py\<close> passes exactly when what the connection yields is a complete response
  and the server ends with status 0.
\<close>

lemma connect_tries_up:
  assumes "late < n" and "attempts b = replicate late (Refused ECONNREFUSED) @ Up l # rest"
  shows "\<exists>c. connect_tries bound n b = (Inr l, c) \<and> attempts c = rest \<and> wait_status c = wait_status b"
  using assms
proof (induction late arbitrary: n b bound)
  case 0
  then obtain m where "n = Suc m" by (cases n) auto
  with 0 show ?case by (simp add: next_attempt_def bind_p_def return_p_def)
next
  case (Suc late)
  then obtain m where m: "n = Suc m" "late < m" by (cases n) auto
  let ?b = "b\<lparr>attempts := replicate late (Refused ECONNREFUSED) @ Up l # rest, events := events b @ [Slept (1 / 10)]\<rparr>"
  have "connect_tries bound n b = connect_tries True m ?b"
    using Suc.prems(2)
    by (simp add: m(1) next_attempt_def bind_p_def seq_p_def ECONNREFUSED_def happens_def modify_p_def)
  moreover have "\<exists>c. connect_tries True m ?b = (Inr l, c) \<and> attempts c = rest \<and> wait_status c = wait_status ?b"
    using m(2) by (rule Suc.IH) simp
  ultimately show ?case by simp
qed

lemma read_all_chunks: "[] \<notin> set ds \<Longrightarrow> read_all got (map Some ds) = Inr (got @ concat ds)"
  by (induction ds arbitrary: got) auto

lemma stop_decides:
  assumes "late < CONNECT_TRIES" and "[] \<notin> set ds"
    and "attempts b = replicate late (Refused ECONNREFUSED) @ [Up \<lparr>send_fault = None, recvs = map Some ds\<rparr>]"
  shows "fst (stop_main py signum b) = Inr ()
    \<longleftrightarrow> check_response py (concat ds) = Inr () \<and> wait_status b = 0"
proof -
  let ?b = "b\<lparr>events := events b @ [Forked]\<rparr>"
  obtain c where "connect_tries False CONNECT_TRIES ?b = (Inr \<lparr>send_fault = None, recvs = map Some ds\<rparr>, c)"
    "wait_status c = wait_status b"
    using connect_tries_up [OF assms(1), of ?b] assms(3) by auto
  then show ?thesis
    by (auto simp: stop_main_def happens_def modify_p_def seq_p_def bind_p_def finally_p_def sendall_def
        return_p_def lift_p_def read_all_chunks [OF assms(2)] raise_p_def split: sum.splits)
qed

text \<open>
  When the server cannot be reached, the test waits for it all the same, without having sent
  it the signal that would end it.
\<close>

lemma unreachable:
  "attempts b = [] \<Longrightarrow> connect_tries bound n b
    = (Inl (system_exit ''could not connect''), b\<lparr>events := events b @ replicate n (Slept (1 / 10))\<rparr>)"
proof (induction n arbitrary: bound b)
  case (Suc n)
  let ?b = "b\<lparr>events := events b @ [Slept (1 / 10)]\<rparr>"
  have "connect_tries bound (Suc n) b = connect_tries True n ?b"
    using Suc.prems by (simp add: next_attempt_def bind_p_def seq_p_def ECONNREFUSED_def happens_def modify_p_def)
  with Suc show ?case by simp
qed (simp add: raise_p_def)

lemma stop_waits_unsignalled:
  assumes "attempts b = []" and "stop_main py signum b = (r, t)"
  shows "events t = events b @ Forked # replicate CONNECT_TRIES (Slept (1 / 10)) @ [Reaped]"
  using assms
  by (auto simp: stop_main_def happens_def modify_p_def seq_p_def bind_p_def finally_p_def unreachable)

section \<open>The inherited socket\<close>

text \<open>
  \<open>listen_socket_family.py\<close> passes: if no call is refused, the two sockets come back from
  \<open>_listen_socket\<close> with the families they were made with.
\<close>

lemma socket_new_Inr:
  "socket_new f s = (Inr so, t) \<Longrightarrow> family so = f \<and> (\<exists>d. fds t (sock_fd so) = Some d \<and> domain d = f)"
  by (auto simp: socket_new_def seq_p_eq_Inr bind_p_eq_Inr syscall_p_Inr return_p_Inr dest!: install_fd_Inr)

lemma socket_bind_path_fds: "socket_bind_path so p s = (Inr x, t) \<Longrightarrow> fds t = fds s"
  by (auto simp: socket_bind_path_def seq_p_eq_Inr syscall_p_Inr split: if_splits)

lemma socket_bind_inet_fds: "socket_bind_inet so hst n s = (Inr x, t) \<Longrightarrow> fds t = fds s"
  by (auto simp: socket_bind_inet_def seq_p_eq_Inr syscall_p_Inr raise_p_def split: if_splits)

lemma socket_listen_domain:
  "socket_listen so s = (Inr x, t) \<Longrightarrow> fds s (sock_fd so) = Some d \<Longrightarrow>
   \<exists>e. fds t (sock_fd so) = Some e \<and> domain e = domain d"
  by (auto simp: socket_listen_def seq_p_eq_Inr bind_p_eq_Inr syscall_p_Inr lookup_fd_def modify_p_def
      split: option.splits)

lemma family_main_passes:
  assumes "family_main family_repr p s = (Inr code, t)"
  shows "code = 0"
proof -
  from assms obtain so s1 s2 s3 f1 s4 s5 so' s6 s7 s8 f2 s9 s10 where
    1: "socket_new AF_UNIX s = (Inr so, s1)" "socket_bind_path so p s1 = (Inr (), s2)"
      "socket_listen so s2 = (Inr (), s3)"
      "check_family family_repr (us ''AF_UNIX'') (sock_fd so) AF_UNIX s3 = (Inr f1, s4)"
    and 2: "socket_new AF_INET s5 = (Inr so', s6)"
      "socket_bind_inet so' (us ''127.0.0.1'') 0 s6 = (Inr (), s7)" "socket_listen so' s7 = (Inr (), s8)"
      "check_family family_repr (us ''AF_INET'') (sock_fd so') AF_INET s8 = (Inr f2, s9)"
    and code: "code = (if f1 @ f2 \<noteq> [] then 1 else 0)"
    unfolding family_main_def bind_p_eq_Inr seq_p_eq_Inr
    by (auto simp: seq_p_eq_Inr return_p_Inr split: if_splits)
  obtain d where "fds s3 (sock_fd so) = Some d" "domain d = AF_UNIX"
    using socket_new_Inr [OF 1(1)] socket_bind_path_fds [OF 1(2)] socket_listen_domain [OF 1(3)] by fastforce
  then have "f1 = []" using check_family_decides [OF 1(4)] by simp
  moreover obtain d' where "fds s8 (sock_fd so') = Some d'" "domain d' = AF_INET"
    using socket_new_Inr [OF 2(1)] socket_bind_inet_fds [OF 2(2)] socket_listen_domain [OF 2(3)] by fastforce
  then have "f2 = []" using check_family_decides [OF 2(4)] by simp
  ultimately show ?thesis using code by simp
qed

lemma family_main_returns: "\<exists>t. family_main family_repr (us ''/tmp/s'') sample_osys = (Inr 0, t)"
  by (simp add: family_main_def check_family_def listen_socket_def os_dup_def syscall_p_def sample_osys_def
      seq_p_def bind_p_def lookup_fd_def socket_new_def install_fd_def free_fd_def return_p_def
      socket_fileno_def finally_p_def get_domain_def address_family_def modify_p_def socket_close_def
      socket_bind_path_def socket_bind_inet_def socket_listen_def AF_UNIX_def AF_INET_def
      eval_nat_numeral upt_rec)

end
