(* ===== verification/Tests.thy ===== *)
theory Tests
  imports Process Drivers
begin

text \<open>
  \<open>stop_midrequest.py\<close> against the server: what its child serves and how it ends, and that the parent, which
  the theory \<open>Drivers\<close> holds, passes on it. What the parent receives is what the model of the server sends.
\<close>

section \<open>The child of \<open>stop_midrequest.py\<close>\<close>

definition SLOW_PATH :: ustr where
  "SLOW_PATH = us ''/api/v1/slow''"

definition PAD :: nat where
  "PAD = 256 * 1024"

text \<open>The delay of the route is part of the time its connection takes.\<close>

definition slow_body :: "(ustr \<times> json) list" where
  "slow_body = [(us ''complete'', JBool True), (us ''pad'', JStr (replicate PAD 120))]"

definition slow :: "(('w, 'h) srv, reply) prog" where
  "slow = return_p (200, JObj slow_body, [])"

definition slow_routes :: "os_env \<Rightarrow> ('w, 'h, 's, 'i) flux_api \<Rightarrow> (ustr \<times> (('w, 'h) srv, reply) prog) list" where
  "slow_routes os api = AList.update SLOW_PATH slow (ROUTES os api)"

definition slow_method ::
  "interp \<Rightarrow> hcls \<Rightarrow> os_env \<Rightarrow> ('w, 'h, 's, 'i) flux_api \<Rightarrow> request \<Rightarrow> (('w, 'h) srv, unit) prog" where
  "slow_method py cls os api =
     dispatch py cls [(us ''GET'', get_from (slow_routes os api) py cls api), (us ''POST'', do_POST py cls os api),
       (us ''DELETE'', do_DELETE py cls api)]"

text \<open>
  The child serves on a socket of its own, with the class's defaults: no peer check, no idle timeout. It
  swallows the \<open>KeyboardInterrupt\<close> of \<open>serve()\<close>; and its \<open>finally\<close> clause exits with status 0
  however \<open>serve()\<close> ends, if it does.
\<close>

definition child_serve :: "ustr \<Rightarrow> (osys, serving) prog" where
  "child_serve p = bind_p (server_on_unix_socket p) (\<lambda>srv.
     return_p \<lparr>srv_socket = srv, srv_peer_uid = None, srv_idle = None, srv_verbose = False\<rparr>)"

definition serve_result :: "ending \<Rightarrow> exn + unit" where
  "serve_result e =
     (case e of
        Stopped \<Rightarrow> Inr ()
      | Idled \<Rightarrow> Inr ()
      | Interrupted \<Rightarrow> Inl KeyboardInterrupt
      | Truncated p ws \<Rightarrow> Inl KeyboardInterrupt
      | Raised x \<Rightarrow> Inl x)"

definition child_status :: "exn + unit \<Rightarrow> int" where
  "child_status r =
     (case (case r of Inl e \<Rightarrow> if e = KeyboardInterrupt then Inr () else Inl e | Inr u \<Rightarrow> Inr u) of
        Inl e \<Rightarrow> 0
      | Inr u \<Rightarrow> 0)"

text \<open>What the parent sends.\<close>

definition SLOW_REQUEST :: bytes where
  "SLOW_REQUEST = to_bytes (us ''GET '' @ SLOW_PATH @ us '' HTTP/1.0'' @ crlf @ crlf)"

definition bare_get :: "ustr \<Rightarrow> request" where
  "bare_get p = \<lparr>command = us ''GET'', path = p, headers = []\<rparr>"

lemma bare_request: "request_bytes (bare_get p) (us ''HTTP/1.0'') = to_bytes (us ''GET '' @ p @ us '' HTTP/1.0'' @ crlf @ crlf)"
proof -
  have "us ''GET '' = us ''GET'' @ [32]" "us '' HTTP/1.0'' = [32] @ us ''HTTP/1.0''"
    by (simp_all add: us_Cons)
  then show ?thesis by (simp add: request_bytes_def request_text_def header_text_def bare_get_def)
qed

lemma bare_get_ok:
  assumes "email_fault py crlf = None" and "token p" and "hd p = 47" and "length p < 100" and "hd (tl p) \<noteq> 47"
  shows "request_ok py (bare_get p) (us ''HTTP/1.0'')"
proof -
  have "http_version (us ''HTTP/1.0'') = Some (1, 0)"
    by (simp add: http_version_def py_startswith_def split_on.simps version_digits_def is_digit_def digits_value_def
        us_Cons)
  moreover have "\<not> py_startswith [47, 47] p"
    using assms(5) by (auto simp: py_startswith_iff)
  moreover have "token (us ''GET'')" by (simp add: token_def us_Cons)
  ultimately show ?thesis
    using assms by (simp add: request_ok_def bare_get_def request_text_def header_text_def MAXLINE_def MAXHEADERS_def
        crlf_def us_Cons)
qed

text \<open>The response to the slow request.\<close>

lemma slow_route: "map_of (slow_routes os api) SLOW_PATH = Some slow"
  by (simp add: slow_routes_def update_conv')

lemma handle_get_from:
  assumes py: "texts_ok py" and c: "ready c" and ok: "request_ok py (bare_get p) (us ''HTTP/1.0'')"
    and input: "rfile c = request_bytes (bare_get p) (us ''HTTP/1.0'') @ rest"
    and route: "map_of routes p = Some (return_p (code, body, []))" and p: "63 \<notin> set p"
    and run: "\<And>req. command req = us ''GET'' \<Longrightarrow> run req = get_from routes py (handler_cls py v) api req"
  shows "\<exists>t. handle_raw py (handler_cls py v) run c = (Inr (), t)
    \<and> sent t = sent c @ render (json_message py (handler_cls py v) (code, body, []))"
proof -
  let ?cls = "handler_cls py v" and ?c = "requested (bare_get p) (us ''HTTP/1.0'') rest c"
  have conn: "connected ?c" using c by (simp add: connected_ready us_Cons)
  have "before 63 p = p" using p by (rule before_id)
  then have "run (bare_get p) ?c = send_reply py ?cls (code, body, []) ?c"
    using route by (simp add: run bare_get_def get_from_def guarded_def catch_p_def bind_p_def return_p_def)
  then obtain t where t: "run (bare_get p) ?c = (Inr (), t)"
    "sent t = sent c @ render (json_message py ?cls (code, body, []))"
    using send_reply_ok [OF py handler_version conn plain_headers_simps(1)] by simp
  have "handle_raw py ?cls run c = (Inr (), t)"
    unfolding handle_raw_request [OF ok input] by (rule timed_returns) (rule t(1))
  with t(2) show ?thesis by blast
qed

lemma slow_sent:
  assumes "texts_ok py" and "email_fault py crlf = None" and "input k = SLOW_REQUEST" and "faults_of k = []"
    and "handle_raw py (handler_cls py v) (slow_method py (handler_cls py v) os api) (open_conn k c) = (r, c')"
  shows "sent c' = render (json_message py (handler_cls py v) (slow_reply slow_body))"
proof -
  let ?cls = "handler_cls py v"
  have ok: "request_ok py (bare_get SLOW_PATH) (us ''HTTP/1.0'')"
    using assms(2) by (intro bare_get_ok) (simp_all add: SLOW_PATH_def token_def us_Cons)
  have input: "rfile (open_conn k c) = request_bytes (bare_get SLOW_PATH) (us ''HTTP/1.0'') @ []"
    by (simp add: assms(3) bare_request SLOW_REQUEST_def)
  have meth: "slow_method py ?cls os api req = get_from (slow_routes os api) py ?cls api req"
    if "command req = us ''GET''" for req
    using that by (simp add: slow_method_def dispatch_def)
  show ?thesis
    using handle_get_from [OF assms(1) ready_open [OF assms(4)] ok input slow_route [unfolded slow_def] _ meth] assms(5)
    by (simp add: slow_reply_def SLOW_PATH_def us_Cons)
qed

section \<open>A stop signal in the request\<close>

lemma slow_readable: "json_depth py \<noteq> 0 \<Longrightarrow> readable py (json_depth py) (JObj slow_body)"
  by (cases "json_depth py")
    (simp_all add: slow_body_def list_all_iff is_scalar_def is_surrogate_def us_Cons)

lemma slow_length: "length (body_bytes (JObj slow_body)) < 10 ^ int_max_str_digits"
proof -
  have "concat (map esc_char (replicate n 120)) = replicate n 120" for n
    by (induction n) (simp_all add: esc_char_def)
  then have "length (body_bytes (JObj slow_body)) < 10 ^ 6"
    by (simp add: slow_body_def body_bytes_def json_quote_def esc_char_def us_Cons PAD_def)
  also have "(10::nat) ^ 6 \<le> 10 ^ int_max_str_digits"
    by (rule power_increasing) (simp_all add: int_max_str_digits_def)
  finally show ?thesis .
qed

text \<open>What one socket was sent after a point in the history.\<close>

definition sent_since :: "server \<Rightarrow> nat \<Rightarrow> server \<Rightarrow> bytes" where
  "sent_since s n t = concat (map snd (filter (\<lambda>w. fst w = n) (written (drop (length (trace s)) (trace t)))))"

lemma sent_since_all:
  assumes "trace t = trace s @ map (Sent n) ws @ rs" and "written rs = []"
  shows "sent_since s n t = concat ws"
proof -
  have "map snd (filter (\<lambda>w. fst w = n) (map (Pair n) ws)) = ws" by (induction ws) simp_all
  with assms show ?thesis by (simp add: sent_since_def)
qed

text \<open>
  C36. \<open>stop_midrequest.py\<close> passes on this server: the child is started and serves; some time later, no signal having
  come, the slow request has been accepted and nothing of its response is written; then the stop signal
  arrives, and no other. Then the loop can come to its end by its own steps; and if it ends, however the response was cut
  into writes and reads, it ends as stopped, and the test, which finds the response complete and
  the child's status 0, ends without a complaint.
\<close>

theorem stop_test_passes:
  assumes "texts_ok py" and "json_depth py \<noteq> 0" and "email_fault py crlf = None"
    and "child_serve sock_path o1 = (Inr cfg, o2)"
    and "serve_run (fresh_server (srv_peer_uid cfg) (srv_idle cfg), Testing) bs (s, Serving p ws)" and "filter is_signal bs = []"
    and "input k = SLOW_REQUEST" and "faults_of k = []"
    and "handle_raw py (handler_cls py v) (slow_method py (handler_cls py v) os api) (open_conn k c) = (r, c')"
    and "concat ws = sent c'"
    and "serve_step Signal (s, Serving p ws) st"
    and "serve_run st cs (t, Ended e)" and "filter is_signal cs = []"
    and "late < CONNECT_TRIES" and "[] \<notin> set ds" and "concat ds = sent_since s (sock p) t"
    and "attempts b = replicate late (Refused ECONNREFUSED) @ [Up \<lparr>send_fault = None, recvs = map Some ds\<rparr>]"
    and "wait_status b = child_status (serve_result e)"
  shows "(\<exists>u. serve_run st (replicate (length ws + 2) Loop) (u, Ended Stopped))
    \<and> e = Stopped \<and> fst (stop_main py signum b) = Inr ()"
proof -
  let ?cls = "handler_cls py v" and ?s0 = "(fresh_server (srv_peer_uid cfg) (srv_idle cfg), Testing)"
  have inv: "loop_inv (s, Serving p ws)" by (rule loop_inv_run [OF assms(5) loop_inv_start])
  have "counted (signals bs) (s, Serving p ws)"
    by (rule counted_run [OF assms(5) loop_inv_start]) (simp add: counted_def fresh_server_def)
  then have "\<not> stopping s" using assms(6) by (auto simp: counted_def signals_def)
  note st = signal_pending [OF inv this assms(11)]
  have inv': "loop_inv st" by (rule loop_inv_step [OF assms(11) inv])
  have "finishing p ws (trace s) st"
    using inv by (auto simp: st finishing_def loop_inv_def)
  from finishing_run [OF assms(12) this assms(13)] obtain rs where
    fin: "e = Stopped" "trace t = trace s @ map (Sent (sock p)) ws @ rs" "written rs = []"
    by (auto simp: finishing_def)
  have "concat ds = sent c'" using sent_since_all [OF fin(2,3)] assms(10,16) by simp
  also have "\<dots> = render (json_message py ?cls (slow_reply slow_body))"
    using slow_sent [OF assms(1,3,7,8,9)] .
  finally have "concat ds = render (json_message py ?cls (slow_reply slow_body))" .
  moreover have "\<not> falsy (map_of slow_body (us ''complete''))" by (simp add: slow_body_def)
  ultimately have "check_response py (concat ds) = Inr ()"
    using check_prefix [OF assms(1) slow_readable [OF assms(2)] _ slow_length, of "length (concat ds)" v] by simp
  moreover have "wait_status b = 0" using assms(18) fin(1) by (simp add: child_status_def serve_result_def)
  moreover have "\<exists>u. serve_run st (replicate (length ws + 2) Loop) (u, Ended Stopped)"
    using stop_by_steps inv' unfolding st by simp
  ultimately show ?thesis
    using stop_decides [OF assms(14,15,17)] fin(1) by simp
qed

section \<open>On the sample\<close>

lemma sample_email: "email_fault sample_py t = None"
  by (simp add: sample_py_def)

definition test_client :: client where
  "test_client = \<lparr>input = SLOW_REQUEST, input_end = Peer_EOF, takes = 1, faults_of = []\<rparr>"

lemma slow_not_empty:
  assumes "handle_raw sample_py (handler_cls sample_py False) (slow_method sample_py (handler_cls sample_py False) sample_os sample_api)
      (open_conn test_client sample_srv) = (r, c')"
  shows "sent c' \<noteq> []"
proof -
  have "sent c' = render (json_message sample_py (handler_cls sample_py False) (200, JObj slow_body, []))"
    using slow_sent [OF sample_texts sample_email _ _ assms] by (simp add: test_client_def slow_reply_def)
  then show ?thesis using render_200 [OF sample_texts, of False "JObj slow_body"] by (auto simp: has_200_def py_in_iff us_Cons)
qed

lemma stop_test_passes_witness:
  "\<exists>s st t ws. serve_run (fresh_server None None, Testing) [Loop, Connects (sample_peer 7 1000) ws] (s, Serving (sample_peer 7 1000) ws)
     \<and> serve_step Signal (s, Serving (sample_peer 7 1000) ws) st \<and> serve_run st [Loop, Loop, Loop] (t, Ended Stopped)
     \<and> fst (stop_main sample_py 15 \<lparr>attempts = [Up \<lparr>send_fault = None, recvs = [Some (sent_since s 7 t)]\<rparr>],
           wait_status = 0, events = []\<rparr>) = Inr ()"
proof -
  let ?cls = "handler_cls sample_py False" and ?p = "sample_peer 7 1000" and ?fresh = "fresh_server None None"
  obtain o2 where child: "child_serve (us ''/run/rest'') sample_osys
      = (Inr \<lparr>srv_socket = \<lparr>sock_fd = 1, family = AF_UNIX\<rparr>, srv_peer_uid = None, srv_idle = None, srv_verbose = False\<rparr>, o2)"
    using sample_run by (auto simp: child_serve_def bind_p_def return_p_def)
  obtain r c' where h: "handle_raw sample_py ?cls (slow_method sample_py ?cls sample_os sample_api)
      (open_conn test_client sample_srv) = (r, c')" by fastforce
  let ?ws = "[sent c']" let ?g = "get_request ?p ?fresh" let ?s = "?g\<lparr>in_request := True\<rparr>"
  let ?n = "?s\<lparr>stopping := True, alarm := Some 5\<rparr>" let ?s1 = "emit (Sent (sock ?p) (sent c')) ?n"
  let ?s2 = "(shutdown_request ?p ?s1)\<lparr>in_request := False\<rparr>"
  have sock: "sock ?p = 7" by (simp add: sample_peer_def)
  have "serve_step Loop (?fresh, Testing) (?fresh, Waiting (map_option (\<lambda>t. clock ?fresh + t) (serve_timeout ?fresh)))"
    by (rule test_wait) (simp_all add: fresh_server_def)
  then have 1: "serve_run (?fresh, Testing) [Loop] (?fresh, Waiting (map_option (\<lambda>t. clock ?fresh + t) (serve_timeout ?fresh)))"
    using run_step [OF run_start] by fastforce
  have "verify_request ?p ?g = (Inr True, ?g)"
    by (rule server_gate.open_gate) (simp add: fresh_server_def get_request_def emit_def reap_eq)
  from run_step [OF 1 admit [OF this]] have before: "serve_run (?fresh, Testing) [Loop, Connects ?p ?ws] (?s, Serving ?p ?ws)"
    by simp
  have "stop ?s = (False, ?n)"
    by (simp add: stop_def STOP_GRACE_def fresh_server_def Let_def get_request_def emit_def reap_eq)
  then have sig: "serve_step Signal (?s, Serving ?p ?ws) (?n, Serving ?p ?ws)"
    by (intro signal_noted) (simp_all add: running_def)
  have 2: "serve_run (?n, Serving ?p ?ws) ([] @ [Loop]) (?s1, Serving ?p [])"
    by (rule run_step [OF run_start write_chunk])
  have 3: "serve_run (?n, Serving ?p ?ws) (([] @ [Loop]) @ [Loop]) (?s2, Testing)"
    by (rule run_step [OF 2 request_done])
  have "serve_step Loop (?s2, Testing) (wind_up ?s2, Ended Stopped)"
    by (rule test_stop) (simp_all add: emit_def get_request_def reap_eq fresh_server_def)
  from run_step [OF 3 this] have run: "serve_run (?n, Serving ?p ?ws) [Loop, Loop, Loop] (wind_up ?s2, Ended Stopped)"
    by simp
  have "trace (wind_up ?s2) = trace ?s @ map (Sent 7) [sent c'] @ [Shut_wr 7, Closed 7]"
    by (simp add: wind_up_def shutdown_request_def emit_def close_sock_def sock get_request_def reap_eq fresh_server_def)
      (simp add: sample_peer_def)
  from sent_since_all [OF this] have since: "sent_since ?s 7 (wind_up ?s2) = sent c'" by simp
  let ?b = "\<lparr>attempts = [Up \<lparr>send_fault = None, recvs = [Some (sent_since ?s 7 (wind_up ?s2))]\<rparr>],
       wait_status = 0, events = []\<rparr>"
  have depth: "json_depth sample_py \<noteq> 0" by (simp add: sample_py_def)
  have k: "input test_client = SLOW_REQUEST" "faults_of test_client = []" by (simp_all add: test_client_def)
  have "fst (stop_main sample_py 15 ?b) = Inr ()"
    using stop_test_passes [OF sample_texts depth sample_email child _ _ k h _ sig run, where bs = "[Loop, Connects ?p ?ws]"
        and late = 0 and ds = ?ws and b = ?b] before slow_not_empty [OF h] since sock
    by (simp add: CONNECT_TRIES_def child_status_def serve_result_def)
  with before sig run show ?thesis by blast
qed

end
