(* ===== verification/Ensure.thy ===== *)
theory Ensure
  imports Startup_Spec Frame Errors
begin

text \<open>
  The helper \<open>flux-rest-server-ensure\<close>: nginx asks it, once per request, to bring up the
  socket unit of the authenticated user. Its server admits only its own uid, its handler
  filters the user name and runs \<open>systemctl\<close>, which is a parameter: what it returns or raises
  and what it does to the units.
\<close>

section \<open>\<open>_PeerServer\<close>\<close>

text \<open>The state it changes is its standard error.\<close>

definition ensure_verify :: "os_env \<Rightarrow> peer \<Rightarrow> (ustr list, bool) prog" where
  "ensure_verify os p s =
     (case peer_uid p of
        Inl e \<Rightarrow> if is_OSError e then (Inr False, s) else (Inl e, s)
      | Inr uid \<Rightarrow>
          if uid \<noteq> getuid os
            then (Inr False, s @ [rejection_text ''flux-rest-server-ensure'' uid (getuid os)])
          else (Inr True, s))"

interpretation ensure_gate: peer_gate "ensure_verify os" "\<lambda>_. Some (getuid os)" peer_uid for os
  by unfold_locales (auto simp: ensure_verify_def split: sum.splits if_splits)

section \<open>User names and units\<close>

definition name_start :: "int \<Rightarrow> bool" where
  "name_start c \<longleftrightarrow> (97 \<le> c \<and> c \<le> 122) \<or> c = 95"

definition name_char :: "int \<Rightarrow> bool" where
  "name_char c \<longleftrightarrow> name_start c \<or> (48 \<le> c \<and> c \<le> 57) \<or> c = 45"

text \<open>
  \<open>^[a-z_][a-z0-9_-]*$\<close>: in Python \<open>$\<close> also matches just before a newline that ends the text.
\<close>

definition username_match :: "ustr \<Rightarrow> bool" where
  "username_match s \<longleftrightarrow> (case s of [] \<Rightarrow> False
     | c # r \<Rightarrow> name_start c \<and> (list_all name_char r
                  \<or> (r \<noteq> [] \<and> last r = 10 \<and> list_all name_char (butlast r))))"

definition unit_name :: "ustr \<Rightarrow> ustr" where
  "unit_name who = us ''flux-rest-server@'' @ who @ us ''.socket''"

section \<open>\<open>EnsureHandler\<close>\<close>

text \<open>A connection, and what \<open>systemctl\<close> acts on.\<close>

record 'w helper = conn +
  units :: 'w

type_synonym 'w systemctl = "ustr list \<Rightarrow> 'w \<Rightarrow> (exn + int \<times> bytes) \<times> 'w"

definition ENSURE_NAME :: ustr where
  "ENSURE_NAME = us ''flux-rest-server-ensure/0.1.0''"

text \<open>\<open>log_message\<close> writes every message to standard error; \<open>log_error\<close> is the inherited one, which calls it.\<close>

definition ensure_cls :: hcls where
  "ensure_cls = \<lparr>
     server_version = ENSURE_NAME,
     message_lines = (\<lambda>addr m. [(Stderr, addr @ us '' - '' @ m @ [10])]),
     error_lines = (\<lambda>addr m. [(Stderr, addr @ us '' - '' @ m @ [10])])\<rparr>"

text \<open>\<open>self.log_error(text)\<close>: the text is a format, applied to no arguments.\<close>

definition ensure_log_error :: "ustr \<Rightarrow> ('w helper, unit) prog" where
  "ensure_log_error text = bind_p (lift_p (fmt_noargs text)) (log_error_p ensure_cls)"

definition run_systemctl :: "'w systemctl \<Rightarrow> ustr \<Rightarrow> ('w helper, int \<times> bytes) prog" where
  "run_systemctl run name c =
     (case run [us ''systemctl'', us ''start'', name] (units c) of (r, w) \<Rightarrow> (r, c\<lparr>units := w\<rparr>))"

definition send_ok :: "interp \<Rightarrow> ('w helper, unit) prog" where
  "send_ok py =
     seq_p (send_response py ensure_cls 200 None)
    (seq_p (send_header (us ''Content-Type'') (us ''text/plain''))
    (seq_p end_headers (wfile_write ''OK\<newline>'')))"

fun is_TimeoutExpired :: "exn \<Rightarrow> bool" where
  "is_TimeoutExpired (TimeoutExpired _) = True"
| "is_TimeoutExpired _ = False"

definition remote_user :: "request \<Rightarrow> ustr" where
  "remote_user req =
     py_strip (case header_get (us ''X-Remote-User'') req of None \<Rightarrow> [] | Some v \<Rightarrow> v)"

text \<open>
  The body of the \<open>try\<close>, in two parts: the call, and what is made of its result; and the two
  handlers.
\<close>

definition start_result :: "interp \<Rightarrow> ustr \<Rightarrow> int \<times> bytes \<Rightarrow> ('w helper, unit) prog" where
  "start_result py name result =
     (case result of (returncode, err) \<Rightarrow>
        if returncode \<noteq> 0 then
          (let stderr = utf8_decode_replace (us err) in
           seq_p (ensure_log_error (us ''systemctl start '' @ name @ us '' failed: '' @ stderr))
                 (send_error py ensure_cls 500 (us ''Failed to start '' @ name @ us '': '' @ stderr)))
        else send_ok py)"

definition start_unit :: "interp \<Rightarrow> 'w systemctl \<Rightarrow> ustr \<Rightarrow> ('w helper, unit) prog" where
  "start_unit py run name = bind_p (run_systemctl run name) (start_result py name)"

definition start_failed :: "interp \<Rightarrow> ustr \<Rightarrow> exn \<Rightarrow> ('w helper, unit) prog" where
  "start_failed py name e =
     (if is_TimeoutExpired e then send_error py ensure_cls 504 (us ''Timeout starting '' @ name)
      else if e = KeyboardInterrupt then raise_p e
      else seq_p (ensure_log_error (us ''Unexpected error: '' @ exn_str e))
                 (send_error py ensure_cls 500 (us ''Internal error: '' @ exn_str e)))"

definition ensure_do_GET :: "interp \<Rightarrow> 'w systemctl \<Rightarrow> request \<Rightarrow> ('w helper, unit) prog" where
  "ensure_do_GET py run req =
     (let who = remote_user req in
      if who = [] then send_error py ensure_cls 401 (us ''No authenticated user'')
      else if \<not> username_match who
        then send_error py ensure_cls 403 (us ''Invalid username format: '' @ who)
      else catch_p (start_unit py run (unit_name who)) (start_failed py (unit_name who)))"

section \<open>\<open>main\<close>\<close>

text \<open>
  The code wraps the inherited descriptor with the same statements as \<open>_listen_socket\<close> and
  \<open>server_on_socket\<close> of the server; \<open>Inl\<close> is an exit status.
\<close>

definition ensure_activated :: "process \<Rightarrow> exn + bool" where
  "ensure_activated pr =
     (if environ pr (us ''LISTEN_PID'') = Some (str_int (int (getpid pr)))
      then map_sum id (\<lambda>n. n \<ge> 1)
             (text_int (case environ pr (us ''LISTEN_FDS'') of None \<Rightarrow> us ''0'' | Some v \<Rightarrow> v))
      else Inr False)"

definition ensure_main :: "process \<Rightarrow> (osys, nat + pyserver) prog" where
  "ensure_main pr =
     bind_p (lift_p (ensure_activated pr)) (\<lambda>activated.
       if \<not> activated then
         seq_p (print_stderr (us ''error: this service requires systemd socket activation''))
               (return_p (Inl 1))
       else bind_p (listen_socket LISTEN_FDS_START) (\<lambda>so.
            bind_p (server_on_socket so) (\<lambda>srv. return_p (Inr srv))))"

section \<open>Which units it starts\<close>

lemma username_chars:
  assumes "username_match s" and "s = py_strip r"
  shows "list_all name_char s \<and> s \<noteq> [] \<and> name_start (hd s)"
proof -
  obtain c t where s: "s = c # t" using assms(1) by (cases s) (auto simp: username_match_def)
  have "\<not> is_space (last s)" using py_strip_last [of r] unfolding assms(2) [symmetric] s by blast
  then have "\<not> (t \<noteq> [] \<and> last t = 10)" by (auto simp: s is_space_def split: if_splits)
  with assms(1) show ?thesis by (auto simp: username_match_def s name_char_def)
qed

lemma indifferent_units [simp]: "conn_indifferent (\<lambda>c. units c = w)"
  by (simp add: conn_indifferent_def)

lemma keeps_units_log: "keeps (\<lambda>c. units c = w) (ensure_log_error m)"
  unfolding ensure_log_error_def by (intro keeps_bind keeps_lift keeps_log) simp

lemma keeps_units_error: "keeps (\<lambda>c. units c = w) (send_error py ensure_cls code m)"
  by (rule keeps_send_error) simp

lemma keeps_units_ok: "keeps (\<lambda>c. units c = w) (send_ok py)"
  unfolding send_ok_def
  by (intro keeps_seq keeps_send_response keeps_send_header keeps_end_headers keeps_write) simp_all

lemma keeps_units_failed: "keeps (\<lambda>c. units c = w) (start_failed py name e)"
  unfolding start_failed_def
  by (simp add: keeps_seq [OF keeps_units_log keeps_units_error] keeps_units_error keeps_raise)

lemma keeps_start_result: "keeps (\<lambda>c. units c = w) (start_result py name result)"
  unfolding start_result_def Let_def
  by (cases result) (simp add: keeps_seq [OF keeps_units_log keeps_units_error] keeps_units_ok)

lemma units_send_error: "units (snd (send_error py ensure_cls code m c)) = units c"
  using keeps_units_error [of "units c" py code m] unfolding keeps_def by blast

lemma units_after_start:
  "units (snd (catch_p (start_unit py run name) (start_failed py name) c))
     = snd (run [us ''systemctl'', us ''start'', name] (units c))"
proof -
  obtain r w where run: "run [us ''systemctl'', us ''start'', name] (units c) = (r, w)"
    by (cases "run [us ''systemctl'', us ''start'', name] (units c)")
  show ?thesis
  proof (cases r)
    case (Inl e)
    then have "catch_p (start_unit py run name) (start_failed py name) c = start_failed py name e (c\<lparr>units := w\<rparr>)"
      by (simp add: catch_p_def start_unit_def run_systemctl_def run bind_p_def)
    moreover have "keeps (\<lambda>c. units c = w) (start_failed py name e)" by (rule keeps_units_failed)
    ultimately show ?thesis by (simp add: keeps_def run)
  next
    case (Inr v)
    then have "catch_p (start_unit py run name) (start_failed py name) c
        = catch_p (start_result py name v) (start_failed py name) (c\<lparr>units := w\<rparr>)"
      by (simp add: start_unit_def run_systemctl_def run bind_p_def catch_p_def)
    moreover have "keeps (\<lambda>c. units c = w) (catch_p (start_result py name v) (start_failed py name))"
      by (intro keeps_catch keeps_units_failed keeps_start_result)
    ultimately show ?thesis by (simp add: keeps_def run)
  qed
qed

text \<open>
  The only effect a request can have on the system is one call of \<open>systemctl start\<close> on the
  socket unit of the user the front end named, and only when that name, stripped, is made of
  lower-case letters, digits, \<open>_\<close> and \<open>-\<close> and does not begin with a digit or \<open>-\<close>: no newline
  (which the regular expression alone would let through), no path, no option, no other unit.
\<close>

theorem ensure_starts_only_user_units:
  "units (snd (ensure_do_GET py run req c)) =
     (let u = remote_user req in
      if u \<noteq> [] \<and> name_start (hd u) \<and> list_all name_char u
        then snd (run [us ''systemctl'', us ''start'', us ''flux-rest-server@'' @ u @ us ''.socket''] (units c))
      else units c)"
proof -
  let ?u = "remote_user req"
  have "username_match ?u \<longleftrightarrow> ?u \<noteq> [] \<and> name_start (hd ?u) \<and> list_all name_char ?u"
    using username_chars [of ?u, OF _ remote_user_def]
    by (auto simp: username_match_def neq_Nil_conv split: list.splits)
  then show ?thesis
    by (simp add: ensure_do_GET_def Let_def units_send_error units_after_start unit_name_def)
qed

text \<open>The helper has one method; the rest of what may arrive is the reader's business.\<close>

definition ensure_request :: "interp \<Rightarrow> 'w systemctl \<Rightarrow> request \<Rightarrow> ('w helper, unit) prog" where
  "ensure_request py run = dispatch py ensure_cls [(us ''GET'', ensure_do_GET py run)]"

lemma ensure_units:
  "units (snd (ensure_do_GET py run req c)) = units c
    \<or> (\<exists>u. u \<noteq> [] \<and> name_start (hd u) \<and> list_all name_char u
        \<and> units (snd (ensure_do_GET py run req c)) = snd (run [us ''systemctl'', us ''start'', unit_name u] (units c)))"
proof (cases "username_match (remote_user req)")
  case True
  then show ?thesis
    using username_chars [OF True remote_user_def]
    by (simp add: ensure_do_GET_def Let_def units_after_start) blast
next
  case False
  then show ?thesis by (simp add: ensure_do_GET_def Let_def units_send_error)
qed

text \<open>What one connection may do to the system: nothing, or start the socket unit of one user.\<close>

definition one_start :: "'w systemctl \<Rightarrow> 'w \<Rightarrow> 'w set" where
  "one_start run w = insert w
     {snd (run [us ''systemctl'', us ''start'', us ''flux-rest-server@'' @ u @ us ''.socket''] w) | u.
        u \<noteq> [] \<and> name_start (hd u) \<and> list_all name_char u}"

lemma leads_ensure_request:
  "leads (\<lambda>d. units d = w) (ensure_request py run req) (\<lambda>d. units d \<in> one_start run w)"
proof -
  have "leads (\<lambda>d. units d = w) (ensure_do_GET py run req) (\<lambda>d. units d \<in> one_start run w)"
    unfolding leads_def
  proof (intro allI impI)
    fix d :: "'a helper"
    assume "units d = w"
    with ensure_units [of py run req d] show "units (snd (ensure_do_GET py run req d)) \<in> one_start run w"
      by (auto simp: unit_name_def one_start_def)
  qed
  then show ?thesis
    unfolding ensure_request_def by (intro leads_dispatch) (auto simp: one_start_def)
qed

lemma read_one_start: "units (snd (read_request py ensure_cls (ensure_request py run) c)) \<in> one_start run (units c)"
  and handle_one_start: "units (snd (handle_raw py ensure_cls (ensure_request py run) c)) \<in> one_start run (units c)"
proof -
  have "leads (\<lambda>d. units d = units c) (read_request py ensure_cls (ensure_request py run)) (\<lambda>d. units d \<in> one_start run (units c))"
    by (intro leads_read_request leads_ensure_request) (simp_all add: conn_indifferent_def input_indifferent_def one_start_def)
  then show "units (snd (read_request py ensure_cls (ensure_request py run) c)) \<in> one_start run (units c)"
    by (simp add: leads_def)
  have "leads (\<lambda>d. units d = units c) (handle_raw py ensure_cls (ensure_request py run)) (\<lambda>d. units d \<in> one_start run (units c))"
    by (intro leads_handle_raw leads_ensure_request) (simp_all add: conn_indifferent_def input_indifferent_def one_start_def)
  then show "units (snd (handle_raw py ensure_cls (ensure_request py run) c)) \<in> one_start run (units c)"
    by (simp add: leads_def)
qed

text \<open>
  C15. Whatever bytes a client of the helper sends, on whatever connection, they have no effect on the
  system beyond one \<open>systemctl start\<close> of the socket unit of one user name of lower-case letters,
  digits, \<open>_\<close> and \<open>-\<close> that begins with a letter or \<open>_\<close>: not with another method, a repeated or folded
  header, or an overlong line.
\<close>

theorem ensure_any_bytes:
  "units (snd (handle_raw py ensure_cls (ensure_request py run) c)) \<in> insert (units c)
     {snd (run [us ''systemctl'', us ''start'', us ''flux-rest-server@'' @ u @ us ''.socket''] (units c)) | u.
        u \<noteq> [] \<and> name_start (hd u) \<and> list_all name_char u}"
  using handle_one_start [of py run c] unfolding one_start_def .

section \<open>What it answers\<close>

lemma ensure_printable [simp]: "printable (server_version ensure_cls)"
  by (simp add: ensure_cls_def ENSURE_NAME_def lit_simps)

abbreviation ensure_page :: "nat \<Rightarrow> ustr \<Rightarrow> bytes" where
  "ensure_page code m \<equiv> error_body code m (us (explanation code))"

abbreviation ensure_headers :: "interp \<Rightarrow> nat \<Rightarrow> ustr \<Rightarrow> headers" where
  "ensure_headers py code m \<equiv> error_headers py ensure_cls code m (us (explanation code))"

lemma ensure_error_ok:
  assumes "texts_ok py" and "connected c" and "latin1 m"
  shows "send_error py ensure_cls code m c
      = (Inr (), error_answered py ensure_cls False code m (us (explanation code)) c)"
    and "sent (error_answered py ensure_cls False code m (us (explanation code)) c)
      = sent c @ to_bytes (head_text code m (ensure_headers py code m)) @ ensure_page code m"
proof -
  have c: "ready c" "\<not> http09 c" using assms(2) by (simp_all add: connected_ready)
  show "send_error py ensure_cls code m c
      = (Inr (), error_answered py ensure_cls False code m (us (explanation code)) c)"
    by (rule send_error_ok [OF assms(1) ensure_printable c(1) assms(3)])
  show "sent (error_answered py ensure_cls False code m (us (explanation code)) c)
      = sent c @ to_bytes (head_text code m (ensure_headers py code m)) @ ensure_page code m"
    by (simp add: error_answered_def page_bytes_def c(2))
qed

section \<open>The verdict\<close>

definition verdict :: "'w systemctl \<Rightarrow> request \<Rightarrow> 'w \<Rightarrow> nat" where
  "verdict run req w =
     (let u = remote_user req in
      if u = [] then 401
      else if \<not> username_match u then 403
      else (case fst (run [us ''systemctl'', us ''start'', unit_name u] w) of
              Inr (rc, _) \<Rightarrow> if rc = 0 then 200 else 500
            | Inl e \<Rightarrow> if is_TimeoutExpired e then 504 else 500))"

text \<open>The answer is one response with that status, and the handler returns.\<close>

definition replied :: "'w helper \<Rightarrow> nat \<Rightarrow> (exn + unit) \<times> 'w helper \<Rightarrow> bool" where
  "replied c code result \<longleftrightarrow> (\<exists>t m hs body. result = (Inr (), t)
     \<and> sent t = sent c @ to_bytes (head_text code m hs) @ body)"

text \<open>An \<open>Exception\<close> whose text can be logged and sent as it is.\<close>

definition plain_text :: "exn \<Rightarrow> bool" where
  "plain_text e \<longleftrightarrow> latin1 (exn_str e) \<and> 37 \<notin> set (exn_str e) \<and> e \<noteq> KeyboardInterrupt"

lemma error_page_replied:
  "texts_ok py \<Longrightarrow> connected c \<Longrightarrow> latin1 m \<Longrightarrow> replied c code (send_error py ensure_cls code m c)"
  unfolding replied_def using ensure_error_ok by blast

lemma fmt_noargs_error: "fmt_noargs s = Inl e \<Longrightarrow> plain_text e \<and> \<not> is_TimeoutExpired e"
proof (induction s arbitrary: e rule: fmt_noargs.induct)
  case (2 c s)
  have "plain_text (fmt_error t) \<and> \<not> is_TimeoutExpired (fmt_error t)" for t
    by (simp add: fmt_error_def plain_text_def lit_simps)
  with 2 show ?case by (auto split: if_splits list.splits sum.splits)
qed simp

lemma ensure_log_plain:
  "37 \<notin> set m \<Longrightarrow> ensure_log_error m c
     = (Inr (), c\<lparr>logs := logs c @ error_lines ensure_cls (address_string c) m\<rparr>)"
  by (simp add: ensure_log_error_def fmt_noargs_id lift_p_def log_error_p_eq bind_p_def)

lemma replied_updates [simp]:
  "replied (c\<lparr>logs := l\<rparr>) code r = replied c code r" "replied (c\<lparr>units := w\<rparr>) code r = replied c code r"
  by (simp_all add: replied_def)

lemma connected_helper [simp]:
  "connected (c\<lparr>units := w\<rparr>) = connected c" "connected (c\<lparr>logs := l\<rparr>) = connected c"
  by (simp_all add: connected_def http09_def)

lemma start_failed_replied:
  assumes "texts_ok py" and "connected c" and "plain_text e" and "latin1 name"
  shows "replied c (if is_TimeoutExpired e then 504 else 500) (start_failed py name e c)"
proof -
  have e: "37 \<notin> set (us ''Unexpected error: '' @ exn_str e)"
    using assms(3) by (simp add: plain_text_def lit_simps)
  show ?thesis
  proof (cases "is_TimeoutExpired e")
    case True
    with assms show ?thesis by (simp add: start_failed_def error_page_replied)
  next
    case False
    let ?c = "c\<lparr>logs := logs c @ error_lines ensure_cls (address_string c) (us ''Unexpected error: '' @ exn_str e)\<rparr>"
    have "start_failed py name e c = send_error py ensure_cls 500 (us ''Internal error: '' @ exn_str e) ?c"
      using False assms(3) by (simp add: start_failed_def plain_text_def seq_p_Inr [OF ensure_log_plain [OF e]])
    moreover have "replied ?c 500 (send_error py ensure_cls 500 (us ''Internal error: '' @ exn_str e) ?c)"
      using assms(1-3) by (intro error_page_replied) (simp_all add: plain_text_def)
    ultimately show ?thesis using False by simp
  qed
qed

lemma send_ok_eq:
  assumes "texts_ok py" and "connected c"
  shows "send_ok py c = (Inr (), c\<lparr>
     logs := logs c @ message_lines ensure_cls (address_string c) (request_log 200 c), hbuf := [],
     sent := sent c @ to_bytes (head_text 200 (us ''OK'')
       [(us ''Server'', server_version ensure_cls @ 32 # sys_version py), (us ''Date'', http_date py),
        (us ''Content-Type'', us ''text/plain'')]) @ ''OK\<newline>''\<rparr>)"
proof -
  have 1: "\<not> http09 c" "wfaults c = []" "ready c" using assms(2) by (simp_all add: connected_def ready_def)
  have 2: "latin1 (case None of Some m \<Rightarrow> m | None \<Rightarrow> us (reason 200))" by (simp add: reason_def)
  have "send_response py ensure_cls 200 None c =
    (Inr (), c\<lparr>logs := logs c @ message_lines ensure_cls (address_string c) (request_log 200 c),
               hbuf := to_bytes (status_line 200 (us ''OK''))
                 @ to_bytes (header_line (us ''Server'') (server_version ensure_cls @ 32 # sys_version py))
                 @ to_bytes (header_line (us ''Date'') (http_date py))\<rparr>)"
    using send_response_any [OF assms(1) ensure_printable 1(3) 2] 1(1) by (simp add: reason_def)
  then show ?thesis
    by (simp add: send_ok_def seq_p_def bind_p_def 1 send_plain server_header_names error_header_ok(3)
        end_headers_ok wfile_write_ok head_text_def)
qed

lemma send_ok_replied: "texts_ok py \<Longrightarrow> connected c \<Longrightarrow> replied c 200 (send_ok py c)"
  unfolding replied_def by (simp add: send_ok_eq) blast

text \<open>What goes wrong while a failure is reported is reported as a failure, too.\<close>

lemma handled_failure:
  assumes "texts_ok py" and "connected c" and "latin1 name" and "m c = (Inl e, c\<lparr>logs := l\<rparr>)"
    and "plain_text e" and "\<not> is_TimeoutExpired e"
  shows "replied c 500 (catch_p m (start_failed py name) c)"
  using start_failed_replied [OF assms(1) _ assms(5,3), of "c\<lparr>logs := l\<rparr>"] assms(2,6)
  by (simp add: catch_p_def assms(4))

lemma start_result_replied:
  assumes py: "texts_ok py" and c: "connected c" and name: "latin1 name"
  shows "replied c (if rc = 0 then 200 else 500)
    (catch_p (start_result py name (rc, err)) (start_failed py name) c)"
proof (cases "rc = 0")
  case True
  then show ?thesis
    using send_ok_replied [OF py c] by (simp add: catch_p_def start_result_def send_ok_eq [OF py c])
next
  case False
  define s where "s = utf8_decode_replace (us err)"
  let ?L = "us ''systemctl start '' @ name @ us '' failed: '' @ s"
  let ?M = "us ''Failed to start '' @ name @ us '': '' @ s"
  have m: "start_result py name (rc, err) = seq_p (ensure_log_error ?L) (send_error py ensure_cls 500 ?M)"
    using False by (simp add: start_result_def s_def Let_def)
  have "replied c 500 (catch_p (start_result py name (rc, err)) (start_failed py name) c)"
  proof (cases "fmt_noargs ?L")
    case (Inl f)
    then have "start_result py name (rc, err) c = (Inl f, c\<lparr>logs := logs c\<rparr>)"
      by (simp add: m seq_p_def bind_p_def ensure_log_error_def lift_p_def)
    with handled_failure [OF py c name] fmt_noargs_error [OF Inl] show ?thesis by blast
  next
    case (Inr t)
    define d where "d = c\<lparr>logs := logs c @ error_lines ensure_cls (address_string c) t\<rparr>"
    have d: "connected d" using c by (simp add: d_def)
    have run: "start_result py name (rc, err) c = send_error py ensure_cls 500 ?M d"
      by (simp add: m seq_p_def bind_p_def ensure_log_error_def lift_p_def Inr log_error_p_eq d_def)
    show ?thesis
    proof (cases "latin1 ?M")
      case True
      have "replied d 500 (catch_p (start_result py name (rc, err)) (start_failed py name) c)"
        using error_page_replied [OF py d True, of 500] by (simp add: catch_p_def run ensure_error_ok(1) [OF py d True])
      then show ?thesis by (simp add: d_def)
    next
      case False
      obtain l e where e: "send_error py ensure_cls 500 ?M d = (Inl e, d\<lparr>logs := l\<rparr>)" "latin1_encode ?M = Inl e"
        using send_error_unencodable [OF _ False] d unfolding connected_ready by blast
      have "plain_text e" "\<not> is_TimeoutExpired e"
        using e(2) by (auto simp: latin1_encode_def plain_text_def lit_simps split: if_splits)
      then show ?thesis using handled_failure [OF py c name] e(1) by (simp add: run d_def)
    qed
  qed
  with False show ?thesis by simp
qed

text \<open>
  C25. Every request is answered, by one response, with the status its user name and
  \<open>systemctl\<close>'s outcome decide: 401 for no user, 403 for a name that is not one, 200 if the unit
  was started, 504 if that took too long, 500 for every other failure, and then also when the
  failure cannot be logged or put into a status line; for names in ISO-8859-1 and exceptions of \<open>systemctl\<close> with plain texts.
\<close>

theorem ensure_answers:
  assumes "texts_ok py" and "connected c" and "latin1 (remote_user req)"
    and "\<forall>argv e. fst (run argv (units c)) = Inl e \<longrightarrow> plain_text e"
  shows "replied c (verdict run req (units c)) (ensure_do_GET py run req c)"
proof -
  let ?u = "remote_user req"
  show ?thesis
  proof (cases "?u = [] \<or> \<not> username_match ?u")
    case True
    with assms(1-3) show ?thesis by (auto simp: ensure_do_GET_def verdict_def Let_def intro!: error_page_replied)
  next
    case False
    let ?n = "unit_name ?u"
    obtain r w where run: "run [us ''systemctl'', us ''start'', ?n] (units c) = (r, w)"
      by (cases "run [us ''systemctl'', us ''start'', ?n] (units c)")
    have name: "latin1 ?n" using assms(3) by (simp add: unit_name_def)
    have c: "connected (c\<lparr>units := w\<rparr>)" using assms(2) by simp
    show ?thesis
    proof (cases r)
      case (Inl e)
      then have "plain_text e" using assms(4) run by (metis fst_conv)
      with start_failed_replied [OF assms(1) c this name] False Inl run show ?thesis
        by (simp add: ensure_do_GET_def verdict_def Let_def catch_p_def start_unit_def run_systemctl_def bind_p_def)
    next
      case (Inr v)
      obtain rc err where v: "v = (rc, err)" by (cases v)
      from start_result_replied [OF assms(1) c name, of rc err] False run Inr v show ?thesis
        by (simp add: ensure_do_GET_def verdict_def Let_def start_unit_def run_systemctl_def bind_p_def
            catch_p_def)
    qed
  qed
qed

section \<open>One user, one unit\<close>

text \<open>
  The rule of \<open>50-flux-rest-server.rules\<close>: what is asked for, with its details, and for whom. True is
  \<open>polkit.Result.YES\<close>, False that the rule leaves the decision to others.
\<close>

record polkit_action =
  action_id :: ustr
  lookup :: "ustr \<Rightarrow> ustr option"

definition polkit_rule :: "ustr \<Rightarrow> polkit_action \<Rightarrow> ustr \<Rightarrow> exn + bool" where
  "polkit_rule web_user action subject_user =
     (if action_id action = us ''org.freedesktop.systemd1.manage-units'' \<and> subject_user = web_user
      then (case lookup action (us ''unit'') of
              None \<Rightarrow> Inl (TypeError (us ''undefined is not an object''))
            | Some unit \<Rightarrow> Inr (py_startswith (us ''flux-rest-server@'') unit))
      else Inr False)"

text \<open>The sockets the unit templates make.\<close>

definition user_socket :: "ustr \<Rightarrow> ustr" where
  "user_socket inst = us ''/run/flux-rest-server/'' @ inst @ us ''.sock''"

definition ENSURE_SOCKET :: ustr where
  "ENSURE_SOCKET = us ''/run/flux-rest-server/ensure.sock''"

text \<open>
  The instance systemd finds in the name of a socket unit is a parameter. Its manual (systemd.unit) says what is relied on: in a
  name of at most 255 characters, letters, digits, \<open>:\<close>, \<open>-\<close>, \<open>_\<close>, \<open>.\<close> and \<open>\\<close>, the instance
  is what stands between the first \<open>@\<close> and the suffix.
\<close>

definition unit_char :: "int \<Rightarrow> bool" where
  "unit_char c \<longleftrightarrow> (97 \<le> c \<and> c \<le> 122) \<or> (65 \<le> c \<and> c \<le> 90) \<or> (48 \<le> c \<and> c \<le> 57) \<or> c \<in> {58, 45, 95, 46, 92}"

definition instance_law :: "(ustr \<Rightarrow> ustr option) \<Rightarrow> bool" where
  "instance_law instance_of \<longleftrightarrow> (\<forall>p i. p \<noteq> [] \<and> list_all unit_char p \<and> i \<noteq> [] \<and> list_all (\<lambda>c. unit_char c \<or> c = 64) i
     \<and> length (p @ 64 # i @ us ''.socket'') \<le> 255 \<longrightarrow> instance_of (p @ 64 # i @ us ''.socket'') = Some i)"

lemma unit_instance:
  assumes "instance_law instance_of" and "username_match u" "u = py_strip r" "length u \<le> 231"
  shows "instance_of (unit_name u) = Some u"
proof -
  have u: "list_all name_char u" "u \<noteq> []" using username_chars [OF assms(2,3)] by simp_all
  then have "list_all (\<lambda>c. unit_char c \<or> c = 64) u"
    by (auto simp: list_all_iff unit_char_def name_char_def name_start_def)
  moreover have "list_all unit_char (us ''flux-rest-server'')" "us ''flux-rest-server'' \<noteq> []"
    by (simp_all add: unit_char_def us_Cons)
  moreover have "length (us ''flux-rest-server'' @ 64 # u @ us ''.socket'') \<le> 255" using assms(4) by (simp add: us_Cons)
  ultimately have "instance_of (us ''flux-rest-server'' @ 64 # u @ us ''.socket'') = Some u"
    using assms(1) u(2) unfolding instance_law_def by blast
  moreover have "unit_name u = us ''flux-rest-server'' @ 64 # u @ us ''.socket''" by (simp add: unit_name_def us_Cons)
  ultimately show ?thesis by simp
qed

text \<open>
  C35. Each accepted name of up to 231 characters is one user's socket unit: systemd takes the whole name, unchanged, for the
  instance; polkit lets the web server's account, and by this rule nobody else, start the unit, and do nothing else
  with it; the socket lies in the runtime directory itself, whatever the name; and different names
  never share an instance.
\<close>

theorem unit_name_roundtrip:
  assumes "instance_law instance_of" and "username_match u" and "u = py_strip r" and "length u \<le> 231"
  shows "instance_of (unit_name u) = Some u
    \<and> (\<forall>act who. lookup act (us ''unit'') = Some (unit_name u) \<longrightarrow>
         polkit_rule web_user act who
           = Inr (action_id act = us ''org.freedesktop.systemd1.manage-units'' \<and> who = web_user))
    \<and> (\<exists>f. user_socket (the (instance_of (unit_name u))) = us ''/run/flux-rest-server/'' @ f \<and> 47 \<notin> set f)
    \<and> (\<forall>v t. username_match v \<and> v = py_strip t \<and> length v \<le> 231
         \<and> instance_of (unit_name v) = instance_of (unit_name u) \<longrightarrow> v = u)"
proof -
  note inst = unit_instance [OF assms(1)]
  have "47 \<notin> set u"
    using username_chars [OF assms(2,3)] by (auto simp: list_all_iff name_char_def name_start_def)
  then have "47 \<notin> set (u @ us ''.sock'')" by (simp add: us_Cons)
  then have "\<exists>f. user_socket u = us ''/run/flux-rest-server/'' @ f \<and> 47 \<notin> set f" by (auto simp: user_socket_def)
  moreover have "py_startswith (us ''flux-rest-server@'') (unit_name u)" by (simp add: unit_name_def)
  ultimately show ?thesis
    using inst [OF assms(2-4)] inst by (auto simp: polkit_rule_def)
qed

section \<open>On concrete requests\<close>

definition sample_user :: "string \<Rightarrow> request" where
  "sample_user u = \<lparr>command = us ''GET'', path = us ''/'', headers = [(us ''X-Remote-User'', us u)]\<rparr>"

definition sample_helper :: "string list helper" where
  "sample_helper = \<lparr>request_version = us ''HTTP/1.0'', requestline = us ''GET / HTTP/1.0'',
     client_host = None, rfile = [], rend = Peer_EOF, hbuf = [], sent = [], wfaults = [], logs = [],
     close_connection = True, units = []\<rparr>"

text \<open>A \<open>systemctl\<close> that starts nothing and complains.\<close>

definition complaining :: "string \<Rightarrow> string list systemctl" where
  "complaining text argv w = (Inr (1, text), w)"

lemma sample_helper_connected [simp]: "connected sample_helper"
  by (simp add: connected_def http09_def sample_helper_def)

lemma remote_alice: "remote_user (sample_user ''alice'') = us ''alice''"
  by (simp add: remote_user_def header_get_def sample_user_def find_header_def ascii_lower_def lit_simps
      py_strip_def rstrip_by_def is_space_def)

lemma alice_match: "username_match (us ''alice'')"
  by (simp add: username_match_def name_char_def name_start_def lit_simps)

lemma ensure_answers_witness:
  "replied sample_helper 500 (ensure_do_GET sample_py (complaining ''50% done'') (sample_user ''alice'') sample_helper)"
proof -
  have "verdict (complaining ''50% done'') (sample_user ''alice'') (units sample_helper) = 500"
    by (simp add: verdict_def Let_def remote_alice alice_match complaining_def)
  then show ?thesis
    using ensure_answers [OF sample_texts sample_helper_connected,
        of "sample_user ''alice''" "complaining ''50% done''"]
    by (simp add: remote_alice complaining_def)
qed

text \<open>An instance name that obeys the law: between the first \<open>@\<close> and the last dot.\<close>

definition between_at_and_dot :: "ustr \<Rightarrow> ustr option" where
  "between_at_and_dot unit = map_option (\<lambda>r. rev (drop 1 (dropWhile (\<lambda>c. c \<noteq> 46) (rev r)))) (after 64 unit)"

lemma between_law: "instance_law between_at_and_dot"
proof (unfold instance_law_def, intro allI impI)
  fix p i :: ustr
  assume "p \<noteq> [] \<and> list_all unit_char p \<and> i \<noteq> [] \<and> list_all (\<lambda>c. unit_char c \<or> c = 64) i
    \<and> length (p @ 64 # i @ us ''.socket'') \<le> 255"
  then have "\<forall>c \<in> set p. c \<noteq> 64" by (auto simp: list_all_iff unit_char_def)
  then have "after 64 (p @ 64 # i @ us ''.socket'') = Some (i @ us ''.socket'')"
    by (simp add: after_def dropWhile_append)
  then show "between_at_and_dot (p @ 64 # i @ us ''.socket'') = Some i"
    by (simp add: between_at_and_dot_def lit_simps)
qed

lemma unit_name_roundtrip_witness:
  "between_at_and_dot (unit_name (us ''alice'')) = Some (us ''alice'')
    \<and> polkit_rule (us ''www-data'') \<lparr>action_id = us ''org.freedesktop.systemd1.manage-units'',
        lookup = (\<lambda>_. Some (unit_name (us ''alice'')))\<rparr> (us ''www-data'') = Inr True"
proof -
  have "us ''alice'' = py_strip (us '' alice '')" "length (us ''alice'') \<le> 231"
    by (simp_all add: py_strip_def rstrip_by_def is_space_def lit_simps)
  from unit_name_roundtrip [OF between_law alice_match this, of "us ''www-data''"] show ?thesis by simp
qed

section \<open>Where the helper and its intention part\<close>

text \<open>A client that accepts a bare newline as a line end, as HTTP clients do.\<close>

fun lf_line :: "bytes \<Rightarrow> bytes \<times> bytes" where
  "lf_line [] = ([], [])"
| "lf_line (c # r) = (if c = CHR 10 then ([], r) else (case lf_line r of (l, r') \<Rightarrow> (c # l, r')))"

text \<open>A failed start of a named user's unit, as far as the answer.\<close>

lemma failed_start:
  assumes c: "connected c" and u: "username_match (remote_user req)"
    and run: "fst (run [us ''systemctl'', us ''start'', unit_name (remote_user req)] (units c)) = Inr (rc, err)"
    and rc: "rc \<noteq> 0"
  obtains w where "connected (c\<lparr>units := w\<rparr>)" and "ensure_do_GET py run req c =
    catch_p (start_result py (unit_name (remote_user req)) (rc, err)) (start_failed py (unit_name (remote_user req)))
      (c\<lparr>units := w\<rparr>)"
proof -
  obtain w where w: "run [us ''systemctl'', us ''start'', unit_name (remote_user req)] (units c) = (Inr (rc, err), w)"
    using run by (metis prod.collapse)
  have "remote_user req \<noteq> []" using u by (auto simp: username_match_def)
  then have "ensure_do_GET py run req c =
    catch_p (start_result py (unit_name (remote_user req)) (rc, err)) (start_failed py (unit_name (remote_user req)))
      (c\<lparr>units := w\<rparr>)"
    using u by (simp add: ensure_do_GET_def Let_def start_unit_def run_systemctl_def bind_p_def catch_p_def w)
  with c show ?thesis by (intro that) simp_all
qed

text \<open>What the journal and the client are told are ASCII texts without per cent signs but for \<open>systemctl\<close>'s.\<close>

lemma user_plain:
  assumes "username_match (remote_user req)"
  shows "ascii (unit_name (remote_user req))" and "37 \<notin> set (unit_name (remote_user req))"
    and "10 \<notin> set (unit_name (remote_user req))"
  using username_chars [OF assms remote_user_def]
  by (auto simp: unit_name_def ascii_def list_all_iff name_char_def name_start_def us_def dest!: spec bspec)

lemma plain_failure:
  assumes "texts_ok py" and "connected c" and "rc \<noteq> 0" and "37 \<notin> set name" and "latin1 name"
    and s: "s = utf8_decode_replace (us err)" and "37 \<notin> set s" and "latin1 s"
  shows "sent (snd (catch_p (start_result py name (rc, err)) h c)) = sent c
    @ to_bytes (head_text 500 (us ''Failed to start '' @ name @ us '': '' @ s)
        (ensure_headers py 500 (us ''Failed to start '' @ name @ us '': '' @ s)))
    @ ensure_page 500 (us ''Failed to start '' @ name @ us '': '' @ s)"
proof -
  let ?L = "us ''systemctl start '' @ name @ us '' failed: '' @ s"
  let ?M = "us ''Failed to start '' @ name @ us '': '' @ s"
  let ?c = "c\<lparr>logs := logs c @ error_lines ensure_cls (address_string c) ?L\<rparr>"
  have L: "37 \<notin> set ?L" using assms(4,7) by (simp add: lit_simps)
  have M: "latin1 ?M" using assms(5,8) by simp
  have c: "connected ?c" using assms(2) by simp
  have "start_result py name (rc, err) c = send_error py ensure_cls 500 ?M ?c"
    using assms(3) by (simp add: start_result_def Let_def seq_p_Inr [OF ensure_log_plain [OF L]] flip: s)
  then show ?thesis
    by (simp add: catch_p_def ensure_error_ok [OF assms(1) c M])
qed

lemma str_int_500: "str_int 500 = us ''500''"
  by (simp add: str_int_def dec_digits.simps [of 500] dec_digits.simps [of 50] dec_digits.simps [of 5] lit_simps)

text \<open>
  The text \<open>systemctl\<close> writes to standard error ends in a newline, and that newline goes into
  the status line: a client reads the status, then an empty line, and takes every header of the
  response for its body.
\<close>

theorem newline_ends_headers:
  assumes py: "texts_ok py" and c: "connected c" "sent c = []" and u: "username_match (remote_user req)"
    and run: "fst (run [us ''systemctl'', us ''start'', unit_name (remote_user req)] (units c)) = Inr (rc, err @ [CHR 10])"
    and rc: "rc \<noteq> 0" and err: "ascii (us err)" "37 \<notin> set (us err)" "10 \<notin> set (us err)"
  shows "\<exists>line rest. lf_line (sent (snd (ensure_do_GET py run req c))) = (line, CHR 13 # CHR 10 # ''Server: '' @ rest)
    \<and> line = ''HTTP/1.0 500 Failed to start '' @ to_bytes (unit_name (remote_user req)) @ '': '' @ err"
proof -
  let ?n = "unit_name (remote_user req)"
  let ?s = "us err @ [10]"
  let ?M = "us ''Failed to start '' @ ?n @ us '': '' @ ?s"
  obtain w where d: "connected (c\<lparr>units := w\<rparr>)" and eq: "ensure_do_GET py run req c =
      catch_p (start_result py ?n (rc, err @ [CHR 10])) (start_failed py ?n) (c\<lparr>units := w\<rparr>)"
    using failed_start [where run = run and req = req and c = c and py = py, OF c(1) u run rc] by blast
  have s: "?s = utf8_decode_replace (us (err @ [CHR 10]))"
    using err(1) by (simp add: us_Cons)
  have n: "latin1 ?n" "37 \<notin> set ?n" "10 \<notin> set ?n"
    using user_plain [OF u] by (auto simp: latin1_def ascii_iff list_all_iff)
  have "latin1 ?s" "37 \<notin> set ?s" using err by auto
  from plain_failure [OF py d rc n(2,1) s this(2,1), of "start_failed py ?n"]
  have sent: "sent (snd (ensure_do_GET py run req c)) =
      to_bytes (head_text 500 ?M (ensure_headers py 500 ?M)) @ ensure_page 500 ?M"
    by (simp add: eq c(2))
  let ?line = "''HTTP/1.0 500 Failed to start '' @ to_bytes ?n @ '': '' @ err"
  have "us ''HTTP/1.0 500 Failed to start '' = us ''HTTP/1.0 '' @ us ''500'' @ 32 # us ''Failed to start ''"
    by (simp add: lit_simps)
  then have head: "head_text 500 ?M (ensure_headers py 500 ?M)
      = us ''HTTP/1.0 500 Failed to start '' @ ?n @ us '': '' @ us err @ [10, 13, 10]
        @ us ''Server: '' @ server_version ensure_cls @ 32 # sys_version py @ crlf
        @ concat (map (\<lambda>(n, v). header_line n v) (tl (ensure_headers py 500 ?M))) @ crlf"
    by (simp add: head_text_def status_line_def str_int_500 error_headers_def header_line_def crlf_def lit_simps)
  have lf: "CHR 10 \<notin> set l \<Longrightarrow> lf_line (l @ CHR 10 # r) = (l, r)" for l r
    by (induction l) auto
  have "CHR 10 \<notin> set (to_bytes ?n)"
  proof
    assume "CHR 10 \<in> set (to_bytes ?n)"
    then obtain k where "k \<in> set ?n" "char_of k = (CHR 10 :: char)" by (auto simp: to_bytes_def)
    moreover have "0 \<le> k" "k < 128" using user_plain(1) [OF u] calculation(1) by (auto simp: ascii_iff)
    ultimately have "k = 10" using of_char_char_of [of k] by auto
    with \<open>k \<in> set ?n\<close> n(3) show False by simp
  qed
  moreover have "CHR 10 \<notin> set err" using err(3) imageI [of "CHR 10" "set err" of_char] by (auto simp: us_def)
  ultimately have "CHR 10 \<notin> set ?line" by simp
  note cut = lf [OF this]
  have ends: "to_bytes (10 # 13 # 10 # z) = CHR 10 # CHR 13 # CHR 10 # to_bytes z" for z by (simp add: to_bytes_def char_of_def)
  have "to_bytes (us ''HTTP/1.0 500 Failed to start '' @ ?n @ us '': '' @ us err @ [10, 13, 10] @ us ''Server: '' @ x) @ y
      = ?line @ CHR 10 # CHR 13 # CHR 10 # ''Server: '' @ to_bytes x @ y" for x y
    by (simp only: to_bytes_append to_bytes_us ends append_assoc append_Cons append_Nil)
  then show ?thesis
    unfolding sent head by (simp only: cut prod.inject refl simp_thms) blast
qed

text \<open>
  A per cent sign in what \<open>systemctl\<close> writes is taken for a conversion when the failure is
  logged: the failure is neither logged nor reported, and the client is told of an internal
  error of the helper instead.
\<close>

theorem percent_hides_failure:
  assumes py: "texts_ok py" and c: "connected c" and u: "username_match (remote_user req)"
    and run: "fst (run [us ''systemctl'', us ''start'', unit_name (remote_user req)] (units c)) = Inr (rc, a @ CHR 37 # b)"
    and rc: "rc \<noteq> 0" and err: "ascii (us a)" "ascii (us b)" "37 \<notin> set (us a)" "\<not> py_startswith [37] (us b)"
  shows "\<exists>hs body. sent (snd (ensure_do_GET py run req c)) =
    sent c @ to_bytes (head_text 500 (us ''Internal error: '' @ exn_str (fmt_error (us b))) hs) @ body"
proof -
  let ?n = "unit_name (remote_user req)" and ?e = "fmt_error (us b)"
  let ?L = "(us ''systemctl start '' @ ?n @ us '' failed: '' @ us a) @ 37 # us b"
  obtain w where d: "connected (c\<lparr>units := w\<rparr>)" and eq: "ensure_do_GET py run req c =
      catch_p (start_result py ?n (rc, a @ CHR 37 # b)) (start_failed py ?n) (c\<lparr>units := w\<rparr>)"
    using failed_start [where run = run and req = req and c = c and py = py, OF c u run rc] by blast
  have "37 \<notin> set (us ''systemctl start '' @ ?n @ us '' failed: '' @ us a)"
    using user_plain(2) [OF u] err(3) by (simp add: lit_simps)
  from fmt_noargs_directive [OF this err(4)] have L: "fmt_noargs ?L = Inl ?e" .
  then have e: "plain_text ?e" "\<not> is_TimeoutExpired ?e" using fmt_noargs_error by blast+
  have "utf8_decode_replace (us (a @ CHR 37 # b)) = us a @ 37 # us b"
    using err(1,2) by (simp add: us_Cons)
  then have "start_result py ?n (rc, a @ CHR 37 # b) (c\<lparr>units := w\<rparr>) = (Inl ?e, c\<lparr>units := w\<rparr>)"
    using rc L by (simp add: start_result_def Let_def seq_p_def bind_p_def ensure_log_error_def lift_p_def)
  then have run: "ensure_do_GET py run req c = start_failed py ?n ?e (c\<lparr>units := w\<rparr>)"
    by (simp add: eq catch_p_def)
  have "37 \<notin> set (us ''Unexpected error: '' @ exn_str ?e)"
    using e(1) by (simp add: plain_text_def lit_simps)
  note log = seq_p_Inr [OF ensure_log_plain [OF this]]
  let ?c = "c\<lparr>units := w, logs := logs c @ error_lines ensure_cls (address_string (c\<lparr>units := w\<rparr>)) (us ''Unexpected error: '' @ exn_str ?e)\<rparr>"
  have "connected ?c" using d by simp
  moreover have "latin1 (us ''Internal error: '' @ exn_str ?e)" using e(1) by (simp add: plain_text_def)
  moreover have "?e \<noteq> KeyboardInterrupt" using e(1) by (simp add: plain_text_def)
  ultimately show ?thesis
    using e(2) by (simp add: run start_failed_def log ensure_error_ok [OF py]) blast
qed

text \<open>
  The user name \<open>ensure\<close> passes the filter, and the socket unit it names listens on the very
  path of the helper's own socket.
\<close>

theorem user_ensure_collides:
  assumes "instance_law instance_of"
  shows "username_match (us ''ensure'') \<and> user_socket (the (instance_of (unit_name (us ''ensure'')))) = ENSURE_SOCKET"
proof -
  have m: "username_match (us ''ensure'')" by (simp add: username_match_def name_char_def name_start_def lit_simps)
  have "us ''ensure'' = py_strip (us ''ensure'')" "length (us ''ensure'') \<le> 231"
    by (simp_all add: py_strip_def rstrip_by_def is_space_def lit_simps)
  from unit_instance [OF assms m this] m show ?thesis by (simp add: user_socket_def ENSURE_SOCKET_def lit_simps)
qed

section \<open>The divergences on concrete requests\<close>

lemma newline_ends_headers_witness:
  "\<exists>line rest. lf_line (sent (snd (ensure_do_GET sample_py (complaining (''Unit not found.'' @ [CHR 10]))
       (sample_user ''alice'') sample_helper))) = (line, CHR 13 # CHR 10 # ''Server: '' @ rest)"
proof -
  have u: "username_match (remote_user (sample_user ''alice''))" using alice_match by (simp add: remote_alice)
  have "sent sample_helper = []" by (simp add: sample_helper_def)
  moreover have "fst (complaining (''Unit not found.'' @ [CHR 10]) argv w) = Inr (1, ''Unit not found.'' @ [CHR 10])" for argv w
    by (simp add: complaining_def)
  moreover have "ascii (us ''Unit not found.'')" "37 \<notin> set (us ''Unit not found.'')" "10 \<notin> set (us ''Unit not found.'')"
    by (simp_all add: lit_simps)
  ultimately show ?thesis
    using newline_ends_headers [where run = "complaining (''Unit not found.'' @ [CHR 10])" and rc = 1
        and err = "''Unit not found.''", OF sample_texts sample_helper_connected _ u] by (metis zero_neq_one)
qed

lemma percent_hides_failure_witness:
  "\<exists>hs body. sent (snd (ensure_do_GET sample_py (complaining (''50'' @ CHR 37 # ''i'')) (sample_user ''alice'') sample_helper))
     = to_bytes (head_text 500 (us ''Internal error: not enough arguments for format string'') hs) @ body"
proof -
  have u: "username_match (remote_user (sample_user ''alice''))" using alice_match by (simp add: remote_alice)
  have "fst (complaining (''50'' @ CHR 37 # ''i'') argv w) = Inr (1, ''50'' @ CHR 37 # ''i'')" for argv w
    by (simp add: complaining_def)
  moreover have "ascii (us ''50'')" "ascii (us ''i'')" "37 \<notin> set (us ''50'')" "\<not> py_startswith [37] (us ''i'')"
    by (simp_all add: lit_simps py_startswith_def)
  ultimately have "\<exists>hs body. sent (snd (ensure_do_GET sample_py (complaining (''50'' @ CHR 37 # ''i'')) (sample_user ''alice'') sample_helper))
     = sent sample_helper @ to_bytes (head_text 500 (us ''Internal error: '' @ exn_str (fmt_error (us ''i''))) hs) @ body"
    by (intro percent_hides_failure [where rc = 1, OF sample_texts sample_helper_connected u]) simp_all
  moreover have "us ''Internal error: '' @ exn_str (fmt_error (us ''i'')) = us ''Internal error: not enough arguments for format string''"
    by (simp add: fmt_error_def py_startswith_def fmt_length_def fmt_precision_def fmt_flag_def is_digit_def lit_simps)
  ultimately show ?thesis by (simp add: sample_helper_def)
qed

end
