(* ===== verification/Helper.thy ===== *)
theory Helper
  imports Ensure Service
begin

text \<open>
  The helper as a process: \<open>main\<close>, and \<open>serve_forever\<close> over the connections it accepts, with the gate
  and the handler of the theory \<open>Ensure\<close>. A run of it is a list of connections, since its loop
  has no timeouts and no queue.
\<close>

section \<open>Runs\<close>

text \<open>One step after the other, until one raises.\<close>

fun run_all :: "('e \<Rightarrow> ('s, unit) prog) \<Rightarrow> 'e list \<Rightarrow> ('s, unit) prog" where
  "run_all step [] = return_p ()"
| "run_all step (e # es) = seq_p (step e) (run_all step es)"

text \<open>
  Isolation by unwinding: a step that is not visible returns and leaves the view alone, and a visible one
  raises what it raises and changes the view by the view alone. Then a run and the run without its
  invisible steps end alike and in the same view.
\<close>

locale isolation =
  fixes step :: "'e \<Rightarrow> ('s, unit) prog" and view :: "'s \<Rightarrow> 'v" and inv :: "'s \<Rightarrow> bool"
    and ok :: "'e \<Rightarrow> bool" and visible :: "'e \<Rightarrow> bool"
  assumes preserves: "inv s \<Longrightarrow> ok e \<Longrightarrow> inv (snd (step e s))"
    and locally_respects: "inv s \<Longrightarrow> ok e \<Longrightarrow> \<not> visible e \<Longrightarrow>
      fst (step e s) = Inr () \<and> view (snd (step e s)) = view s"
    and step_consistent: "inv s \<Longrightarrow> inv t \<Longrightarrow> ok e \<Longrightarrow> visible e \<Longrightarrow> view s = view t \<Longrightarrow>
      fst (step e s) = fst (step e t) \<and> view (snd (step e s)) = view (snd (step e t))"
begin

lemma purge:
  assumes "list_all ok es" and "inv s" and "inv t" and "view s = view t"
  shows "fst (run_all step es s) = fst (run_all step (filter visible es) t)
    \<and> view (snd (run_all step es s)) = view (snd (run_all step (filter visible es) t))"
  using assms
proof (induction es arbitrary: s t)
  case (Cons e es)
  then have ok: "ok e" "list_all ok es" by simp_all
  obtain r s1 where s1: "step e s = (r, s1)" by fastforce
  then have i1: "inv s1" using preserves [OF Cons.prems(2) ok(1)] by simp
  show ?case
  proof (cases "visible e")
    case True
    obtain q t1 where t1: "step e t = (q, t1)" by fastforce
    then have i2: "inv t1" using preserves [OF Cons.prems(3) ok(1)] by simp
    have "r = q" "view s1 = view t1"
      using step_consistent [OF Cons.prems(2,3) ok(1) True Cons.prems(4)] s1 t1 by simp_all
    with Cons.IH [OF ok(2) i1 i2] True s1 t1 show ?thesis
      by (cases q) (simp_all add: seq_p_def bind_p_def)
  next
    case False
    then have "r = Inr ()" "view s1 = view t"
      using locally_respects [OF Cons.prems(2) ok(1)] s1 Cons.prems(4) by simp_all
    with Cons.IH [OF ok(2) i1 Cons.prems(3)] False s1 show ?thesis by (simp add: seq_p_def bind_p_def)
  qed
qed (simp add: return_p_def)

lemma raises:
  assumes "\<And>e s x. inv s \<Longrightarrow> ok e \<Longrightarrow> fst (step e s) = Inl x \<Longrightarrow> P x"
  shows "list_all ok es \<Longrightarrow> inv s \<Longrightarrow> fst (run_all step es s) = Inl x \<Longrightarrow> P x"
proof (induction es arbitrary: s)
  case (Cons e es)
  obtain r s1 where s1: "step e s = (r, s1)" by fastforce
  show ?case
  proof (cases r)
    case (Inl y)
    then show ?thesis using Cons.prems s1 assms [of s e] by (simp add: seq_p_def bind_p_def)
  next
    case (Inr u)
    moreover have "inv s1" using preserves [of s e] Cons.prems(1,2) s1 by simp
    ultimately show ?thesis using Cons.IH [of s1] Cons.prems s1 by (simp add: seq_p_def bind_p_def)
  qed
qed (simp add: return_p_def)

end

section \<open>\<open>main\<close>\<close>

lemma ensure_main_serves:
  assumes "ensure_main pr s = (Inr (Inr srv), t)"
  shows "ensure_activated pr = Inr True \<and> sock_fd srv = 3 \<and> (\<exists>d. fds s 3 = Some d \<and> family srv = domain d)"
proof -
  from assms obtain so u v where "ensure_activated pr = Inr True" "listen_socket 3 s = (Inr so, u)"
    "server_on_socket so u = (Inr srv, v)"
    by (auto simp: ensure_main_def bind_p_eq_Inr seq_p_eq_Inr lift_p_Inr return_p_Inr LISTEN_FDS_START_def
        split: if_splits)
  then show ?thesis using server_on_socket_Inr listen_socket_Inr by blast
qed

lemma ensure_main_exits:
  assumes "ensure_main pr s = (Inr (Inl n), t)"
  shows "ensure_activated pr = Inr False \<and> n = 1 \<and> fds t = fds s
    \<and> stderr t = stderr s @ [us ''error: this service requires systemd socket activation'']"
  using assms
  by (auto simp: ensure_main_def bind_p_eq_Inr seq_p_eq_Inr lift_p_Inr return_p_Inr print_stderr_def modify_p_def
      split: if_splits)

section \<open>\<open>serve_forever\<close>\<close>

text \<open>
  Its standard error, what happens on its sockets, whether it waits for a client without end, and the
  handler's state with the units behind it.
\<close>

record 'w daemon =
  errors :: "ustr list"
  wire :: "sock_event list"
  parked :: bool
  helper :: "'w helper"

text \<open>\<open>TCPServer.shutdown_request\<close>.\<close>

definition tcp_shutdown :: "peer \<Rightarrow> sock_event list" where
  "tcp_shutdown p = (if shut_fault p = None then [Shut_wr (sock p)] else []) @ [Closed (sock p)]"

text \<open>
  \<open>EnsureHandler\<close> sets no \<open>timeout\<close>: a read for which the client sends nothing does not end, and with it
  the one thread of the helper. What a read that does end raises goes to \<open>handle_one_request\<close>.
\<close>

definition parks :: "(exn + unit) \<times> 'a conn_scheme \<Rightarrow> bool" where
  "parks rc \<longleftrightarrow> (case rc of (Inl e, c) \<Rightarrow> rend c = Peer_stalls \<and> is_os TimeoutError e | _ \<Rightarrow> False)"

text \<open>An \<open>Exception\<close> of the handler is reported and forgotten; a \<open>KeyboardInterrupt\<close> ends the helper.\<close>

definition crashes :: "exn + unit \<Rightarrow> bool" where
  "crashes r \<longleftrightarrow> (case r of Inl e \<Rightarrow> e \<noteq> KeyboardInterrupt | Inr _ \<Rightarrow> False)"

text \<open>\<open>_handle_request_noblock\<close>: a connection, from \<open>accept\<close> to the shutdown.\<close>

definition helper_connection ::
  "interp \<Rightarrow> os_env \<Rightarrow> 'w systemctl \<Rightarrow> peer \<times> client \<Rightarrow> ('w daemon, unit) prog" where
  "helper_connection py os run v d =
     (if parked d then (Inr (), d)
      else case v of (p, k) \<Rightarrow>
        let c = open_conn k (helper d); ev = wire d @ [Accepted (sock p)] in
        case ensure_verify os p (errors d) of
          (Inl e, l) \<Rightarrow> (Inl e, d\<lparr>errors := l, wire := ev\<rparr>)
        | (Inr False, l) \<Rightarrow> (Inr (), d\<lparr>errors := l, wire := ev @ tcp_shutdown p\<rparr>)
        | (Inr True, l) \<Rightarrow>
            (let rc = read_request py ensure_cls (ensure_request py run) c in
             if parks rc then (Inr (), d\<lparr>wire := ev, parked := True, helper := snd rc\<rparr>)
             else (case handle_raw py ensure_cls (ensure_request py run) c of
                     (r, c2) \<Rightarrow>
                       (if r = Inl KeyboardInterrupt then r else Inr (),
                        d\<lparr>errors := l @ (if crashes r then [us ''Exception occurred during processing of request''] else []),
                          wire := ev @ map (Sent (sock p)) (outputs (sent c2)) @ tcp_shutdown p,
                          helper := c2\<rparr>))))"

abbreviation helper_run where
  "helper_run py os run \<equiv> run_all (helper_connection py os run)"

fun readable_creds :: "peer \<times> client \<Rightarrow> bool" where
  "readable_creds (p, k) \<longleftrightarrow> (case peer_uid p of Inl e \<Rightarrow> is_OSError e | Inr _ \<Rightarrow> True)"

fun of_account :: "os_env \<Rightarrow> peer \<times> client \<Rightarrow> bool" where
  "of_account os (p, k) \<longleftrightarrow> peer_uid p = Inr (getuid os)"

section \<open>Whom it serves\<close>

abbreviation helper_view :: "'w daemon \<Rightarrow> bool \<times> 'w helper" where
  "helper_view d \<equiv> (parked d, helper d)"

text \<open>What a connection of the account makes of what is in view.\<close>

definition attend ::
  "interp \<Rightarrow> 'w systemctl \<Rightarrow> client \<Rightarrow> bool \<times> 'w helper \<Rightarrow> (exn + unit) \<times> bool \<times> 'w helper" where
  "attend py run k v =
     (if fst v then (Inr (), v)
      else let c = open_conn k (snd v); rc = read_request py ensure_cls (ensure_request py run) c
           in if parks rc then (Inr (), True, snd rc)
              else (case handle_raw py ensure_cls (ensure_request py run) c of
                      (r, c2) \<Rightarrow> (if r = Inl KeyboardInterrupt then r else Inr (), False, c2)))"

lemma connection_of_account:
  assumes "of_account os v"
  shows "\<exists>r d'. helper_connection py os run v d = (r, d') \<and> (r, helper_view d') = attend py run (snd v) (helper_view d)"
proof -
  obtain p k where v: "v = (p, k)" by (cases v)
  have "ensure_verify os p (errors d) = (Inr True, errors d)"
    using assms by (intro ensure_gate.admits_owner) (simp_all add: v)
  then show ?thesis by (simp add: helper_connection_def attend_def v Let_def split: prod.split)
qed

lemma connection_of_others:
  assumes "readable_creds v" and "\<not> of_account os v"
  shows "\<exists>d'. helper_connection py os run v d = (Inr (), d') \<and> helper_view d' = helper_view d"
  using assms by (cases v) (auto simp: helper_connection_def ensure_verify_def Let_def split: sum.splits)

interpretation helper_isolation: isolation "helper_connection py os run" helper_view "\<lambda>_. True" readable_creds "of_account os"
  for py os and run :: "'w systemctl"
proof unfold_locales
  fix d e :: "'w daemon" and v
  assume ok: "readable_creds v"
  show True ..
  show "fst (helper_connection py os run v d) = Inr () \<and> helper_view (snd (helper_connection py os run v d)) = helper_view d"
    if "\<not> of_account os v"
    using connection_of_others [OF ok that, of py run d] by auto
  show "fst (helper_connection py os run v d) = fst (helper_connection py os run v e)
    \<and> helper_view (snd (helper_connection py os run v d)) = helper_view (snd (helper_connection py os run v e))"
    if "of_account os v" "helper_view d = helper_view e"
    using connection_of_account [OF that(1), of py run d] connection_of_account [OF that(1), of py run e] that(2)
    by (metis prod.sel)
qed

lemma open_conn_units [simp]: "units (open_conn k c) = units c"
  by (simp add: open_conn_def)

lemma attend_units: "units (snd (snd (attend py run k v))) \<in> one_start run (units (snd v))"
  using read_one_start [of py run "open_conn k (snd v)"] handle_one_start [of py run "open_conn k (snd v)"]
  by (auto simp: attend_def Let_def one_start_def split: prod.split)

abbreviation user_name :: "ustr \<Rightarrow> bool" where
  "user_name u \<equiv> u \<noteq> [] \<and> name_start (hd u) \<and> list_all name_char u"

abbreviation start_user :: "'w systemctl \<Rightarrow> 'w \<Rightarrow> ustr \<Rightarrow> 'w" where
  "start_user run w u \<equiv> snd (run [us ''systemctl'', us ''start'', us ''flux-rest-server@'' @ u @ us ''.socket''] w)"

lemma one_start_users:
  assumes "w' \<in> one_start run w"
  shows "\<exists>us. length us \<le> 1 \<and> list_all user_name us \<and> w' = foldl (start_user run) w us"
  using assms unfolding one_start_def
proof (elim insertE CollectE exE conjE)
  assume "w' = w"
  then show ?thesis by (intro exI [of _ "[]"]) simp
next
  fix u
  assume "w' = start_user run w u" and "u \<noteq> []" "name_start (hd u)" "list_all name_char u"
  then show ?thesis by (intro exI [of _ "[u]"]) simp
qed

text \<open>Only a \<open>KeyboardInterrupt\<close> gets out of it.\<close>

lemma helper_raises:
  assumes "readable_creds v" and "fst (helper_connection py os run v d) = Inl e"
  shows "e = KeyboardInterrupt"
proof (cases "of_account os v")
  case True
  then show ?thesis
    using connection_of_account [OF True, of py run d] assms(2)
    by (auto simp: attend_def Let_def split: prod.splits if_splits)
next
  case False
  then show ?thesis using connection_of_others [OF assms(1) False, of py run d] assms(2) by auto
qed

lemma helper_run_starts:
  assumes "list_all readable_creds vs" and "helper_run py os run vs d = (r, d')"
  shows "\<exists>us. length us \<le> length (filter (of_account os) vs) \<and> list_all user_name us
    \<and> units (helper d') = foldl (start_user run) (units (helper d)) us"
  using assms
proof (induction vs arbitrary: d)
  case Nil
  then show ?case by (simp add: return_p_def)
next
  case (Cons v vs)
  obtain q e us where e: "helper_connection py os run v d = (q, e)"
    "length us \<le> length (filter (of_account os) [v])" "list_all user_name us"
    "units (helper e) = foldl (start_user run) (units (helper d)) us"
  proof (cases "of_account os v")
    case True
    from connection_of_account [OF this, of py run d] obtain q e where
      e: "helper_connection py os run v d = (q, e)" "helper e = snd (snd (attend py run (snd v) (helper_view d)))"
      by (metis snd_conv)
    with that True one_start_users [OF attend_units [of py run "snd v" "helper_view d"]] show ?thesis by auto
  next
    case False
    with that [of _ _ "[]"] connection_of_others [OF _ False, of py run d] Cons.prems(1) show ?thesis by auto
  qed
  show ?case
  proof (cases q)
    case (Inl x)
    with Cons.prems(2) e(1) have "d' = e" by (simp add: seq_p_def bind_p_def)
    with e show ?thesis by (intro exI [of _ us]) (auto split: if_splits)
  next
    case (Inr x)
    with Cons.prems(2) e(1) have "helper_run py os run vs e = (r, d')" by (simp add: seq_p_def bind_p_def)
    with Cons.IH [of e] Cons.prems(1) obtain us' where "length us' \<le> length (filter (of_account os) vs)"
      "list_all user_name us'" "units (helper d') = foldl (start_user run) (units (helper e)) us'" by auto
    with e show ?thesis by (intro exI [of _ "us @ us'"]) (auto split: if_splits)
  qed
qed

text \<open>
  C16. The helper works for the web server's account alone, over any run of connections: nothing that
  other users connect with and send leaves a trace in it, not even one that keeps it waiting; the
  connections of the account bring about, in this order, at most one \<open>systemctl start\<close> each, of the
  socket units of users with proper names; and nothing but the interrupt of a signal gets out of its loop.
\<close>

theorem helper_serves_account:
  assumes "list_all readable_creds vs" and "helper_run py os run vs d = (r, d')"
  shows "(\<exists>e. helper_run py os run (filter (of_account os) vs) d = (r, e) \<and> helper e = helper d' \<and> parked e = parked d')
    \<and> (\<exists>us. length us \<le> length (filter (of_account os) vs) \<and> list_all user_name us
         \<and> units (helper d') = foldl (start_user run) (units (helper d)) us)
    \<and> (\<forall>e. r = Inl e \<longrightarrow> e = KeyboardInterrupt)"
proof -
  obtain q e where e: "helper_run py os run (filter (of_account os) vs) d = (q, e)" by fastforce
  have "q = r" "helper_view e = helper_view d'"
    using helper_isolation.purge [OF assms(1), where s = d and t = d and py = py and os = os and run = run] assms(2) e by auto
  moreover have "x = KeyboardInterrupt" if "r = Inl x" for x
  proof (rule helper_isolation.raises [where P = "\<lambda>e. e = KeyboardInterrupt" and s = d and py = py and os = os
        and run = run, OF _ assms(1)])
    show "fst (helper_run py os run vs d) = Inl x" using assms(2) that by simp
  qed (use helper_raises in auto)
  ultimately show ?thesis using e helper_run_starts [OF assms] by auto
qed

text \<open>
  A client of the account that connects and says nothing stops the helper for good: the connection
  is not closed, and none after it is accepted.
\<close>

theorem helper_wedged:
  assumes "of_account os v" and "input (snd v) = []" and "input_end (snd v) = Peer_stalls" and "\<not> parked d"
  shows "\<exists>d'. helper_run py os run (v # vs) d = (Inr (), d') \<and> parked d'
    \<and> wire d' = wire d @ [Accepted (sock (fst v))]"
proof -
  obtain p k where v: "v = (p, k)" by (cases v)
  let ?c = "open_conn k (helper d)"
  have "rfile_readline (Suc MAXLINE) ?c = (Inl (OSError TimeoutError None (us ''timed out'')), ?c\<lparr>rfile := []\<rparr>)"
    using assms(2,3) by (simp add: v rfile_readline_def rfile_read_def MAXLINE_def)
  then have parks: "parks (read_request py ensure_cls (ensure_request py run) ?c)"
    using assms(3) by (simp add: parks_def read_request_def bind_p_def v)
  have "ensure_verify os p (errors d) = (Inr True, errors d)"
    using assms(1) by (intro ensure_gate.admits_owner) (simp_all add: v)
  with parks assms(4) obtain d' where d: "helper_connection py os run v d = (Inr (), d')" "parked d'"
    "wire d' = wire d @ [Accepted (sock p)]"
    by (simp add: helper_connection_def v Let_def)
  have "helper_run py os run vs d' = (Inr (), d')" for vs
    using d(2) by (induction vs) (simp_all add: helper_connection_def return_p_def seq_p_def bind_p_def)
  with d show ?thesis by (simp add: seq_p_def bind_p_def v)
qed

section \<open>On the sample\<close>

definition sample_daemon :: "string list daemon" where
  "sample_daemon = \<lparr>errors = [], wire = [], parked = False, helper = sample_helper\<rparr>"

lemma helper_serves_account_witness:
  "let vs = [(sample_peer 5 0, sample_client\<lparr>input_end := Peer_stalls\<rparr>), (sample_peer 6 1000, sample_client)] in
   \<exists>r d'. helper_run sample_py sample_os (complaining ''no'') vs sample_daemon = (r, d')
     \<and> (\<exists>e. helper_run sample_py sample_os (complaining ''no'') [(sample_peer 6 1000, sample_client)] sample_daemon = (r, e)
          \<and> helper e = helper d')"
proof -
  let ?vs = "[(sample_peer 5 0, sample_client\<lparr>input_end := Peer_stalls\<rparr>), (sample_peer 6 1000, sample_client)]"
  have "getuid sample_os = 1000" by (simp add: sample_os_def)
  then have own: "filter (of_account sample_os) ?vs = [(sample_peer 6 1000, sample_client)]"
    and ok: "list_all readable_creds ?vs" by (simp_all add: sample_uid)
  obtain r d' where run: "helper_run sample_py sample_os (complaining ''no'') ?vs sample_daemon = (r, d')" by fastforce
  from helper_serves_account [OF ok run, unfolded own] run show ?thesis unfolding Let_def by blast
qed

lemma helper_wedged_witness:
  "\<exists>d'. helper_run sample_py sample_os (complaining ''no'')
      [(sample_peer 5 1000, sample_client\<lparr>input := [], input_end := Peer_stalls\<rparr>), (sample_peer 6 1000, sample_client)]
      sample_daemon = (Inr (), d')
    \<and> wire d' = [Accepted 5]"
proof -
  let ?v = "(sample_peer 5 1000, sample_client\<lparr>input := [], input_end := Peer_stalls\<rparr>)"
  have "of_account sample_os ?v" by (simp add: sample_uid sample_os_def)
  moreover have "\<not> parked sample_daemon" "wire sample_daemon = []" "sock (fst ?v) = 5"
    by (simp_all add: sample_daemon_def sample_peer_def)
  ultimately show ?thesis
    using helper_wedged [of sample_os ?v sample_daemon sample_py "complaining ''no''" "[(sample_peer 6 1000, sample_client)]"]
    by auto
qed

end
