(* ===== verification/Jwt_Auth.thy ===== *)
theory Jwt_Auth
  imports Ensure Argparse_Spec
begin

text \<open>
  \<open>jwt-auth.py\<close>, a stand-in for nginx's \<open>auth_request\<close> that trades a bearer token for a user
  name. PyJWT (the key lookup and the verification), httpx, uvicorn and the response class are
  parameters; what is modelled is what the script does with them.
\<close>

section \<open>\<open>str.replace\<close>\<close>

text \<open>\<open>s.replace(old, '')\<close> for a non-empty \<open>old\<close>: every occurrence, from the left.\<close>

function py_remove :: "ustr \<Rightarrow> ustr \<Rightarrow> ustr" where
  "py_remove old s =
     (if s = [] then []
      else if old \<noteq> [] \<and> py_startswith old s then py_remove old (drop (length old) s)
      else hd s # py_remove old (tl s))"
  by pat_completeness auto
termination
  by (relation "measure (\<lambda>(old, s). length s)") auto

declare py_remove.simps [simp del]

section \<open>The library, as the script uses it\<close>

record ('key, 'r) jwt_lib =
  get_signing_key_from_jwt :: "ustr \<Rightarrow> exn + 'key"
  jwt_decode :: "ustr \<Rightarrow> 'key \<Rightarrow> ustr list \<Rightarrow> exn + (ustr \<times> json) list"
  Response :: "nat \<Rightarrow> (ustr \<times> json) list \<Rightarrow> exn + 'r"

section \<open>\<open>create_app\<close>\<close>

definition bearer :: ustr where
  "bearer = us ''Bearer ''"

definition ALGORITHMS :: "ustr list" where
  "ALGORITHMS = [us ''RS256'', us ''ES256'']"

text \<open>The body of the \<open>try\<close>, then \<open>validate\<close>, both of whose handlers answer 401.\<close>

definition validated :: "('key, 'r) jwt_lib \<Rightarrow> ustr \<Rightarrow> exn + 'r" where
  "validated lib token =
     (case get_signing_key_from_jwt lib token of
        Inl e \<Rightarrow> Inl e
      | Inr signing_key \<Rightarrow>
          (case jwt_decode lib token signing_key ALGORITHMS of
             Inl e \<Rightarrow> Inl e
           | Inr payload \<Rightarrow>
               (case map_of payload (us ''sub'') of
                  None \<Rightarrow> Response lib 401 []
                | Some u \<Rightarrow> if falsy (Some u) then Response lib 401 []
                            else Response lib 200 [(us ''X-User'', u)])))"

definition validate :: "('key, 'r) jwt_lib \<Rightarrow> ustr option \<Rightarrow> exn + 'r" where
  "validate lib authorization =
     (case authorization of
        None \<Rightarrow> Response lib 401 []
      | Some a \<Rightarrow>
          if a = [] \<or> \<not> py_startswith bearer a then Response lib 401 []
          else (case validated lib (py_remove bearer a) of
                  Inl e \<Rightarrow> if e = KeyboardInterrupt then Inl e else Response lib 401 []
                | Inr r \<Rightarrow> Inr r))"

definition jwt_health :: json where
  "jwt_health = json_obj [(''status'', JStr (us ''ok''))]"

section \<open>\<open>main\<close>\<close>

record jwt_args =
  jwks_url :: "ustr option"
  jwt_host :: ustr
  jwt_port :: int
  cache_ttl :: int

definition JWT_OPTIONS :: "jwt_args options" where
  "JWT_OPTIONS =
     [(us ''-h'', Help), (us ''--help'', Help),
      (us ''--jwks-url'', Store (\<lambda>v. Inr (\<lambda>a. a\<lparr>jwks_url := Some v\<rparr>))),
      (us ''--host'', Store (\<lambda>v. Inr (\<lambda>a. a\<lparr>jwt_host := v\<rparr>))),
      (us ''--port'', Store (\<lambda>v. map_sum id (\<lambda>n a. a\<lparr>jwt_port := n\<rparr>) (text_int v))),
      (us ''--cache-ttl'', Store (\<lambda>v. map_sum id (\<lambda>n a. a\<lparr>cache_ttl := n\<rparr>) (text_int v)))]"

definition JWT_DEFAULTS :: jwt_args where
  "JWT_DEFAULTS = \<lparr>jwks_url = None, jwt_host = us ''127.0.0.1'', jwt_port = 8080, cache_ttl = 300\<rparr>"

text \<open>\<open>--jwks-url\<close> is required.\<close>

definition jwt_command_line :: "ustr list \<Rightarrow> exn + nat + jwt_args" where
  "jwt_command_line argv = parse_args JWT_OPTIONS (\<lambda>a. jwks_url a \<noteq> None) JWT_DEFAULTS argv"

text \<open>The app, by the two values it is made from, with the address it is run on.\<close>

record jwt_app =
  app_jwks_url :: ustr
  app_lifespan :: int
  app_host :: ustr
  app_port :: int

text \<open>The state is standard error; \<open>Inl\<close> an exit status, \<open>Inr\<close> the app that is run.\<close>

definition jwt_start ::
  "(ustr \<Rightarrow> exn + 'resp) \<Rightarrow> ('resp \<Rightarrow> exn + unit) \<Rightarrow> ustr \<Rightarrow> jwt_app \<Rightarrow> (ustr list, nat + jwt_app) prog" where
  "jwt_start httpx_get raise_for_status url app =
      catch_p
        (bind_p (lift_p (httpx_get url)) (\<lambda>response.
           seq_p (lift_p (raise_for_status response)) (return_p (Inr app))))
        (\<lambda>e. if e = KeyboardInterrupt then raise_p e
              else seq_p (modify_p (\<lambda>err. err @ [us ''Error: Could not fetch JWKS from '' @ url @ us '': '' @ exn_str e]))
                         (return_p (Inl 1)))"

definition jwt_main ::
  "(ustr \<Rightarrow> exn + 'resp) \<Rightarrow> ('resp \<Rightarrow> exn + unit) \<Rightarrow> ustr list \<Rightarrow> (ustr list, nat + jwt_app) prog" where
  "jwt_main httpx_get raise_for_status argv =
     bind_p (lift_p (jwt_command_line argv)) (\<lambda>p. case p of
       Inl code \<Rightarrow> return_p (Inl code)
     | Inr a \<Rightarrow>
         (let url = the (jwks_url a) in
          jwt_start httpx_get raise_for_status url
            \<lparr>app_jwks_url = url, app_lifespan = cache_ttl a, app_host = jwt_host a, app_port = jwt_port a\<rparr>))"

lemma jwt_start_runs:
  "jwt_start get raise url app s = (Inr (Inr app'), t) \<longleftrightarrow>
     (\<exists>r. get url = Inr r \<and> raise r = Inr ()) \<and> app' = app \<and> t = s"
  by (auto simp: jwt_start_def catch_p_def bind_p_def seq_p_def prog_simps split: sum.splits if_splits)

lemma jwt_well_formed: "well_formed JWT_OPTIONS"
  by (simp add: well_formed_def JWT_OPTIONS_def us_Cons py_startswith_def)

text \<open>
  The service runs exactly if the command line is a sequence of settings that give a URL, and the keys
  can be fetched from it.
\<close>

lemma jwt_main_runs:
  "jwt_main get raise argv s = (Inr (Inr app), t) \<longleftrightarrow>
     (\<exists>sps url r. argv = concat (map words sps) \<and> list_all (\<lambda>sp. meaning JWT_OPTIONS sp \<noteq> None) sps
        \<and> (let a = settings JWT_OPTIONS sps JWT_DEFAULTS in jwks_url a = Some url
            \<and> app = \<lparr>app_jwks_url = url, app_lifespan = cache_ttl a, app_host = jwt_host a, app_port = jwt_port a\<rparr>)
        \<and> get url = Inr r \<and> raise r = Inr () \<and> t = s)"
proof -
  have "jwt_main get raise argv s = (Inr (Inr app), t) \<longleftrightarrow>
     (\<exists>a url r. jwt_command_line argv = Inr (Inr a) \<and> jwks_url a = Some url
        \<and> app = \<lparr>app_jwks_url = url, app_lifespan = cache_ttl a, app_host = jwt_host a, app_port = jwt_port a\<rparr>
        \<and> get url = Inr r \<and> raise r = Inr () \<and> t = s)"
    using parse_args_given [of JWT_OPTIONS "\<lambda>a. jwks_url a \<noteq> None" JWT_DEFAULTS argv]
    by (auto simp: jwt_main_def bind_p_def lift_p_def return_p_def Let_def jwt_start_runs jwt_command_line_def
        split: sum.splits)
  also have "\<dots> \<longleftrightarrow> (\<exists>sps url r. argv = concat (map words sps) \<and> list_all (\<lambda>sp. meaning JWT_OPTIONS sp \<noteq> None) sps
        \<and> (let a = settings JWT_OPTIONS sps JWT_DEFAULTS in jwks_url a = Some url
            \<and> app = \<lparr>app_jwks_url = url, app_lifespan = cache_ttl a, app_host = jwt_host a, app_port = jwt_port a\<rparr>)
        \<and> get url = Inr r \<and> raise r = Inr () \<and> t = s)"
    unfolding jwt_command_line_def parse_args_decides [OF jwt_well_formed] Let_def by (rule iffI) (elim exE conjE; blast)+
  finally show ?thesis .
qed

section \<open>Who is let through\<close>

text \<open>
  What the response class does: a 401 without headers can always be made; a header value must be
  a text that ISO-8859-1 can encode. \<open>out None\<close> is the 401, \<open>out (Some u)\<close> the 200 for \<open>u\<close>.
\<close>

definition response_class :: "('key, 'r) jwt_lib \<Rightarrow> (ustr option \<Rightarrow> 'r) \<Rightarrow> bool" where
  "response_class lib out \<longleftrightarrow> Response lib 401 [] = Inr (out None)
     \<and> (\<forall>v. case v of
          JStr u \<Rightarrow> if latin1 u then Response lib 200 [(us ''X-User'', v)] = Inr (out (Some u))
                    else (\<exists>e. Response lib 200 [(us ''X-User'', v)] = Inl e)
        | _ \<Rightarrow> (\<exists>e. Response lib 200 [(us ''X-User'', v)] = Inl e))"

text \<open>The user a request is let through as.\<close>

definition authenticated :: "('key, 'r) jwt_lib \<Rightarrow> ustr option \<Rightarrow> ustr \<Rightarrow> bool" where
  "authenticated lib authorization u \<longleftrightarrow>
     (case authorization of
        None \<Rightarrow> False
      | Some a \<Rightarrow> py_startswith bearer a \<and> u \<noteq> [] \<and> latin1 u
          \<and> (case get_signing_key_from_jwt lib (py_remove bearer a) of
               Inl e \<Rightarrow> False
             | Inr key \<Rightarrow>
                 (case jwt_decode lib (py_remove bearer a) key [us ''RS256'', us ''ES256''] of
                    Inl e \<Rightarrow> False
                  | Inr payload \<Rightarrow> map_of payload (us ''sub'') = Some (JStr u))))"

lemma response_user:
  assumes "response_class lib out" and "v \<noteq> JStr u \<or> \<not> latin1 u"
  shows "Response lib 200 [(us ''X-User'', v)] \<noteq> Inr (out (Some u)) \<or> (\<exists>w. v = JStr w \<and> latin1 w)"
  using assms unfolding response_class_def by (cases v) (auto dest!: spec [of _ v] split: if_splits)

lemma validated_cases:
  assumes lib: "response_class lib out" and start: "py_startswith bearer a"
  shows "(\<exists>u. validated lib (py_remove bearer a) = Inr (out (Some u)) \<and> (\<forall>w. authenticated lib (Some a) w \<longleftrightarrow> w = u))
    \<or> ((\<exists>e. validated lib (py_remove bearer a) = Inl e) \<or> validated lib (py_remove bearer a) = Inr (out None))
        \<and> (\<forall>w. \<not> authenticated lib (Some a) w)"
proof (cases "get_signing_key_from_jwt lib (py_remove bearer a)")
  case (Inl e)
  then show ?thesis by (simp add: validated_def authenticated_def)
next
  case key: (Inr key)
  show ?thesis
  proof (cases "jwt_decode lib (py_remove bearer a) key ALGORITHMS")
    case (Inl e)
    with key show ?thesis by (simp add: validated_def authenticated_def ALGORITHMS_def)
  next
    case payload: (Inr payload)
    note simps = validated_def authenticated_def key payload payload [unfolded ALGORITHMS_def] start
    have r401: "Response lib 401 [] = Inr (out None)" using lib by (simp add: response_class_def)
    show ?thesis
    proof (cases "map_of payload (us ''sub'')")
      case None
      then show ?thesis by (simp add: simps r401)
    next
      case (Some v)
      have v: "case v of
          JStr u \<Rightarrow> if latin1 u then Response lib 200 [(us ''X-User'', v)] = Inr (out (Some u))
                    else (\<exists>e. Response lib 200 [(us ''X-User'', v)] = Inl e)
        | _ \<Rightarrow> (\<exists>e. Response lib 200 [(us ''X-User'', v)] = Inl e)"
        using lib by (simp add: response_class_def)
      with Some show ?thesis by (cases v) (auto simp: simps r401 split: if_splits)
    qed
  qed
qed

text \<open>
  C34. \<open>validate\<close> always answers, and answers 200 with \<open>X-User: u\<close> exactly when the header has the
  bearer scheme, the key of the token is found, the library verifies the token against that key
  under RS256 or ES256, and the verified subject is the non-empty string \<open>u\<close>; every failure of any
  of these, whatever \<open>Exception\<close> is raised, is a 401. A \<open>KeyboardInterrupt\<close> alone gets out, and lets nobody through.
\<close>

theorem validate_decides:
  assumes "response_class lib out"
  shows "(\<exists>w. validate lib authorization = Inr (out w) \<and> (\<forall>u. w = Some u \<longleftrightarrow> authenticated lib authorization u))
    \<or> (validate lib authorization = Inl KeyboardInterrupt \<and> (\<forall>u. \<not> authenticated lib authorization u))"
proof (cases authorization)
  case None
  with assms show ?thesis by (intro disjI1 exI [of _ None]) (simp add: validate_def authenticated_def response_class_def)
next
  case (Some a)
  have r401: "Response lib 401 [] = Inr (out None)" using assms by (simp add: response_class_def)
  show ?thesis
  proof (cases "py_startswith bearer a")
    case False
    with Some r401 show ?thesis by (intro disjI1 exI [of _ None]) (simp add: validate_def authenticated_def)
  next
    case True
    then have "a \<noteq> []" by (auto simp: py_startswith_def bearer_def us_Cons)
    with validated_cases [OF assms True] True Some r401 show ?thesis
      by (auto simp: validate_def split: if_splits)
  qed
qed

text \<open>
  The scheme is removed wherever it occurs: a header that repeats it, before the token or inside
  it, is read as one that does not.
\<close>

theorem bearer_repeated:
  "validate lib (Some (bearer @ bearer @ t)) = validate lib (Some (bearer @ t))"
proof -
  have "bearer \<noteq> []" by (simp add: bearer_def)
  then have "py_remove bearer (bearer @ x) = py_remove bearer x" for x
    by (subst py_remove.simps) simp
  then show ?thesis by (simp add: validate_def \<open>bearer \<noteq> []\<close>)
qed

text \<open>A token in which it does not occur is handed on as it is.\<close>

lemma py_remove_absent: "\<not> py_in p s \<Longrightarrow> py_remove p s = s"
proof (induction s)
  case (Cons c s)
  then show ?case by (subst py_remove.simps) auto
qed (simp add: py_remove.simps)

lemma token_exact: "\<not> py_in bearer t \<Longrightarrow> py_remove bearer (bearer @ t) = t"
  by (subst py_remove.simps) (simp add: bearer_def py_remove_absent)

section \<open>On a concrete library\<close>

definition sample_jwt :: "(unit, ustr option) jwt_lib" where
  "sample_jwt = \<lparr>
     get_signing_key_from_jwt = (\<lambda>t. if t = us ''forged'' then Inl (OtherException (us ''PyJWKClientError'')) else Inr ()),
     jwt_decode = (\<lambda>t k algs. Inr [(us ''sub'', JStr t)]),
     Response = (\<lambda>code hs. case hs of
         [] \<Rightarrow> Inr None
       | (_, v) # _ \<Rightarrow> (case v of JStr u \<Rightarrow> if latin1 u then Inr (Some u) else Inl (ValueError []) | _ \<Rightarrow> Inl (TypeError [])))\<rparr>"

lemma sample_response_class: "response_class sample_jwt (\<lambda>u. u)"
  by (simp add: response_class_def sample_jwt_def split: json.split)

lemma validate_decides_witness: "validate sample_jwt (Some (us ''Bearer alice'')) = Inr (Some (us ''alice''))"
proof -
  have eq: "us ''Bearer alice'' = bearer @ us ''alice''" by (simp add: bearer_def lit_simps)
  have "\<not> py_in bearer (us ''alice'')" by (simp add: bearer_def py_startswith_def lit_simps)
  then have "py_remove bearer (us ''Bearer alice'') = us ''alice''" unfolding eq by (rule token_exact)
  then have "authenticated sample_jwt (Some (us ''Bearer alice'')) (us ''alice'')"
    by (simp add: authenticated_def sample_jwt_def py_startswith_def bearer_def lit_simps)
  with validate_decides [OF sample_response_class, of "Some (us ''Bearer alice'')"] show ?thesis by auto
qed

end
