(* ===== verification/OpenApi.thy ===== *)
theory OpenApi
  imports Sample "HOL-Library.List_Lexorder" "HOL-Library.Product_Lexorder"
begin

text \<open>
  \<open>openapi-check.py\<close>: the routes the server implements, read off its own tables, against the
  operations the OpenAPI document describes. The YAML loader, the conformance validator and the
  import of the server's source are parameters.
\<close>

section \<open>Documents and modules\<close>

datatype yaml = YNull | YStr ustr | YMap "(ustr \<times> yaml) list" | YSeq "yaml list"

type_synonym operation = "ustr \<times> ustr"

text \<open>What the check reads of the server module; a job route that is missing or None is \<open>False\<close>.\<close>

record server_module =
  mod_prefix :: ustr
  mod_get :: "ustr list"
  mod_post :: "ustr list"
  mod_get_job :: bool
  mod_delete_job :: bool

definition HTTP_METHODS :: "ustr list" where
  "HTTP_METHODS = map us [''get'', ''put'', ''post'', ''delete'', ''patch'', ''head'', ''options'', ''trace'']"

section \<open>The two sets of operations\<close>

definition relative_path :: "ustr \<Rightarrow> ustr \<Rightarrow> ustr" where
  "relative_path prefix p = (let r = drop (length prefix) p in if r = [] then us ''/'' else r)"

definition implemented_operations :: "server_module \<Rightarrow> operation list" where
  "implemented_operations m =
     concat (map (\<lambda>(method, table). map (\<lambda>p. (relative_path (mod_prefix m) p, method)) table)
       [(us ''get'', mod_get m), (us ''post'', mod_post m)])
     @ concat (map (\<lambda>(method, present). if present then [(us ''/jobs/{jobid}'', method)] else [])
       [(us ''get'', mod_get_job m), (us ''delete'', mod_delete_job m)])"

text \<open>
  Python's view of a node: \<open>x or {}\<close>, \<open>x.items()\<close>, and iterating over a node, which yields the
  keys of a mapping, the elements of a sequence and the characters of a string.
\<close>

fun or_empty :: "yaml option \<Rightarrow> yaml" where
  "or_empty None = YMap []"
| "or_empty (Some YNull) = YMap []"
| "or_empty (Some (YStr s)) = (if s = [] then YMap [] else YStr s)"
| "or_empty (Some (YMap m)) = YMap m"
| "or_empty (Some (YSeq s)) = (if s = [] then YMap [] else YSeq s)"

definition no_attribute :: exn where
  "no_attribute = OtherException (us ''AttributeError'')"

fun yaml_items :: "yaml \<Rightarrow> exn + (ustr \<times> yaml) list" where
  "yaml_items (YMap m) = Inr m"
| "yaml_items _ = Inl no_attribute"

fun yaml_iter :: "yaml \<Rightarrow> exn + yaml list" where
  "yaml_iter (YMap m) = Inr (map (\<lambda>(k, _). YStr k) m)"
| "yaml_iter (YSeq s) = Inr s"
| "yaml_iter (YStr s) = Inr (map (\<lambda>c. YStr [c]) s)"
| "yaml_iter YNull = Inl (TypeError (us ''object is not iterable''))"

text \<open>\<open>key in HTTP_METHODS\<close> hashes the key first.\<close>

fun path_operations :: "ustr \<Rightarrow> yaml list \<Rightarrow> exn + operation list" where
  "path_operations p [] = Inr []"
| "path_operations p (YStr k # ks) =
     map_sum id (\<lambda>ops. if k \<in> set HTTP_METHODS then (p, k) # ops else ops) (path_operations p ks)"
| "path_operations p (YNull # ks) = path_operations p ks"
| "path_operations p (_ # ks) = Inl (TypeError (us ''unhashable type''))"

fun item_operations :: "(ustr \<times> yaml) list \<Rightarrow> exn + operation list" where
  "item_operations [] = Inr []"
| "item_operations ((p, item) # items) =
     (case yaml_iter item of
        Inl e \<Rightarrow> Inl e
      | Inr ks \<Rightarrow>
          (case path_operations p ks of
             Inl e \<Rightarrow> Inl e
           | Inr ops \<Rightarrow> map_sum id ((@) ops) (item_operations items)))"

definition documented_operations :: "yaml \<Rightarrow> exn + operation list" where
  "documented_operations spec =
     (case spec of
        YMap m \<Rightarrow> (case yaml_items (or_empty (map_of m (us ''paths''))) of
                     Inl e \<Rightarrow> Inl e
                   | Inr items \<Rightarrow> item_operations items)
      | _ \<Rightarrow> Inl no_attribute)"

section \<open>\<open>main\<close>\<close>

datatype check_end = Ok | Usage | Undocumented "operation list" | Unimplemented "operation list"

text \<open>\<open>sorted\<close> of the difference of two sets.\<close>

definition difference :: "operation list \<Rightarrow> operation list \<Rightarrow> operation list" where
  "difference a b = sort (remdups (filter (\<lambda>x. x \<notin> set b) a))"

definition openapi_main ::
  "(ustr \<Rightarrow> exn + yaml) \<Rightarrow> (yaml \<Rightarrow> exn + unit) \<Rightarrow> (ustr \<Rightarrow> exn + server_module) \<Rightarrow> ustr list \<Rightarrow> exn + check_end" where
  "openapi_main safe_load validate load_server args =
     (case args of
        [] \<Rightarrow> Inr Usage
      | spec_path # rest \<Rightarrow>
          (case safe_load spec_path of
             Inl e \<Rightarrow> Inl e
           | Inr spec \<Rightarrow>
               (case validate spec of
                  Inl e \<Rightarrow> Inl e
                | Inr _ \<Rightarrow>
                    (case rest of
                       [] \<Rightarrow> Inr Ok
                     | server_path # _ \<Rightarrow>
                         (case load_server server_path of
                            Inl e \<Rightarrow> Inl e
                          | Inr server \<Rightarrow>
                              (case documented_operations spec of
                                 Inl e \<Rightarrow> Inl e
                               | Inr documented \<Rightarrow>
                                   let implemented = implemented_operations server;
                                       missing = difference implemented documented;
                                       extra = difference documented implemented
                                   in Inr (if missing \<noteq> [] then Undocumented missing
                                           else if extra \<noteq> [] then Unimplemented extra
                                           else Ok)))))))"

section \<open>What the check decides\<close>

lemma set_difference [simp]: "set (difference a b) = set a - set b"
  by (auto simp: difference_def)

lemma difference_empty: "difference a b = [] \<longleftrightarrow> set a \<subseteq> set b"
  using set_difference [of a b] by (metis Diff_eq_empty_iff set_empty)

lemma sorted_difference: "sorted (difference a b)" "distinct (difference a b)"
  by (simp_all add: difference_def)

lemma difference_sorted: "difference a b = sorted_list_of_set (set a - set b)"
  by (simp add: difference_def sorted_list_of_set_sort_remdups [symmetric] set_diff_eq)

text \<open>
  What the two sets are, without the code's loops: a path of the document stands for the same path
  under the prefix in a route table, and \<open>/\<close> for the bare prefix, too; a document describes the methods its
  path items have among their keys.
\<close>

definition routed :: "ustr \<Rightarrow> ustr list \<Rightarrow> ustr \<Rightarrow> bool" where
  "routed prefix table p \<longleftrightarrow> p \<noteq> [] \<and> prefix @ p \<in> set table \<or> p = us ''/'' \<and> prefix \<in> set table"

definition implements :: "server_module \<Rightarrow> operation set" where
  "implements m = {(p, method). (method = us ''get'' \<and> routed (mod_prefix m) (mod_get m) p)
     \<or> (method = us ''post'' \<and> routed (mod_prefix m) (mod_post m) p)
     \<or> (p = us ''/jobs/{jobid}'' \<and> (method = us ''get'' \<and> mod_get_job m \<or> method = us ''delete'' \<and> mod_delete_job m))}"

definition describes :: "(ustr \<times> yaml) list \<Rightarrow> operation set" where
  "describes items = {(p, method). \<exists>m. (p, YMap m) \<in> set items \<and> method \<in> set (map fst m)
     \<and> method \<in> us ` {''get'', ''put'', ''post'', ''delete'', ''patch'', ''head'', ''options'', ''trace''}}"

definition under_prefix :: "server_module \<Rightarrow> bool" where
  "under_prefix m \<longleftrightarrow> list_all (py_startswith (mod_prefix m)) (mod_get m @ mod_post m)"

lemma relative_routed:
  assumes "list_all (py_startswith prefix) table"
  shows "(\<exists>r \<in> set table. relative_path prefix r = p) \<longleftrightarrow> routed prefix table p"
proof
  assume "\<exists>r \<in> set table. relative_path prefix r = p"
  then obtain r where r: "r \<in> set table" "relative_path prefix r = p" by blast
  then obtain q where "r = prefix @ q" using assms by (auto simp: list_all_iff py_startswith_iff)
  with r show "routed prefix table p" by (cases q) (auto simp: routed_def relative_path_def us_Cons)
next
  assume "routed prefix table p"
  then consider "p \<noteq> []" "prefix @ p \<in> set table" | "p = us ''/''" "prefix \<in> set table" by (auto simp: routed_def)
  then show "\<exists>r \<in> set table. relative_path prefix r = p"
    by cases (auto simp: relative_path_def intro: bexI [of _ "prefix @ p"] bexI [of _ prefix])
qed

lemma set_implemented:
  assumes "under_prefix m"
  shows "set (implemented_operations m) = implements m"
proof -
  have "list_all (py_startswith (mod_prefix m)) (mod_get m)" "list_all (py_startswith (mod_prefix m)) (mod_post m)"
    using assms by (simp_all add: under_prefix_def)
  note r = this [THEN relative_routed, symmetric]
  show ?thesis
    unfolding implements_def r by (auto simp: implemented_operations_def)
qed

lemma path_operations_keys:
  "path_operations p (map (\<lambda>(k, _). YStr k) m) = Inr (map (Pair p) (filter (\<lambda>k. k \<in> set HTTP_METHODS) (map fst m)))"
  by (induction m) auto

lemma set_documented:
  assumes "list_all (\<lambda>(p, i). \<exists>m. i = YMap m) items"
  shows "\<exists>ops. item_operations items = Inr ops \<and> set ops = describes items"
  using assms
proof (induction items)
  case (Cons i items)
  then obtain p m ops where i: "i = (p, YMap m)" "item_operations items = Inr ops" "set ops = describes items" by auto
  have "set HTTP_METHODS = us ` {''get'', ''put'', ''post'', ''delete'', ''patch'', ''head'', ''options'', ''trace''}"
    by (simp add: HTTP_METHODS_def)
  then have "set (map (Pair p) (filter (\<lambda>k. k \<in> set HTTP_METHODS) (map fst m))) \<union> describes items = describes (i # items)"
    unfolding describes_def i(1) by auto
  with i show ?case by (simp add: path_operations_keys)
qed (simp add: describes_def)

text \<open>
  C37. The check given a well-formed document and the server's source: it prints ok exactly when
  the document describes what the server implements; if something that is implemented is not described, it fails
  naming exactly these operations, in order and each once; and otherwise it fails naming exactly the operations that are described
  and not implemented. What a server implements are the routes of its tables under the prefix and the job routes it has, for
  this server five operations.
\<close>

theorem openapi_main_decides:
  assumes "safe_load p = Inr (YMap doc)" and "validate (YMap doc) = Inr ()" and "load_server q = Inr server"
    and "map_of doc (us ''paths'') = Some (YMap items)" and "list_all (\<lambda>(p, i). \<exists>m. i = YMap m) items"
    and "under_prefix server"
  shows "openapi_main safe_load validate load_server (p # q # rest) = Inr
      (if implements server = describes items then Ok
       else if implements server - describes items \<noteq> {} then Undocumented (sorted_list_of_set (implements server - describes items))
       else Unimplemented (sorted_list_of_set (describes items - implements server)))"
proof -
  obtain ops where d: "documented_operations (YMap doc) = Inr ops" "set ops = describes items"
    using set_documented [OF assms(5)] assms(4) by (auto simp: documented_operations_def)
  have eq: "(implements server = describes items)
      = (difference (implemented_operations server) ops = [] \<and> difference ops (implemented_operations server) = [])"
    by (auto simp: difference_empty set_implemented [OF assms(6)] d(2))
  have sub: "(implements server - describes items \<noteq> {}) = (difference (implemented_operations server) ops \<noteq> [])"
    by (simp add: difference_empty set_implemented [OF assms(6)] d(2))
  have "openapi_main safe_load validate load_server (p # q # rest) = Inr
      (if difference (implemented_operations server) ops \<noteq> [] then Undocumented (difference (implemented_operations server) ops)
       else if difference ops (implemented_operations server) \<noteq> [] then Unimplemented (difference ops (implemented_operations server))
       else Ok)"
    using assms(1-3) d(1) by (simp add: openapi_main_def Let_def)
  also have "\<dots> = Inr (if implements server = describes items then Ok
       else if implements server - describes items \<noteq> {} then Undocumented (difference (implemented_operations server) ops)
       else Unimplemented (difference ops (implemented_operations server)))"
    unfolding eq sub by simp
  finally show ?thesis by (simp only: difference_sorted set_implemented [OF assms(6)] d(2))
qed

section \<open>The server and the document that ship\<close>

definition this_server :: "os_env \<Rightarrow> ('w, 'h, 's, 'i) flux_api \<Rightarrow> server_module" where
  "this_server os api = \<lparr>mod_prefix = PREFIX, mod_get = keys (ROUTES os api), mod_post = keys (POST_ROUTES os api),
     mod_get_job = True, mod_delete_job = True\<rparr>"

text \<open>The paths of \<open>spec/v1/openapi.yaml\<close> with what each path item carries.\<close>

definition shipped_spec :: yaml where
  "shipped_spec = YMap [(us ''openapi'', YStr (us ''3.1.0'')), (us ''paths'', YMap
     [(us ''/'', YMap [(us ''get'', YMap [])]),
      (us ''/health'', YMap [(us ''get'', YMap [])]),
      (us ''/jobs'', YMap [(us ''post'', YMap [])]),
      (us ''/jobs/{jobid}'', YMap [(us ''parameters'', YSeq []), (us ''get'', YMap []), (us ''delete'', YMap [])])])]"

lemma shipped_documented:
  "documented_operations shipped_spec = Inr [(us ''/'', us ''get''), (us ''/health'', us ''get''),
     (us ''/jobs'', us ''post''), (us ''/jobs/{jobid}'', us ''get''), (us ''/jobs/{jobid}'', us ''delete'')]"
  by (simp add: documented_operations_def shipped_spec_def HTTP_METHODS_def)

lemma this_implemented:
  "implemented_operations (this_server os api) = [(us ''/'', us ''get''), (us ''/health'', us ''get''),
     (us ''/jobs'', us ''post''), (us ''/jobs/{jobid}'', us ''get''), (us ''/jobs/{jobid}'', us ''delete'')]"
  by (simp add: implemented_operations_def this_server_def ROUTES_def POST_ROUTES_def relative_path_def Let_def
      PREFIX_def)

text \<open>
  The document that ships describes exactly the routes of this server: the check passes on
  them, whatever the broker.
\<close>

theorem shipped_spec_covers:
  "openapi_main (\<lambda>_. Inr shipped_spec) (\<lambda>_. Inr ()) (\<lambda>_. Inr (this_server os api)) [p, q] = Inr Ok"
  by (simp add: openapi_main_def shipped_documented this_implemented difference_def)

text \<open>Without its \<open>DELETE_JOB_ROUTE\<close> the server would fail the check for that operation alone.\<close>

lemma this_under_prefix: "under_prefix ((this_server os api)\<lparr>mod_delete_job := b\<rparr>)"
  by (simp add: under_prefix_def this_server_def ROUTES_def POST_ROUTES_def py_startswith_iff)

lemma openapi_main_decides_witness:
  "openapi_main (\<lambda>_. Inr shipped_spec) (\<lambda>_. Inr ())
       (\<lambda>_. Inr ((this_server sample_os sample_api)\<lparr>mod_delete_job := False\<rparr>)) [us ''spec'', us ''server'']
     = Inr (Unimplemented [(us ''/jobs/{jobid}'', us ''delete'')])"
proof -
  let ?m = "(this_server sample_os sample_api)\<lparr>mod_delete_job := False\<rparr>"
  let ?ops = "[(us ''/'', us ''get''), (us ''/health'', us ''get''), (us ''/jobs'', us ''post''), (us ''/jobs/{jobid}'', us ''get'')]"
  let ?delete = "(us ''/jobs/{jobid}'', us ''delete'')"
  obtain doc items where doc: "shipped_spec = YMap doc" "map_of doc (us ''paths'') = Some (YMap items)"
    "list_all (\<lambda>(p, i). \<exists>m. i = YMap m) items"
    by (simp add: shipped_spec_def us_Cons)
  have "documented_operations shipped_spec = item_operations items"
    unfolding documented_operations_def doc(1) by (simp add: doc(2))
  moreover obtain ops where ops: "item_operations items = Inr ops" "set ops = describes items"
    using set_documented [OF doc(3)] by blast
  ultimately have "ops = ?ops @ [?delete]" unfolding shipped_documented by simp
  with ops(2) have d: "describes items = set (?ops @ [?delete])" by simp
  have "implemented_operations ?m = ?ops"
    by (simp add: implemented_operations_def this_server_def ROUTES_def POST_ROUTES_def relative_path_def Let_def
        PREFIX_def)
  then have i: "implements ?m = set ?ops" using set_implemented [OF this_under_prefix [of False sample_os sample_api]] by simp
  have n: "?delete \<notin> set ?ops" by (simp add: us_Cons)
  have di: "describes items - implements ?m = {?delete}" unfolding d i using n by auto
  have ne: "implements ?m \<noteq> describes items" using di by blast
  have none: "implements ?m - describes items = {}" unfolding d i by auto
  have main: "openapi_main (\<lambda>_. Inr shipped_spec) (\<lambda>_. Inr ()) (\<lambda>_. Inr ?m) (us ''spec'' # us ''server'' # []) = Inr
      (if implements ?m = describes items then Ok
       else if implements ?m - describes items \<noteq> {} then Undocumented (sorted_list_of_set (implements ?m - describes items))
       else Unimplemented (sorted_list_of_set (describes items - implements ?m)))"
    unfolding doc(1) by (rule openapi_main_decides [OF refl refl refl doc(2,3) this_under_prefix])
  have one: "sorted_list_of_set {?delete} = [?delete]" by simp
  show ?thesis
    unfolding main if_not_P [OF ne] none di one by (simp only: simp_thms if_False)
qed

end
