(* ===== verification/Spec2Isabelle.thy ===== *)
theory Spec2Isabelle
  imports Divergence Packaged Tests Helper Jwt_Auth OpenApi
begin

text \<open>
  A model of \<open>flux-rest-server\<close>, an HTTP front end for the Flux resource manager, with the
  programs around it: the systemd unit starter, the JWT validator, the OpenAPI check and the
  test programs that judge the server.

  The system. nginx authenticates a user and asks \<open>src/libexec/flux-rest-server-ensure.py\<close> to
  start that user's socket unit; systemd then starts \<open>src/cmd/flux-rest-server.py\<close> as the user,
  which admits only the permitted peer, answers \<open>/api/v1\<close> requests one at a time, and talks to
  the user's Flux instance through the Python bindings.

  The theories, bottom up, with the code they model.

  \<open>Prelude\<close>, \<open>PyText\<close>, \<open>Utf8\<close>, \<open>Url\<close>, \<open>Json\<close>, \<open>JsonLoads\<close>, \<open>Http\<close>, \<open>Wire\<close>: Python as the
  code uses it. Exceptions are the datatype \<open>exn\<close>; code that reads and writes a state and may
  raise is a function from the state to \<open>exn + result\<close> and the new state (\<open>prog\<close>), so that every
  raise is a branch and the state at the raise is kept. Text is a list of code points. \<open>str\<close>,
  \<open>int\<close>, \<open>urllib\<close>, \<open>json\<close> and the response half of \<open>http.server\<close> are modelled as the
  interpreter behaves; \<open>Wire\<close> adds the client that reads a response back. \<open>Parse\<close> is the request half,
  \<open>BaseHTTPRequestHandler.handle_one_request\<close> on the bytes of a connection: the request line, the
  header block, the error pages of its own, and the choice of the method; \<open>Parse_Spec\<close> shows that it
  reads back what a client writes (\<open>handle_raw_request\<close>). Two locales live
  here: \<open>codec\<close> (decoding inverts encoding), interpreted for numerals, JSON and responses, and
  \<open>machine\<close> (steps that keep an invariant), interpreted for the connection queue.

  \<open>Flux\<close>, \<open>Jobs\<close>, \<open>Handler\<close>: \<open>flux-rest-server.py\<close> lines 32 to 377, the handle cache, the
  routes, and the class \<open>Handler\<close>, whose methods start from the parsed request. The state \<open>srv\<close> is
  the connection, the cached handle and the broker; the bindings are the record \<open>flux_api\<close> of
  parameters, any call of which may raise any exception, a \<open>KeyboardInterrupt\<close> included. \<open>Interrupt\<close>
  says when that cannot happen (\<open>uninterrupted\<close>: no signal falls into a call of the bindings).

  \<open>Answers\<close>, \<open>Errors\<close>, \<open>Job_Spec\<close>, \<open>Frame\<close>, \<open>Request_Spec\<close>, \<open>Bytes_Spec\<close>, \<open>Divergence\<close>: what is
  proved of them. Every method answers with exactly one complete message, typed as the API document says (\<open>conforms\<close>,
  carried by the route contract from the routes to the wire); each job operation refines a contract on
  the broker (\<open>cancel_reply\<close>, \<open>state_reply\<close>); what a request may read, open and touch; the same
  from the bytes a client sends, well formed or not (\<open>Errors\<close> has the error pages of \<open>http.server\<close>); and the
  inputs on which the code and its intention part. \<open>Sample\<close> is a concrete surrounding for the
  witnesses.

  \<open>Refuse\<close>, \<open>Serve\<close>, \<open>Loop\<close>: lines 384 to 600, \<open>_Server\<close>. \<open>Refuse\<close> has the peer check (the
  locale \<open>peer_gate\<close>, interpreted here and by the unit starter) and the queue of refused
  connections, \<open>Serve\<close> one round of the loop, \<open>Loop\<close> the whole of \<open>serve()\<close> as a step relation
  in which signals and the alarm come between any two steps. The invariants are \<open>queue_inv\<close>
  (the queue is ordered, bounded, and every accepted socket is accounted for) and \<open>loop_inv\<close>. The queue
  refines an abstract one, \<open>queue_spec\<close>: a list of sockets and deadlines with three events
  (\<open>queue_refines\<close>), on which the guarantee for a refused client is shown.

  \<open>Service\<close>: a connection end to end, gate, handler and shutdown composed. Connections are here what a
  client sends, how its stream ends, and which of the server's writes to it fail.

  \<open>Argparse\<close>, \<open>Argparse_Spec\<close>, \<open>Options_Spec\<close>: the command lines of the server and of the JWT validator, as CPython 3.11's
  \<open>argparse\<close> reads them for parsers all of whose arguments are options. \<open>Argparse_Spec\<close> gives the lines such a
  parser is meant for as a grammar with a meaning (\<open>spelling\<close>, \<open>settings\<close>) and shows that it accepts exactly
  these, with that meaning (\<open>parse_args_decides\<close>). \<open>Options_Spec\<close> says what the server's options mean
  without its table (\<open>setting\<close>, \<open>says\<close>, \<open>configured\<close>) and shows that the table says the same.

  \<open>Startup\<close>, \<open>Startup_Spec\<close>: lines 603 to 783, the options of the command line (\<open>OPTIONS\<close>), the three ways to
  get a socket and \<open>main\<close>, over
  an operating system with a descriptor table, file modes and a parameter that says which calls
  it refuses. Proofs run through before/after/on-failure triples and through \<open>decently\<close>, the
  contract of everything that may exit.

  \<open>Process\<close>: the three composed, from the command line to the last line of \<open>main\<close> (774 to 791): the
  server \<open>main\<close> configures runs the loop of \<open>Loop\<close>, and the requests it admits run on the bytes of
  their connections and act on the Flux handle and the broker. How a handler ends is carried along,
  and the \<open>finally\<close> and \<open>except\<close> clauses around it (\<open>process_rest\<close>, \<open>noblock_rest\<close>) give how the
  loop leaves the request; the loop's own steps for that are shown to be these. Over this system it is shown whose requests take
  effect, that each of them comes to its end (\<open>request_through_loop\<close>), and how the process ends. \<open>Packaged\<close> runs it on the
  command line and the socket of the shipped systemd units.

  \<open>Ensure\<close>, \<open>Helper\<close>: \<open>flux-rest-server-ensure.py\<close>; \<open>systemctl\<close> is a parameter. \<open>Ensure\<close> has its gate,
  handler and \<open>main\<close>, with the polkit rule and the unit names it relies on (what systemd takes for the instance
  of a unit is a parameter, its manual the hypothesis \<open>instance_law\<close>). \<open>Helper\<close> has its run, a list of connections; the
  locale \<open>isolation\<close> (unwinding conditions for purging a run), interpreted on its connections, gives that
  only the web server's account has any influence. A client that says nothing parks it for good.
  \<open>Jwt_Auth\<close>: \<open>jwt-auth.py\<close>; PyJWT, httpx and the response class are parameters.
  \<open>OpenApi\<close>: \<open>scripts/openapi-check.py\<close>, what its two sets are without its loops (\<open>implements\<close>, \<open>describes\<close>), and
  that the shipped document passes it.
  \<open>Checks\<close>, \<open>Drivers\<close>: \<open>t/scripts/stop_midrequest.py\<close>, \<open>stalled_client.py\<close>,
  \<open>listen_socket_family.py\<close> and \<open>run_timeout.py\<close>. \<open>Checks\<close> has what they judge by, \<open>Drivers\<close> how they
  drive a server, over a list of what their connections meet: which servers each tells apart, and
  that the forked server is signalled and waited for. \<open>Tests\<close> has the server the child of \<open>stop_midrequest.py\<close>
  runs, and that this test passes on it.

  Bounds and termination. All recursions are total, by structure or by the length of what is
  left to read; there is no fuel. JSON nesting is bounded by the interpreter's \<open>json_depth\<close>, as in
  the C decoder. Sizes and limits are the code's: 1 MiB of body, 16 held refusals, one second of
  linger, five seconds of grace, 4300 digits for \<open>int\<close>. The peer's uid is read from a 32-bit
  word; everything else the code computes with is an unbounded Python number. Time is rational.

  Hypotheses. The properties of the handler assume that the interpreter's version and date texts
  are printable (\<open>texts_ok\<close>) and, where a job id is written or read, what the bindings document
  of it: \<open>JobID\<close> raises \<open>ValueError\<close> on what it does not accept, and the F58 form is plain. Those
  of the wire assume a connection that takes writes; failing writes are modelled, too. \<open>email.parser\<close>
  may raise on a header block it cannot read, as the parameter \<open>email_fault\<close> of the interpreter:
  the properties of arbitrary bytes assume only that it is no \<open>OSError\<close> (\<open>email_no_io\<close>), for the parser does
  no input or output; those of well-formed requests that it raises nothing on such a block. Failures of connections
  in a run of the process are those the kernel documents, \<open>OSError\<close>s (\<open>all_behave\<close>). Where a property needs that no
  signal falls into a call of the bindings, it says so.

  Not modelled. Bodies and multipart messages of \<open>email.parser\<close>: only its header block is read here, and the
  headers the servers do not ask for are kept and ignored. The
  texts argparse prints, and the command line of \<open>t/scripts/run_timeout.py\<close>, which has positional arguments: its
  model starts from the parsed ones. The shell tests, the build and packaging files, and the
  configuration of nginx, systemd and polkit, except the polkit rule, the socket paths the unit
  starter relies on and the command line of the server's unit. In \<open>Process\<close> a signal may fall into a
  call of the bindings or between two writes; one that falls between two statements of the Python code is taken
  at the next of these points. The scheduling of the processes the test programs fork: a test meets the
  outcomes of its connections, not their timing; the child of \<open>stalled_client.py\<close> is not modelled, since its
  timeout is an outcome of a read here and not the passing of time.
\<close>

end
